(* ===== verification/Prelude.thy ===== *)
theory Prelude
  imports Main "HOL-Library.Word" "HOL-Library.Signed_Division"
begin

text \<open>
  Shared vocabulary of the development: C++ integers, exceptions as values, a small
  state-and-exception monad, and the generic lemmas on lists the components use.

  \<^item> \<open>int64_t\<close> is an \<open>int\<close> in the range \<open>INT64_MIN..INT64_MAX\<close>; every arithmetic
    result the code stores back into an \<open>int64_t\<close> goes through \<open>wrap64\<close> (two's
    complement).  Theorems about code whose overflow the C++ standard leaves undefined carry
    a no-overflow hypothesis instead of relying on \<open>wrap64\<close>.
  \<^item> \<open>size_t\<close> is a \<open>nat\<close> below \<open>2 ^ 64\<close>; subtraction that may go below zero is
    \<open>usub64\<close>, which wraps.
  \<^item> An exception, a hardware trap or an access outside an allocation is a value of
    type \<open>error\<close>; a function that may raise one returns \<open>error + 'a\<close>, a function
    that also changes state is a \<open>('a, 's) prog\<close>, whose state survives the exception.
\<close>

section \<open>Collections of facts\<close>

named_theorems arith64 \<open>wrap-around and truncating division on int64 values\<close>
named_theorems run \<open>unfolding a state-and-exception program\<close>

section \<open>Machine integers\<close>

definition INT64_MAX :: int where "INT64_MAX = 9223372036854775807"
definition INT64_MIN :: int where "INT64_MIN = - 9223372036854775808"
definition SIZE_MAX :: nat where "SIZE_MAX = 18446744073709551615"

definition i64_ok :: "int \<Rightarrow> bool" where
  "i64_ok x \<longleftrightarrow> INT64_MIN \<le> x \<and> x \<le> INT64_MAX"

definition wrap64 :: "int \<Rightarrow> int" where
  "wrap64 x = (x + 9223372036854775808) mod 18446744073709551616 - 9223372036854775808"

text \<open>\<open>static_cast\<close> of a \<open>size_t\<close> to a 32-bit \<open>int\<close>, as in \<open>int n = some_size_t\<close>.\<close>

definition wrap32 :: "int \<Rightarrow> int" where
  "wrap32 x = (x + 2147483648) mod 4294967296 - 2147483648"

definition usub64 :: "nat \<Rightarrow> nat \<Rightarrow> nat" where
  "usub64 a b = (if b \<le> a then a - b else 18446744073709551616 + a - b)"

lemma wrap64_id [arith64]: "i64_ok x \<Longrightarrow> wrap64 x = x"
  by (simp add: i64_ok_def wrap64_def INT64_MIN_def INT64_MAX_def)

lemma wrap64_ok [arith64]: "i64_ok (wrap64 x)"
proof -
  have "0 \<le> (x + 9223372036854775808) mod 18446744073709551616"
    and "(x + 9223372036854775808) mod 18446744073709551616 < 18446744073709551616"
    by simp_all
  then show ?thesis
    unfolding i64_ok_def wrap64_def INT64_MIN_def INT64_MAX_def by linarith
qed

lemma i64_okI: "INT64_MIN \<le> x \<Longrightarrow> x \<le> INT64_MAX \<Longrightarrow> i64_ok x"
  by (simp add: i64_ok_def)

lemma i64_ok_between: "i64_ok a \<Longrightarrow> i64_ok b \<Longrightarrow> a \<le> x \<Longrightarrow> x \<le> b \<Longrightarrow> i64_ok x"
  by (simp add: i64_ok_def)

lemma wrap32_id [arith64]: "0 \<le> x \<Longrightarrow> x < 2147483648 \<Longrightarrow> wrap32 x = x"
  by (simp add: wrap32_def)

lemma usub64_le [simp]: "b \<le> a \<Longrightarrow> usub64 a b = a - b"
  by (simp add: usub64_def)

section \<open>Exceptions\<close>

text \<open>
  The exception classes of the code (\<open>Error\<close>, \<open>IOError\<close>, \<open>DatabaseError\<close>,
  \<open>InvalidSeriesProto\<close>, \<open>SqliteError\<close>, \<open>WorkerThreadTooBusy\<close>, and the standard
  \<open>logic_error\<close>, \<open>invalid_argument\<close>, \<open>bad_alloc\<close>, and the \<open>system_error\<close> of a thread that
  cannot be started), a trap raised by an integer
  division, and \<open>OutOfBounds\<close> for an access outside an allocation, which C++ leaves
  undefined.
\<close>

datatype errno = ENOENT | EINVAL | EEXIST | ENOTDIR | EINTR | EOther nat

datatype error =
    IOErr string errno
  | IOErrMsg string
  | InvalidSeriesProto string
  | SqliteErr string
  | WorkerThreadTooBusy
  | LogicError string
  | InvalidArgument string
  | BadAlloc
  | SystemError
  | DivTrap
  | OutOfBounds

type_synonym 'a res = "error + 'a"

definition bindE :: "'a res \<Rightarrow> ('a \<Rightarrow> 'b res) \<Rightarrow> 'b res" where
  "bindE r f = (case r of Inl e \<Rightarrow> Inl e | Inr x \<Rightarrow> f x)"

lemma bindE_simps [simp]:
  "bindE (Inl e) f = Inl e"
  "bindE (Inr x) f = f x"
  by (simp_all add: bindE_def)

lemma bindE_eq_Inr: "bindE r f = Inr y \<longleftrightarrow> (\<exists>x. r = Inr x \<and> f x = Inr y)"
  by (cases r) simp_all

text \<open>
  C++ integer division: truncating, and trapping on a zero divisor or on the one
  overflowing quotient.
\<close>

definition div64 :: "int \<Rightarrow> int \<Rightarrow> int res" where
  "div64 a b = (if b = 0 \<or> (a = INT64_MIN \<and> b = - 1) then Inl DivTrap else Inr (a sdiv b))"

definition mod64 :: "int \<Rightarrow> int \<Rightarrow> int res" where
  "mod64 a b = (if b = 0 \<or> (a = INT64_MIN \<and> b = - 1) then Inl DivTrap else Inr (a smod b))"

lemma div64_pos [arith64]: "0 < b \<Longrightarrow> div64 a b = Inr (a sdiv b)"
  by (simp add: div64_def)

lemma mod64_pos [arith64]: "0 < b \<Longrightarrow> mod64 a b = Inr (a smod b)"
  by (simp add: mod64_def)

lemma sdiv_nonneg [arith64]: "0 \<le> a \<Longrightarrow> 0 < b \<Longrightarrow> (a::int) sdiv b = a div b"
  by (cases "a = 0") (simp_all add: signed_divide_int_def)

lemma smod_nonneg [arith64]: "0 \<le> a \<Longrightarrow> 0 < b \<Longrightarrow> (a::int) smod b = a mod b"
  by (cases "a = 0") (simp_all add: signed_modulo_int_def sdiv_nonneg minus_div_mult_eq_mod)

section \<open>Programs with state and exceptions\<close>

type_synonym ('a, 's) prog = "'s \<Rightarrow> 'a res \<times> 's"

definition returnM :: "'a \<Rightarrow> ('a, 's) prog" where
  "returnM x = (\<lambda>s. (Inr x, s))"

definition throwM :: "error \<Rightarrow> ('a, 's) prog" where
  "throwM e = (\<lambda>s. (Inl e, s))"

definition bindM :: "('a, 's) prog \<Rightarrow> ('a \<Rightarrow> ('b, 's) prog) \<Rightarrow> ('b, 's) prog" where
  "bindM m f = (\<lambda>s. case m s of (Inl e, s') \<Rightarrow> (Inl e, s') | (Inr x, s') \<Rightarrow> f x s')"

definition liftM :: "'a res \<Rightarrow> ('a, 's) prog" where
  "liftM r = (\<lambda>s. (r, s))"

definition getsM :: "('s \<Rightarrow> 'a) \<Rightarrow> ('a, 's) prog" where
  "getsM f = (\<lambda>s. (Inr (f s), s))"

definition modifyM :: "('s \<Rightarrow> 's) \<Rightarrow> (unit, 's) prog" where
  "modifyM f = (\<lambda>s. (Inr (), f s))"

text \<open>\<open>try { m } catch (E& e) { h }\<close> for the exceptions \<open>p\<close> selects.\<close>

definition catchM :: "('a, 's) prog \<Rightarrow> (error \<Rightarrow> bool) \<Rightarrow> (error \<Rightarrow> ('a, 's) prog) \<Rightarrow> ('a, 's) prog" where
  "catchM m p h = (\<lambda>s. case m s of
       (Inl e, s') \<Rightarrow> if p e then h e s' else (Inl e, s')
     | (Inr x, s') \<Rightarrow> (Inr x, s'))"

lemma run_simps [run]:
  "returnM x s = (Inr x, s)"
  "throwM e s = (Inl e, s)"
  "liftM r s = (r, s)"
  "getsM f s = (Inr (f s), s)"
  "modifyM g s = (Inr (), g s)"
  by (simp_all add: returnM_def throwM_def liftM_def getsM_def modifyM_def)

lemma bindM_run [run]:
  "m s = (Inl e, s') \<Longrightarrow> bindM m f s = (Inl e, s')"
  "m s = (Inr x, s') \<Longrightarrow> bindM m f s = f x s'"
  by (simp_all add: bindM_def)

lemma bindM_eq_Inr:
  "bindM m f s = (Inr y, t) \<longleftrightarrow> (\<exists>x s'. m s = (Inr x, s') \<and> f x s' = (Inr y, t))"
  by (auto simp: bindM_def split: prod.splits sum.splits)

lemma bindM_Inr_E:
  assumes "bindM m f s = (Inr y, t)"
  obtains x s' where "m s = (Inr x, s')" and "f x s' = (Inr y, t)"
  using assms by (auto simp: bindM_eq_Inr)

section \<open>Lists\<close>

lemma take_Suc_update: "c < length xs \<Longrightarrow> take (Suc c) (xs[c := x]) = take c xs @ [x]"
  by (simp add: take_Suc_conv_app_nth)

lemma sorted_wrt_key: "sorted_wrt (\<lambda>a b. f a \<le> f b) xs = sorted (map f xs)"
  by (simp add: sorted_map)

lemma takeWhile_le_sorted:
  "sorted (map f xs) \<Longrightarrow> takeWhile (\<lambda>x. f x \<le> (m :: 'k :: linorder)) xs = filter (\<lambda>x. f x \<le> m) xs"
  by (induction xs) (auto simp: filter_empty_conv eq_commute [of "[]"] dest: order_trans)

lemma dropWhile_less_sorted:
  "sorted (map f xs) \<Longrightarrow> dropWhile (\<lambda>x. f x < (m :: 'k :: linorder)) xs = filter (\<lambda>x. m \<le> f x) xs"
proof (induction xs)
  case (Cons x xs)
  show ?case
  proof (cases "f x < m")
    case True
    with Cons show ?thesis by auto
  next
    case False
    with Cons.prems have "\<forall>y \<in> set xs. m \<le> f y" by force
    then have "filter (\<lambda>x. m \<le> f x) xs = xs" by simp
    with False show ?thesis by auto
  qed
qed simp

lemma nth_concat_uniform:
  assumes "\<forall>x \<in> set xss. length x = n" and "i < n * length xss"
  shows "concat xss ! i = xss ! (i div n) ! (i mod n)"
  using assms
proof (induction xss arbitrary: i)
  case (Cons xs xss)
  have n: "length xs = n" using Cons.prems by simp
  show ?case
  proof (cases "i < n")
    case True
    with n show ?thesis by (simp add: nth_append)
  next
    case False
    then have i: "i = n + (i - n)" by simp
    from False Cons.prems have "i - n < n * length xss" by simp
    then have "concat xss ! (i - n) = xss ! ((i - n) div n) ! ((i - n) mod n)"
      using Cons by simp
    moreover have "n > 0" using Cons.prems False by (cases n) auto
    ultimately show ?thesis using False n
      by (simp add: nth_append le_div_geq le_mod_geq)
  qed
qed simp

lemma length_concat_uniform:
  "\<forall>x \<in> set xss. length x = n \<Longrightarrow> length (concat xss) = n * length xss"
  by (induction xss) auto

end
