(* ===== verification/Floats.thy ===== *)
theory Floats
  imports Prelude
begin

text \<open>
  IEEE 754 doubles as 64-bit patterns, and \<open>AlmostEquals\<close> of
  \<open>vqro/base/floatutil.h\<close>.  The value of a finite double is an integer multiple of
  \<open>2 ^ -1074\<close>; \<open>dbl_scaled\<close> is that integer, so comparisons are exact and executable.
\<close>

type_synonym double = "64 word"

definition dbl_sign :: "double \<Rightarrow> bool" where
  "dbl_sign d = bit d 63"

definition dbl_exp :: "double \<Rightarrow> nat" where
  "dbl_exp d = (unat d div 4503599627370496) mod 2048"

definition dbl_frac :: "double \<Rightarrow> nat" where
  "dbl_frac d = unat d mod 4503599627370496"

definition isnan :: "double \<Rightarrow> bool" where
  "isnan d \<longleftrightarrow> dbl_exp d = 2047 \<and> dbl_frac d \<noteq> 0"

definition isinf :: "double \<Rightarrow> bool" where
  "isinf d \<longleftrightarrow> dbl_exp d = 2047 \<and> dbl_frac d = 0"

definition isfin :: "double \<Rightarrow> bool" where
  "isfin d \<longleftrightarrow> dbl_exp d \<noteq> 2047"

text \<open>The magnitude in units of the least subnormal, \<open>2 ^ -1074\<close>.\<close>

definition mag_of :: "nat \<Rightarrow> nat" where
  "mag_of n = (let e = n div 4503599627370496; f = n mod 4503599627370496 in
     if e = 0 then f else (4503599627370496 + f) * 2 ^ (e - 1))"

definition dbl_mag :: "double \<Rightarrow> nat" where
  "dbl_mag d = mag_of (unat d mod 9223372036854775808)"

definition dbl_scaled :: "double \<Rightarrow> int" where
  "dbl_scaled d = (if dbl_sign d then - int (dbl_mag d) else int (dbl_mag d))"

text \<open>\<open>std::numeric_limits<double>::quiet_NaN()\<close>.\<close>

definition double_nan :: double where
  "double_nan = 0x7FF8000000000000"

text \<open>The built-in \<open>==\<close> on doubles.\<close>

definition dbl_eq :: "double \<Rightarrow> double \<Rightarrow> bool" where
  "dbl_eq a b \<longleftrightarrow> \<not> isnan a \<and> \<not> isnan b \<and> dbl_scaled a = dbl_scaled b"

text \<open>
  \<open>fabs(a - b) < std::numeric_limits<double>::epsilon()\<close>.  Epsilon is \<open>2 ^ -52\<close>, that is
  \<open>2 ^ 1022\<close> units; the double below it is \<open>2 ^ 969\<close> units smaller.  Subtraction rounds the
  exact difference to nearest, ties to even, so the rounded difference is below epsilon
  exactly when the difference is below the midpoint \<open>2 ^ 1022 - 2 ^ 968\<close>.  A difference
  with an infinity is infinite or NaN and never below epsilon.
\<close>

definition abs_diff_lt_eps :: "double \<Rightarrow> double \<Rightarrow> bool" where
  "abs_diff_lt_eps a b \<longleftrightarrow> isfin a \<and> isfin b \<and>
     \<bar>dbl_scaled a - dbl_scaled b\<bar> < 2 ^ 1022 - 2 ^ 968"

definition MAX_ULPS_DIFF :: double where "MAX_ULPS_DIFF = 4"

definition almost_equals :: "double \<Rightarrow> double \<Rightarrow> bool" where
  "almost_equals a b =
     (if isnan a \<or> isnan b then False
      else if abs_diff_lt_eps a b then True
      else if dbl_sign a \<noteq> dbl_sign b then False
      else (if b < a then a - b else b - a) \<le> MAX_ULPS_DIFF)"

section \<open>Facts\<close>

lemma isnan_double_nan [simp]: "isnan double_nan"
  by (simp add: isnan_def double_nan_def dbl_exp_def dbl_frac_def)

lemma isfin_not_nan: "isfin d \<Longrightarrow> \<not> isnan d"
  by (simp add: isfin_def isnan_def)

lemma abs_diff_lt_eps_sym: "abs_diff_lt_eps a b = abs_diff_lt_eps b a"
  by (auto simp: abs_diff_lt_eps_def abs_minus_commute)

lemma almost_equals_sym: "almost_equals a b = almost_equals b a"
  by (auto simp: almost_equals_def abs_diff_lt_eps_sym [of a b])

lemma almost_equals_refl: "almost_equals a a \<longleftrightarrow> \<not> isnan a"
  by (auto simp: almost_equals_def)

lemma almost_equals_nan: "isnan a \<or> isnan b \<Longrightarrow> \<not> almost_equals a b"
  by (simp add: almost_equals_def)

text \<open>The gap between neighbouring magnitudes is the unit in the last place.\<close>

lemma mag_of_Suc: "mag_of (Suc n) = mag_of n + 2 ^ (n div 4503599627370496 - 1)"
proof (cases "Suc n mod 4503599627370496 = 0")
  case True
  let ?P = "4503599627370496 :: nat"
  from True have d: "Suc n div ?P = Suc (n div ?P)" and m: "n mod ?P = ?P - 1"
    by (simp_all add: div_Suc mod_Suc split: if_splits)
  show ?thesis
  proof (cases "n div ?P")
    case 0
    with d m True show ?thesis by (simp add: mag_of_def Let_def)
  next
    case (Suc k)
    with d m True show ?thesis by (simp add: mag_of_def Let_def)
  qed
next
  case False
  let ?P = "4503599627370496 :: nat"
  from False have d: "Suc n div ?P = n div ?P" and m: "Suc n mod ?P = Suc (n mod ?P)"
    by (simp_all add: div_Suc mod_Suc split: if_splits)
  have "?P + Suc r = Suc (?P + r)" for r by simp
  then show ?thesis by (simp only: mag_of_def Let_def d m) (simp only: mult_Suc, simp)
qed

lemma mag_of_strict_mono: "m < n \<Longrightarrow> mag_of m < mag_of n"
proof (rule lift_Suc_mono_less [of mag_of m n])
  show "mag_of k < mag_of (Suc k)" for k
    unfolding mag_of_Suc by simp
qed

lemma mag_of_less_iff: "mag_of m < mag_of n \<longleftrightarrow> m < n"
proof (cases m n rule: linorder_cases)
  case less
  then show ?thesis using mag_of_strict_mono [of m n] by simp
next
  case greater
  then show ?thesis using mag_of_strict_mono [of n m] by simp
qed simp

end
