(* ===== verification/Datapoint.thy ===== *)
theory Datapoint
  imports Floats
begin

text \<open>
  \<open>vqro/db/datapoint.h\<close> and the in-memory representation of the two types the store
  writes to files through \<open>reinterpret_cast\<close>: a \<open>Datapoint\<close> (24 bytes) and a
  \<open>double\<close> (8 bytes), little-endian as on the supported hosts.  The locale
  \<open>plain_type\<close> is the contract the templates \<open>ReadValues<T>\<close> and \<open>WriteValues<T>\<close>
  rely on; both types provide it.
\<close>

section \<open>Little-endian bytes\<close>

type_synonym byte = "8 word"

fun le_bytes :: "nat \<Rightarrow> nat \<Rightarrow> byte list" where
  "le_bytes 0 n = []"
| "le_bytes (Suc k) n = word_of_nat n # le_bytes k (n div 256)"

fun le_nat :: "byte list \<Rightarrow> nat" where
  "le_nat [] = 0"
| "le_nat (b # bs) = unat b + 256 * le_nat bs"

lemma unat_byte_less: "unat (b :: byte) < 256"
  using unsigned_less [of b, where ?'a = nat] by simp

lemma unat_u64_less: "unat (d :: 64 word) < 18446744073709551616"
  using unsigned_less [of d, where ?'a = nat] by simp

lemma length_le_bytes [simp]: "length (le_bytes k n) = k"
  by (induction k arbitrary: n) auto

lemma le_nat_le_bytes [simp]: "le_nat (le_bytes k n) = n mod 256 ^ k"
  by (induction k arbitrary: n) (auto simp: unat_of_nat mod_mult2_eq)

lemma le_nat_less: "le_nat bs < 256 ^ length bs"
proof (induction bs)
  case (Cons b bs)
  have "unat b < 256" by (rule unat_byte_less)
  with Cons show ?case by simp
qed simp

lemma le_bytes_le_nat: "le_bytes (length bs) (le_nat bs) = bs"
proof (induction bs)
  case (Cons b bs)
  have "unat b < 256" by (rule unat_byte_less)
  then have "(unat b + 256 * le_nat bs) div 256 = le_nat bs" by simp
  moreover have "word_of_nat (unat b + 256 * le_nat bs) = b"
  proof (rule word_unat_eq_iff [THEN iffD2])
    show "unat (word_of_nat (unat b + 256 * le_nat bs) :: byte) = unat b"
      using \<open>unat b < 256\<close> by (simp only: unat_of_nat) simp
  qed
  ultimately show ?case using Cons by simp
qed simp

text \<open>An \<open>int64_t\<close> as its 64-bit pattern and back.\<close>

definition u64_of_i64 :: "int \<Rightarrow> nat" where
  "u64_of_i64 x = nat (x mod 18446744073709551616)"

definition i64_of_u64 :: "nat \<Rightarrow> int" where
  "i64_of_u64 n = wrap64 (int n)"

lemma i64_of_u64_of_i64: "i64_ok x \<Longrightarrow> i64_of_u64 (u64_of_i64 x) = x"
proof -
  assume x: "i64_ok x"
  have "i64_of_u64 (u64_of_i64 x) = wrap64 x"
    by (simp add: i64_of_u64_def u64_of_i64_def wrap64_def mod_simps)
  with x show ?thesis by (simp add: arith64)
qed

lemma u64_of_i64_less: "u64_of_i64 x < 18446744073709551616"
proof -
  have "x mod 18446744073709551616 < 18446744073709551616" by simp
  then show ?thesis by (simp add: u64_of_i64_def nat_less_iff)
qed

lemma u64_of_i64_of_u64: "n < 18446744073709551616 \<Longrightarrow> u64_of_i64 (i64_of_u64 n) = n"
  by (simp add: u64_of_i64_def i64_of_u64_def wrap64_def mod_simps)

section \<open>Datapoint\<close>

record datapoint =
  dp_timestamp :: int
  dp_value :: double
  dp_duration :: int

definition Datapoint :: "int \<Rightarrow> double \<Rightarrow> int \<Rightarrow> datapoint" where
  "Datapoint t v d = \<lparr>dp_timestamp = t, dp_value = v, dp_duration = d\<rparr>"

text \<open>\<open>operator<\<close> orders by timestamp only, \<open>operator==\<close> compares every field.\<close>

definition dp_less :: "datapoint \<Rightarrow> datapoint \<Rightarrow> bool" where
  "dp_less a b \<longleftrightarrow> dp_timestamp a < dp_timestamp b"

definition dp_equal :: "datapoint \<Rightarrow> datapoint \<Rightarrow> bool" where
  "dp_equal a b \<longleftrightarrow> dp_timestamp a = dp_timestamp b \<and>
     dbl_eq (dp_value a) (dp_value b) \<and> dp_duration a = dp_duration b"

definition dp_not_equal :: "datapoint \<Rightarrow> datapoint \<Rightarrow> bool" where
  "dp_not_equal a b \<longleftrightarrow> \<not> dp_equal a b"

definition dp_swap :: "datapoint \<times> datapoint \<Rightarrow> datapoint \<times> datapoint" where
  "dp_swap ab = (case ab of (a, b) \<Rightarrow>
     (a\<lparr>dp_timestamp := dp_timestamp b, dp_value := dp_value b, dp_duration := dp_duration b\<rparr>,
      b\<lparr>dp_timestamp := dp_timestamp a, dp_value := dp_value a, dp_duration := dp_duration a\<rparr>))"

definition datapoint_size :: nat where "datapoint_size = 24"

definition dense_datapoint_size :: nat where "dense_datapoint_size = 8"

definition dp_ok :: "datapoint \<Rightarrow> bool" where
  "dp_ok p \<longleftrightarrow> i64_ok (dp_timestamp p) \<and> i64_ok (dp_duration p)"

definition dp_encode :: "datapoint \<Rightarrow> byte list" where
  "dp_encode p = le_bytes 8 (u64_of_i64 (dp_timestamp p)) @
     le_bytes 8 (unat (dp_value p)) @ le_bytes 8 (u64_of_i64 (dp_duration p))"

definition dp_decode :: "byte list \<Rightarrow> datapoint" where
  "dp_decode bs = \<lparr>dp_timestamp = i64_of_u64 (le_nat (take 8 bs)),
     dp_value = word_of_nat (le_nat (take 8 (drop 8 bs))),
     dp_duration = i64_of_u64 (le_nat (drop 16 bs))\<rparr>"

definition dbl_encode :: "double \<Rightarrow> byte list" where
  "dbl_encode d = le_bytes 8 (unat d)"

definition dbl_decode :: "byte list \<Rightarrow> double" where
  "dbl_decode bs = word_of_nat (le_nat bs)"

section \<open>Types that live in files as their bytes\<close>

definition enc_all :: "('a \<Rightarrow> byte list) \<Rightarrow> 'a list \<Rightarrow> byte list" where
  "enc_all enc xs = concat (map enc xs)"

fun dec_all :: "nat \<Rightarrow> ('b list \<Rightarrow> 'a) \<Rightarrow> nat \<Rightarrow> 'b list \<Rightarrow> 'a list" where
  "dec_all w dec 0 bs = []"
| "dec_all w dec (Suc n) bs = dec (take w bs) # dec_all w dec n (drop w bs)"

lemma length_dec_all [simp]: "length (dec_all w dec n bs) = n"
  by (induction n arbitrary: bs) auto

lemma enc_all_append [simp]: "enc_all enc (xs @ ys) = enc_all enc xs @ enc_all enc ys"
  by (simp add: enc_all_def)

lemma enc_all_Nil [simp]: "enc_all enc [] = []"
  by (simp add: enc_all_def)

lemma enc_all_Cons [simp]: "enc_all enc (x # xs) = enc x @ enc_all enc xs"
  by (simp add: enc_all_def)

lemma dec_all_take: "n * w \<le> m \<Longrightarrow> dec_all w dec n (take m bs) = dec_all w dec n bs"
proof (induction n arbitrary: m bs)
  case (Suc n)
  then have "w \<le> m" and "n * w \<le> m - w" by auto
  with Suc.IH [of "m - w" "drop w bs"] show ?case by (simp add: drop_take)
qed simp

lemma dec_all_add: "dec_all w dec (m + n) bs = dec_all w dec m bs @ dec_all w dec n (drop (m * w) bs)"
  by (induction m arbitrary: bs) (auto simp: add.commute)

lemma take_dec_all: "take m (dec_all w dec n bs) = dec_all w dec (min m n) bs"
proof (induction n arbitrary: m bs)
  case (Suc n)
  then show ?case by (cases m) auto
qed simp

lemma drop_dec_all: "drop m (dec_all w dec n bs) = dec_all w dec (n - m) (drop (m * w) bs)"
proof (induction n arbitrary: m bs)
  case (Suc n)
  then show ?case by (cases m) (auto simp: add.commute)
qed simp

locale plain_type =
  fixes enc :: "'a \<Rightarrow> byte list"
    and dec :: "byte list \<Rightarrow> 'a"
    and width :: nat
    and ok :: "'a \<Rightarrow> bool"
  assumes width_pos: "0 < width"
    and length_enc: "length (enc x) = width"
    and dec_enc: "ok x \<Longrightarrow> dec (enc x) = x"
    and enc_dec: "length bs = width \<Longrightarrow> enc (dec bs) = bs"
    and ok_dec: "length bs = width \<Longrightarrow> ok (dec bs)"
begin

lemma length_enc_all [simp]: "length (enc_all enc xs) = length xs * width"
  by (induction xs) (simp_all add: length_enc)

lemma take_enc_all: "take (n * width) (enc_all enc xs) = enc_all enc (take n xs)"
proof (induction xs arbitrary: n)
  case (Cons x xs)
  then show ?case by (cases n) (simp_all add: length_enc)
qed simp

lemma drop_enc_all: "drop (n * width) (enc_all enc xs) = enc_all enc (drop n xs)"
proof (induction xs arbitrary: n)
  case (Cons x xs)
  then show ?case by (cases n) (simp_all add: length_enc)
qed simp

lemma dec_all_enc_all:
  "\<forall>x \<in> set xs. ok x \<Longrightarrow> dec_all width dec (length xs) (enc_all enc xs @ bs) = xs"
  by (induction xs) (simp_all add: length_enc dec_enc)

lemma enc_all_dec_all:
  "length bs = n * width \<Longrightarrow> enc_all enc (dec_all width dec n bs) = bs"
proof (induction n arbitrary: bs)
  case (Suc n)
  then have "length (take width bs) = width" and "length (drop width bs) = n * width" by auto
  with Suc.IH show ?case by (simp add: enc_dec)
qed simp

lemma ok_dec_all:
  "n * width \<le> length bs \<Longrightarrow> \<forall>x \<in> set (dec_all width dec n bs). ok x"
proof (induction n arbitrary: bs)
  case (Suc n)
  then have w: "length (take width bs) = width" and "n * width \<le> length (drop width bs)" by auto
  then have "\<forall>x \<in> set (dec_all width dec n (drop width bs)). ok x" by (intro Suc.IH)
  with ok_dec [OF w] show ?case by simp
qed simp

end

lemma length_dp_encode [simp]: "length (dp_encode p) = 24"
  by (simp add: dp_encode_def)

lemma dp_decode_encode: "dp_ok p \<Longrightarrow> dp_decode (dp_encode p) = p"
  using u64_of_i64_less [of "dp_timestamp p"] u64_of_i64_less [of "dp_duration p"]
    unat_u64_less [of "dp_value p"]
  by (simp add: dp_ok_def dp_encode_def dp_decode_def i64_of_u64_of_i64)

lemma le_nat_8: "length bs = 8 \<Longrightarrow> le_nat bs < 18446744073709551616"
  using le_nat_less [of bs] by simp

lemma le_bytes_8: "length bs = 8 \<Longrightarrow> le_bytes 8 (le_nat bs) = bs"
  using le_bytes_le_nat [of bs] by simp

lemma dp_encode_decode: "length bs = 24 \<Longrightarrow> dp_encode (dp_decode bs) = bs"
proof -
  assume l: "length bs = 24"
  have a: "length (take 8 bs) = 8" and b: "length (take 8 (drop 8 bs)) = 8"
    and c: "length (drop 16 bs) = 8" using l by simp_all
  have "take 8 bs @ take 8 (drop 8 bs) @ drop 16 bs = bs"
    using append_take_drop_id [of 8 bs] append_take_drop_id [of 8 "drop 8 bs"]
    by (simp only: drop_drop) simp
  then show ?thesis
    using le_nat_8 [OF a] le_nat_8 [OF b] le_nat_8 [OF c]
    by (simp add: dp_encode_def dp_decode_def u64_of_i64_of_u64 le_bytes_8 [OF a]
        le_bytes_8 [OF b] le_bytes_8 [OF c] unat_of_nat)
qed

interpretation dp: plain_type dp_encode dp_decode datapoint_size dp_ok
proof unfold_locales
  show "dp_ok (dp_decode bs)" for bs
    by (simp add: dp_ok_def dp_decode_def i64_of_u64_def arith64)
qed (simp_all add: datapoint_size_def dp_decode_encode dp_encode_decode)

interpretation dbl: plain_type dbl_encode dbl_decode dense_datapoint_size "\<lambda>_. True"
proof unfold_locales
  show "dbl_decode (dbl_encode d) = d" for d
    using unat_u64_less [of d] by (simp add: dbl_encode_def dbl_decode_def)
  show "dbl_encode (dbl_decode bs) = bs" if "length bs = dense_datapoint_size" for bs
    using that le_nat_8 [of bs] le_bytes_8 [of bs]
    by (simp add: dbl_encode_def dbl_decode_def dense_datapoint_size_def unat_of_nat)
qed (simp_all add: dense_datapoint_size_def dbl_encode_def)

end
