(* ===== verification/FileIO.thy ===== *)
theory FileIO
  imports Datapoint "HOL-Library.AList" "HOL-Library.Sublist"
begin

text \<open>
  \<open>vqro/base/fileutil.h\<close> and \<open>fileutil.cc\<close>: the file system as the code uses it, and the
  loops that turn partial system calls into whole reads and writes.

  The file system is the POSIX name space the server's data directory lives in: regular
  files with their bytes in directory order, and directories.  System calls fail exactly
  where POSIX says they must in such a state (a missing parent, a missing file, a component
  that is not a directory, a negative seek).  What \<open>write\<close> and \<open>writev\<close> answer is an
  arbitrary sequence of its own (\<open>fs_writes\<close>): a full device, an interruption or a partial write can
  come with any of them.
\<close>

section \<open>The file system\<close>

text \<open>What the kernel answers to one \<open>read\<close>, \<open>write\<close> or \<open>writev\<close>.\<close>

datatype answer = Done nat | Interrupted | Failed errno

text \<open>
  \<open>fs_dir_size\<close> is the size \<open>stat\<close> reports for a directory and \<open>fs_dirent_tail\<close> the
  memory behind the name in a directory entry; nothing constrains them.  \<open>fs_writes\<close> is what the
  kernel answers to the next writes to files; it takes whole what is written after the last answer.
\<close>

record posix =
  fs_files :: "(string \<times> byte list) list"
  fs_dirs :: "string list"
  fs_dir_size :: nat
  fs_dirent_tail :: string
  fs_writes :: "answer list"

datatype node = DirNode | RegNode "byte list"

definition strip_slashes :: "string \<Rightarrow> string" where
  "strip_slashes p = rev (dropWhile (\<lambda>c. c = CHR ''/'') (rev p))"

text \<open>\<open>p.substr(0, p.rfind("/"))\<close>, \<open>None\<close> where \<open>rfind\<close> is \<open>npos\<close>.\<close>

definition before_last_slash :: "string \<Rightarrow> string option" where
  "before_last_slash p = (case dropWhile (\<lambda>c. c \<noteq> CHR ''/'') (rev p) of
     [] \<Rightarrow> None | _ # r \<Rightarrow> Some (rev r))"

definition is_dir :: "string \<Rightarrow> 'a posix_scheme \<Rightarrow> bool" where
  "is_dir p s \<longleftrightarrow> p = '''' \<or> p \<in> set (fs_dirs s)"

definition fs_stat :: "string \<Rightarrow> 'a posix_scheme \<Rightarrow> errno + node" where
  "fs_stat p s =
     (if p = '''' then Inl ENOENT
      else if is_dir (strip_slashes p) s then Inr DirNode
      else case map_of (fs_files s) p of
        Some bs \<Rightarrow> Inr (RegNode bs)
      | None \<Rightarrow> Inl (if list_ex (\<lambda>f. prefix (fst f @ ''/'') p) (fs_files s) then ENOTDIR else ENOENT))"

definition fs_mkdir :: "string \<Rightarrow> 'a posix_scheme \<Rightarrow> (errno + unit) \<times> 'a posix_scheme" where
  "fs_mkdir p s =
     (let q = strip_slashes p;
          made = (Inr (), s\<lparr>fs_dirs := q # fs_dirs s\<rparr>)
      in if p = '''' then (Inl ENOENT, s)
         else if is_dir q s \<or> map_of (fs_files s) q \<noteq> None then (Inl EEXIST, s)
         else case before_last_slash q of
           None \<Rightarrow> made
         | Some par \<Rightarrow>
             if is_dir (strip_slashes par) s then made
             else if list_ex (\<lambda>f. prefix (fst f @ ''/'') q) (fs_files s) then (Inl ENOTDIR, s)
             else (Inl ENOENT, s))"

definition fs_rename :: "string \<Rightarrow> string \<Rightarrow> 'a posix_scheme \<Rightarrow> (errno + unit) \<times> 'a posix_scheme" where
  "fs_rename old new s = (case map_of (fs_files s) old of
       None \<Rightarrow> (Inl ENOENT, s)
     | Some bs \<Rightarrow> if old = new then (Inr (), s)
         else (Inr (), s\<lparr>fs_files := AList.update new bs (AList.delete old (fs_files s))\<rparr>))"

definition fs_unlink :: "string \<Rightarrow> 'a posix_scheme \<Rightarrow> (errno + unit) \<times> 'a posix_scheme" where
  "fs_unlink p s = (case map_of (fs_files s) p of
       None \<Rightarrow> (Inl ENOENT, s)
     | Some _ \<Rightarrow> (Inr (), s\<lparr>fs_files := AList.delete p (fs_files s)\<rparr>))"

text \<open>\<open>open\<close> for reading, and \<open>open\<close> with \<open>O_WRONLY|O_CREAT\<close> (21 is \<open>EISDIR\<close>).\<close>

definition fs_open :: "string \<Rightarrow> 'a posix_scheme \<Rightarrow> errno + byte list" where
  "fs_open p s = (case fs_stat p s of
     Inl e \<Rightarrow> Inl e | Inr DirNode \<Rightarrow> Inr [] | Inr (RegNode bs) \<Rightarrow> Inr bs)"

definition fs_creat :: "string \<Rightarrow> 'a posix_scheme \<Rightarrow> (errno + unit) \<times> 'a posix_scheme" where
  "fs_creat p s = (if is_dir (strip_slashes p) s then (Inl (EOther 21), s) else case map_of (fs_files s) p of
       Some _ \<Rightarrow> (Inr (), s)
     | None \<Rightarrow> (case before_last_slash p of
         None \<Rightarrow> (Inr (), s\<lparr>fs_files := AList.update p [] (fs_files s)\<rparr>)
       | Some par \<Rightarrow> if is_dir (strip_slashes par) s
           then (Inr (), s\<lparr>fs_files := AList.update p [] (fs_files s)\<rparr>)
           else (Inl ENOENT, s)))"

text \<open>The bytes of a file after writing \<open>bs\<close> at an offset: a hole reads as zeros.\<close>

definition splice :: "nat \<Rightarrow> byte list \<Rightarrow> byte list \<Rightarrow> byte list" where
  "splice off bs old = take off old @ replicate (off - length old) 0 @ bs @
     drop (off + length bs) old"

definition fs_write_at :: "string \<Rightarrow> nat \<Rightarrow> byte list \<Rightarrow> 'a posix_scheme \<Rightarrow> 'a posix_scheme" where
  "fs_write_at p off bs s = (case map_of (fs_files s) p of
       None \<Rightarrow> s
     | Some old \<Rightarrow> s\<lparr>fs_files := AList.update p (if bs = [] then old else splice off bs old) (fs_files s)\<rparr>)"

definition fs_append :: "string \<Rightarrow> byte list \<Rightarrow> 'a posix_scheme \<Rightarrow> 'a posix_scheme" where
  "fs_append p bs s = (case map_of (fs_files s) p of
       None \<Rightarrow> s
     | Some old \<Rightarrow> s\<lparr>fs_files := AList.update p (old @ bs) (fs_files s)\<rparr>)"

section \<open>The filesystem utilities\<close>

definition file_exists :: "string \<Rightarrow> 'a posix_scheme \<Rightarrow> bool" where
  "file_exists path s = (case fs_stat path s of Inl _ \<Rightarrow> False | Inr _ \<Rightarrow> True)"

definition get_file_size :: "string \<Rightarrow> bool \<Rightarrow> 'a posix_scheme \<Rightarrow> nat res" where
  "get_file_size path error_returns_zero s = (case fs_stat path s of
       Inl e \<Rightarrow> if error_returns_zero then Inr 0
               else Inl (IOErr (''GetFileSize stat() failed on path='' @ path) e)
     | Inr DirNode \<Rightarrow> Inr (fs_dir_size s)
     | Inr (RegNode bs) \<Rightarrow> Inr (length bs))"

text \<open>
  \<open>CreateDirectory\<close> calls itself on the parent and then again on the same path; the fuel
  counts nested calls and \<open>None\<close> means it ran out.
\<close>

fun create_directory_fuel ::
  "nat \<Rightarrow> string \<Rightarrow> 'a posix_scheme \<Rightarrow> (unit res \<times> 'a posix_scheme) option" where
  "create_directory_fuel 0 dir_path s = None"
| "create_directory_fuel (Suc n) dir_path s =
     (case fs_stat dir_path s of
       Inr DirNode \<Rightarrow> Some (Inr (), s)
     | Inr (RegNode _) \<Rightarrow> Some (Inl (IOErrMsg (dir_path @ '' is not a directory'')), s)
     | Inl _ \<Rightarrow> (case fs_mkdir dir_path s of
         (Inr _, s') \<Rightarrow> Some (Inr (), s')
       | (Inl e, s') \<Rightarrow> (case before_last_slash dir_path of
           Some parent_dir \<Rightarrow>
             if e = ENOENT then
               (case create_directory_fuel n parent_dir s' of
                 None \<Rightarrow> None
               | Some (Inl err, s1) \<Rightarrow> Some (Inl err, s1)
               | Some (Inr _, s1) \<Rightarrow> create_directory_fuel n dir_path s1)
             else Some (Inl (IOErr ''CreateDirectory mkdir() failed'' e), s')
         | None \<Rightarrow> Some (Inl (IOErr ''CreateDirectory mkdir() failed'' e), s'))))"

definition create_directory :: "string \<Rightarrow> (unit, 'a posix_scheme) prog" where
  "create_directory dir_path s = the (create_directory_fuel (length dir_path + 2) dir_path s)"

section \<open>Loops over partial reads and writes\<close>

text \<open>
  \<open>WriteValues\<close>: \<open>os\<close> are the answers still to come, \<open>bs\<close> the bytes still to write,
  \<open>out\<close> what has reached the file.  The answers left over are returned.
\<close>

fun write_values_loop :: "answer list \<Rightarrow> byte list \<Rightarrow> byte list \<Rightarrow> (unit res \<times> byte list) \<times> answer list" where
  "write_values_loop os [] out = ((Inr (), out), os)"
| "write_values_loop [] (b # bs) out = ((Inr (), out @ b # bs), [])"
| "write_values_loop (Done k # os) (b # bs) out =
     write_values_loop os (drop k (b # bs)) (out @ take k (b # bs))"
| "write_values_loop (Interrupted # os) (b # bs) out = write_values_loop os (b # bs) out"
| "write_values_loop (Failed e # os) (b # bs) out =
     ((Inl (IOErr ''WriteValues write() failed'' e), out), os)"

text \<open>\<open>WriteValues\<close> to an open file, from the offset its descriptor has.\<close>

definition write_values :: "('v \<Rightarrow> byte list) \<Rightarrow> string \<Rightarrow> nat \<Rightarrow> 'v list \<Rightarrow> (unit, 'a posix_scheme) prog" where
  "write_values enc p off buffer s =
     (case write_values_loop (fs_writes s) (enc_all enc buffer) [] of
       ((r, out), os) \<Rightarrow> (r, fs_write_at p off out (s\<lparr>fs_writes := os\<rparr>)))"

text \<open>\<open>WriteVector\<close>: skip the vectors written in full, then trim the one written in part.\<close>

fun advance_iov :: "nat \<Rightarrow> byte list list \<Rightarrow> byte list list" where
  "advance_iov written [] = []"
| "advance_iov written (v # iov) =
     (if length v \<le> written then advance_iov (written - length v) iov
      else if written \<noteq> 0 then drop written v # iov else v # iov)"

fun write_vector_loop :: "answer list \<Rightarrow> byte list list \<Rightarrow> byte list \<Rightarrow> (unit res \<times> byte list) \<times> answer list" where
  "write_vector_loop os [] out = ((Inr (), out), os)"
| "write_vector_loop [] (v # iov) out = ((Inr (), out @ concat (v # iov)), [])"
| "write_vector_loop (Done k # os) (v # iov) out =
     write_vector_loop os (advance_iov k (v # iov)) (out @ take k (concat (v # iov)))"
| "write_vector_loop (Interrupted # os) (v # iov) out = write_vector_loop os (v # iov) out"
| "write_vector_loop (Failed e # os) (v # iov) out =
     ((Inl (IOErr ''WriteVector writev() failed'' e), out), os)"

text \<open>\<open>WriteVector\<close> to a file opened with \<open>O_APPEND\<close>.\<close>

definition write_vector :: "string \<Rightarrow> byte list list \<Rightarrow> (unit, 'a posix_scheme) prog" where
  "write_vector p iov s =
     (case write_vector_loop (fs_writes s) iov [] of
       ((r, out), os) \<Rightarrow> (r, fs_append p out (s\<lparr>fs_writes := os\<rparr>)))"

text \<open>
  \<open>ReadValues<T>\<close>: \<open>buf\<close> holds the bytes before \<open>start\<close>, \<open>rest\<close> what the file still
  has after the descriptor's offset, \<open>len\<close> the number of values asked for and \<open>w\<close> the
  size of one.  A read moves the offset by all the bytes it returned, but \<open>start\<close> only by
  the whole values among them; an answer of 0 bytes is the end of the file.
\<close>

primrec read_values_loop ::
  "nat \<Rightarrow> nat \<Rightarrow> answer list \<Rightarrow> byte list \<Rightarrow> byte list \<Rightarrow> (byte list res \<times> byte list) option" where
  "read_values_loop w len [] rest buf =
     (if length buf < len * w then None else Some (Inr buf, rest))"
| "read_values_loop w len (a # os) rest buf =
     (if length buf < len * w then
        (case a of
          Interrupted \<Rightarrow> read_values_loop w len os rest buf
        | Failed e \<Rightarrow> Some (Inl (IOErr ''ReadValues read() failed'' e), rest)
        | Done k \<Rightarrow>
            let n = min k (min (len * w - length buf) (length rest)) in
            if n = 0 then Some (Inr buf, rest)
            else read_values_loop w len os (drop n rest) (buf @ take (n - n mod w) rest))
      else Some (Inr buf, rest))"

text \<open>The values read: the buffer is resized to the \<open>values_read\<close> whole values.\<close>

definition read_values ::
  "nat \<Rightarrow> (byte list \<Rightarrow> 'a) \<Rightarrow> answer list \<Rightarrow> byte list \<Rightarrow> nat \<Rightarrow> 'a list res option" where
  "read_values w dec os rest len = (case read_values_loop w len os rest [] of
       None \<Rightarrow> None
     | Some (Inl e, _) \<Rightarrow> Some (Inl e)
     | Some (Inr buf, _) \<Rightarrow> Some (Inr (dec_all w dec (length buf div w) buf)))"

section \<open>Facts about whole writes\<close>

text \<open>No write fails; interruptions and partial writes are not failures.\<close>

definition granted :: "answer \<Rightarrow> bool" where
  "granted a \<longleftrightarrow> (case a of Failed _ \<Rightarrow> False | _ \<Rightarrow> True)"

definition writes_ok :: "'a posix_scheme \<Rightarrow> bool" where
  "writes_ok s \<longleftrightarrow> list_all granted (fs_writes s)"

lemma concat_advance_iov: "concat (advance_iov k iov) = drop k (concat iov)"
  by (induction k iov rule: advance_iov.induct) auto

text \<open>
  A loop over writes puts everything into the file or, where the kernel fails one, a prefix of it;
  it uses up a prefix of the answers.
\<close>

lemma write_values_loop_prefix:
  "write_values_loop os bs out = ((r, out'), os') \<Longrightarrow>
     (\<exists>n. out' = out @ take n bs) \<and> (r = Inr () \<longrightarrow> out' = out @ bs) \<and> suffix os' os \<and>
     (\<forall>e. r = Inl e \<longrightarrow> (\<exists>err. e = IOErr ''WriteValues write() failed'' err \<and> Failed err \<in> set os))"
proof (induction os bs out rule: write_values_loop.induct)
  case (3 k os b bs out)
  from 3 obtain n where n: "out' = (out @ take k (b # bs)) @ take n (drop k (b # bs))" by auto
  then have "out' = out @ take (k + n) (b # bs)" by (simp add: take_add)
  moreover from 3 have "r = Inr () \<longrightarrow> out' = (out @ take k (b # bs)) @ drop k (b # bs)" by auto
  then have "r = Inr () \<longrightarrow> out' = out @ b # bs" by (metis append.assoc append_take_drop_id)
  ultimately show ?case using 3 by (auto simp: suffix_ConsI)
next
  case (2 b bs out)
  then show ?case by (auto intro: exI [of _ "Suc (length bs)"])
qed (auto simp: suffix_ConsI intro: exI [of _ 0])

lemma write_vector_loop_prefix:
  "write_vector_loop os iov out = ((r, out'), os') \<Longrightarrow>
     (\<exists>n. out' = out @ take n (concat iov)) \<and> (r = Inr () \<longrightarrow> out' = out @ concat iov) \<and> suffix os' os \<and>
     (\<forall>e. r = Inl e \<longrightarrow> (\<exists>err. e = IOErr ''WriteVector writev() failed'' err \<and> Failed err \<in> set os))"
proof (induction os iov out rule: write_vector_loop.induct)
  case (3 k os v iov out)
  let ?bs = "concat (v # iov)"
  note IH = 3(1) [OF 3(2) [unfolded write_vector_loop.simps], unfolded concat_advance_iov]
  from IH obtain n where "out' = (out @ take k ?bs) @ take n (drop k ?bs)" by blast
  then have "out' = out @ take (k + n) ?bs" by (simp only: take_add append_assoc)
  moreover from IH have "r = Inr () \<longrightarrow> out' = out @ ?bs" by (metis append.assoc append_take_drop_id)
  ultimately show ?case using IH by (auto simp del: concat.simps simp: suffix_ConsI)
next
  case (2 v iov out)
  then show ?case by (auto intro: exI [of _ "length (v @ concat iov)"])
qed (auto simp: suffix_ConsI intro: exI [of _ 0])

lemma suffix_granted: "suffix os' os \<Longrightarrow> list_all granted os \<Longrightarrow> list_all granted os'"
  by (auto simp: suffix_def)

lemma granted_not_failed: "list_all granted os \<Longrightarrow> Failed e \<notin> set os"
  by (auto simp: list_all_iff granted_def)

section \<open>Facts about whole reads\<close>

text \<open>Answers that never split a value: no empty read before the end, only whole values.\<close>

definition aligned_answer :: "nat \<Rightarrow> answer \<Rightarrow> bool" where
  "aligned_answer w a = (case a of Done k \<Rightarrow> 0 < k \<and> w dvd k | _ \<Rightarrow> True)"

lemma aligned_rest:
  assumes "w dvd n" and "n \<le> r" and "w dvd a" and "n \<le> a"
  shows "n + min (a - n) ((r - n) div w * w) = min a (r div w * (w :: nat))"
proof (cases "w = 0")
  case False
  from assms obtain m where m: "n = m * w" by (metis dvdE mult.commute)
  from assms obtain t where t: "r = n + t" by (metis le_add_diff_inverse)
  from False have "r div w = m + t div w" by (simp add: m t)
  then have "r div w * w = n + (r - n) div w * w" by (simp add: m t add_mult_distrib)
  with assms(4) show ?thesis by simp
qed (use assms in simp)

lemma read_values_loop_aligned:
  assumes "read_values_loop w len os rest buf = Some (Inr buf', rest')"
    and "list_all (aligned_answer w) os" and "0 < w" and "w dvd length buf" and "length buf \<le> len * w"
  shows "buf' = buf @ take (min (len * w - length buf) (length rest div w * w)) rest"
  using assms
proof (induction os arbitrary: rest buf)
  case Nil
  then show ?case by (simp split: if_splits)
next
  case (Cons a os)
  show ?case
  proof (cases "length buf < len * w")
    case False
    with Cons.prems show ?thesis by simp
  next
    case more: True
    show ?thesis
    proof (cases a)
      case (Done k)
      let ?a = "len * w - length buf" let ?r = "length rest"
      define n where "n = min k (min ?a ?r)"
      have wa: "w dvd ?a" using Cons.prems(4) by simp
      have k: "0 < k" "w dvd k" using Cons.prems(2) Done by (auto simp: aligned_answer_def)
      show ?thesis
      proof (cases "n = 0")
        case True
        then have "rest = []" using k more by (auto simp: n_def min_def split: if_splits)
        with Cons.prems(1) Done more True show ?thesis by (simp add: n_def Let_def)
      next
        case False
        let ?m = "n - n mod w"
        have m: "?m = n div w * w" by (simp add: minus_mod_eq_div_mult)
        have nr: "n \<le> ?r" and na: "n \<le> ?a" by (simp_all add: n_def)
        then have ma: "?m \<le> ?a" "?m \<le> ?r" by simp_all
        have step: "read_values_loop w len os (drop n rest) (buf @ take ?m rest) = Some (Inr buf', rest')"
          using Cons.prems(1) Done more False by (simp add: n_def [symmetric] Let_def)
        have l: "length (buf @ take ?m rest) = length buf + ?m" using ma by simp
        have "buf' = (buf @ take ?m rest) @
            take (min (len * w - (length buf + ?m)) (length (drop n rest) div w * w)) (drop n rest)"
        proof (subst l [symmetric], rule Cons.IH [OF step])
          show "w dvd length (buf @ take ?m rest)" unfolding l unfolding m using Cons.prems(4) by simp
          show "length (buf @ take ?m rest) \<le> len * w" using ma more by (simp only: l)
        qed (use Cons.prems in simp_all)
        moreover have "take ?m rest @ take (min (?a - ?m) ((?r - n) div w * w)) (drop n rest)
            = take (min ?a (?r div w * w)) rest"
        proof (cases "w dvd n")
          case True
          then have "?m = n" by (simp add: m)
          moreover from True have "n + min (?a - n) ((?r - n) div w * w) = min ?a (?r div w * w)"
            using nr wa na by (intro aligned_rest)
          ultimately show ?thesis by (metis take_add)
        next
          case False
          then have "n = ?r" using wa k by (auto simp: n_def min_def split: if_splits)
          with m ma show ?thesis by simp
        qed
        ultimately show ?thesis by simp
      qed
    next
      case Interrupted
      with Cons more show ?thesis by simp
    next
      case (Failed e)
      with Cons more show ?thesis by simp
    qed
  qed
qed

lemma read_values_aligned:
  assumes "read_values w dec os rest len = Some (Inr vs)"
    and "list_all (aligned_answer w) os" and "0 < w"
  shows "vs = dec_all w dec (min len (length rest div w)) rest"
proof -
  obtain buf rest' where loop: "read_values_loop w len os rest [] = Some (Inr buf, rest')"
    and vs: "vs = dec_all w dec (length buf div w) buf"
    using assms(1) by (auto simp: read_values_def split: option.splits sum.splits)
  let ?n = "min len (length rest div w)"
  have "min (len * w) (length rest div w * w) = ?n * w"
    by (simp add: nat_mult_min_left)
  with read_values_loop_aligned [OF loop assms(2,3)] have buf: "buf = take (?n * w) rest"
    by simp
  have "?n * w \<le> length rest"
    by (metis div_times_less_eq_dividend le_trans min.cobounded2 mult_le_mono1)
  with buf have "length buf div w = ?n" using assms(3) by (simp add: min_def)
  with buf vs show ?thesis by (simp add: dec_all_take)
qed

section \<open>Facts about directories\<close>

lemma before_last_slash_Some:
  "before_last_slash p = Some q \<longleftrightarrow> (\<exists>t. p = q @ ''/'' @ t \<and> CHR ''/'' \<notin> set t)"
proof
  assume "before_last_slash p = Some q"
  then obtain c r where d: "dropWhile (\<lambda>c. c \<noteq> CHR ''/'') (rev p) = c # r" and q: "q = rev r"
    by (auto simp: before_last_slash_def split: list.splits)
  have c: "c = CHR ''/''" using hd_dropWhile [of "\<lambda>c. c \<noteq> CHR ''/''" "rev p"] d by simp
  let ?t = "takeWhile (\<lambda>c. c \<noteq> CHR ''/'') (rev p)"
  have "rev p = ?t @ CHR ''/'' # r" using d c by (metis takeWhile_dropWhile_id)
  then have "p = q @ ''/'' @ rev ?t" by (metis append.assoc append_Cons append_Nil q rev.simps(2) rev_append rev_rev_ident)
  moreover have "CHR ''/'' \<notin> set (rev ?t)" by (auto dest: set_takeWhileD)
  ultimately show "\<exists>t. p = q @ ''/'' @ t \<and> CHR ''/'' \<notin> set t" by blast
next
  assume "\<exists>t. p = q @ ''/'' @ t \<and> CHR ''/'' \<notin> set t"
  then show "before_last_slash p = Some q"
    by (auto simp: before_last_slash_def dropWhile_append)
qed

lemma before_last_slash_None: "before_last_slash p = None \<longleftrightarrow> CHR ''/'' \<notin> set p"
proof -
  have "before_last_slash p = None \<longleftrightarrow> dropWhile (\<lambda>c. c \<noteq> CHR ''/'') (rev p) = []"
    by (cases "dropWhile (\<lambda>c. c \<noteq> CHR ''/'') (rev p)") 
      (simp_all add: before_last_slash_def del: dropWhile_eq_Nil_conv)
  then show ?thesis by (auto simp: dropWhile_eq_Nil_conv)
qed

lemma before_last_slash_length: "before_last_slash p = Some q \<Longrightarrow> length q < length p"
  by (auto simp: before_last_slash_Some)

lemma strip_slashes_snoc:
  "strip_slashes (p @ [c]) = (if c = CHR ''/'' then strip_slashes p else p @ [c])"
  by (simp add: strip_slashes_def)

lemma strip_slashes_Nil [simp]: "strip_slashes [] = []"
  by (simp add: strip_slashes_def)

text \<open>After its parent exists, a path either is that directory or is made in one step.\<close>

lemma strip_before_last:
  assumes "before_last_slash p = Some q"
  shows "strip_slashes p = strip_slashes q \<or>
    (strip_slashes p = p \<and> before_last_slash (strip_slashes p) = Some q)"
proof -
  obtain t where p: "p = q @ ''/'' @ t" and t: "CHR ''/'' \<notin> set t"
    using assms by (auto simp: before_last_slash_Some)
  show ?thesis
  proof (cases t rule: rev_exhaust)
    case Nil
    with p show ?thesis using strip_slashes_snoc [of q "CHR ''/''"] by simp
  next
    case (snoc t' c)
    with t have "c \<noteq> CHR ''/''" by auto
    with p snoc have "strip_slashes p = p" using strip_slashes_snoc [of "q @ ''/'' @ t'" c] by simp
    with assms show ?thesis by simp
  qed
qed

text \<open>
  What one call of \<open>CreateDirectory\<close> guarantees: it touches no file, removes no
  directory, and where it returns normally the path is a directory.
\<close>

definition dir_made :: "string \<Rightarrow> 'a posix_scheme \<Rightarrow> unit res \<Rightarrow> 'a posix_scheme \<Rightarrow> bool" where
  "dir_made p s r s' \<longleftrightarrow> (\<exists>new. s' = s\<lparr>fs_dirs := new @ fs_dirs s\<rparr>) \<and>
     (r = Inr () \<longrightarrow> p \<noteq> '''' \<and> is_dir (strip_slashes p) s')"

lemma fs_mkdir_fail:
  "fs_mkdir p s = (Inl e, s') \<Longrightarrow> s' = s"
  by (auto simp: fs_mkdir_def Let_def split: if_splits option.splits)

lemma fs_mkdir_made: "fs_mkdir p s = (Inr (), s') \<Longrightarrow> dir_made p s (Inr ()) s'"
  by (auto simp: fs_mkdir_def Let_def dir_made_def is_dir_def intro: exI [of _ "[x]" for x]
      split: if_splits option.splits)

lemma dir_made_trans:
  assumes "dir_made p s r s1" and "dir_made q s1 r' s'"
  shows "dir_made q s r' s'"
proof -
  from assms obtain new new' where "s1 = s\<lparr>fs_dirs := new @ fs_dirs s\<rparr>"
    and "s' = s1\<lparr>fs_dirs := new' @ fs_dirs s1\<rparr>" unfolding dir_made_def by blast
  then have "s' = s\<lparr>fs_dirs := (new' @ new) @ fs_dirs s\<rparr>" by simp
  with assms(2) show ?thesis unfolding dir_made_def by blast
qed

lemma fs_stat_dir: "p \<noteq> '''' \<Longrightarrow> is_dir (strip_slashes p) s \<Longrightarrow> fs_stat p s = Inr DirNode"
  by (simp add: fs_stat_def)

lemma fs_stat_DirNode: "fs_stat p s = Inr DirNode \<Longrightarrow> p \<noteq> '''' \<and> is_dir (strip_slashes p) s"
  by (auto simp: fs_stat_def split: if_splits option.splits)

lemma dir_made_refl: "(r = Inr () \<Longrightarrow> p \<noteq> '''' \<and> is_dir (strip_slashes p) s) \<Longrightarrow> dir_made p s r s"
  by (auto simp: dir_made_def intro: exI [of _ "[]"])

text \<open>One unfolding of the recursion, branch by branch.\<close>

lemma create_directory_fuel_cases:
  "fs_stat p s = Inr DirNode \<Longrightarrow> create_directory_fuel (Suc n) p s = Some (Inr (), s)"
  "fs_stat p s = Inr (RegNode bs) \<Longrightarrow>
     create_directory_fuel (Suc n) p s = Some (Inl (IOErrMsg (p @ '' is not a directory'')), s)"
  "fs_stat p s = Inl e0 \<Longrightarrow> fs_mkdir p s = (Inr (), s') \<Longrightarrow>
     create_directory_fuel (Suc n) p s = Some (Inr (), s')"
  "fs_stat p s = Inl e0 \<Longrightarrow> fs_mkdir p s = (Inl e, s) \<Longrightarrow> e \<noteq> ENOENT \<or> before_last_slash p = None \<Longrightarrow>
     create_directory_fuel (Suc n) p s = Some (Inl (IOErr ''CreateDirectory mkdir() failed'' e), s)"
  "fs_stat p s = Inl e0 \<Longrightarrow> fs_mkdir p s = (Inl ENOENT, s) \<Longrightarrow> before_last_slash p = Some q \<Longrightarrow>
     create_directory_fuel n q s = Some (Inl err, s1) \<Longrightarrow>
     create_directory_fuel (Suc n) p s = Some (Inl err, s1)"
  "fs_stat p s = Inl e0 \<Longrightarrow> fs_mkdir p s = (Inl ENOENT, s) \<Longrightarrow> before_last_slash p = Some q \<Longrightarrow>
     create_directory_fuel n q s = Some (Inr (), s1) \<Longrightarrow>
     create_directory_fuel (Suc n) p s = create_directory_fuel n p s1"
  subgoal by simp
  subgoal by simp
  subgoal by simp
  subgoal by (cases "before_last_slash p") auto
  subgoal by simp
  subgoal by simp
  done

text \<open>The second call on a path, once its parent is there, needs no further recursion.\<close>

lemma create_directory_parent_there:
  assumes "before_last_slash p = Some q" and "is_dir (strip_slashes q) s"
  shows "\<exists>r s'. create_directory_fuel (Suc n) p s = Some (r, s') \<and> dir_made p s r s'"
proof -
  have p: "p \<noteq> ''''" using assms(1) by (auto simp: before_last_slash_Some)
  show ?thesis
  proof (cases "fs_stat p s")
    case (Inr nd)
    with fs_stat_DirNode [of p s] show ?thesis
      by (cases nd) (auto simp: create_directory_fuel_cases(1,2) intro: dir_made_refl)
  next
    case (Inl e)
    then have nd: "\<not> is_dir (strip_slashes p) s" using p fs_stat_dir by force
    with strip_before_last [OF assms(1)] assms(2)
    have strip: "strip_slashes p = p" "before_last_slash p = Some q" by auto
    with Inl p nd assms(2) have "fs_mkdir p s = (Inr (), s\<lparr>fs_dirs := p # fs_dirs s\<rparr>)"
      by (auto simp: fs_mkdir_def Let_def fs_stat_def split: option.splits)
    with Inl show ?thesis
      by (meson create_directory_fuel_cases(3) fs_mkdir_made)
  qed
qed

lemma create_directory_fuel_total:
  "length p < n \<Longrightarrow> \<exists>r s'. create_directory_fuel (Suc n) p s = Some (r, s') \<and> dir_made p s r s'"
proof (induction n arbitrary: p s)
  case (Suc n)
  show ?case
  proof (cases "fs_stat p s")
    case (Inr nd)
    with fs_stat_DirNode [of p s] show ?thesis
      by (cases nd) (auto simp: create_directory_fuel_cases(1,2) intro: dir_made_refl)
  next
    case stat: (Inl e0)
    obtain r0 s0 where mk: "fs_mkdir p s = (r0, s0)" by fastforce
    show ?thesis
    proof (cases r0)
      case (Inr u)
      with mk have "fs_mkdir p s = (Inr (), s0)" by simp
      with stat show ?thesis by (meson create_directory_fuel_cases(3) fs_mkdir_made)
    next
      case (Inl e)
      with mk have mk: "fs_mkdir p s = (Inl e, s)" by (auto dest: fs_mkdir_fail)
      show ?thesis
      proof (cases "e = ENOENT \<and> before_last_slash p \<noteq> None")
        case False
        then have "e \<noteq> ENOENT \<or> before_last_slash p = None" by blast
        from create_directory_fuel_cases(4) [OF stat mk this] show ?thesis
          by (auto intro: dir_made_refl)
      next
        case True
        then obtain q where q: "before_last_slash p = Some q" and mk: "fs_mkdir p s = (Inl ENOENT, s)"
          using mk by auto
        from q Suc.prems have "length q < n" by (auto dest: before_last_slash_length)
        from Suc.IH [OF this, of s] obtain r1 s1
          where par: "create_directory_fuel (Suc n) q s = Some (r1, s1)" and d1: "dir_made q s r1 s1"
          by blast
        show ?thesis
        proof (cases r1)
          case err: (Inl err)
          with par create_directory_fuel_cases(5) [OF stat mk q]
          have "create_directory_fuel (Suc (Suc n)) p s = Some (Inl err, s1)" by blast
          moreover have "dir_made p s (Inl err) s1" using d1 by (simp add: dir_made_def)
          ultimately show ?thesis by blast
        next
          case (Inr u)
          with d1 have "is_dir (strip_slashes q) s1" by (simp add: dir_made_def)
          from create_directory_parent_there [OF q this] obtain r s'
            where again: "create_directory_fuel (Suc n) p s1 = Some (r, s')" and d2: "dir_made p s1 r s'"
            by blast
          from par Inr create_directory_fuel_cases(6) [OF stat mk q]
          have "create_directory_fuel (Suc (Suc n)) p s = create_directory_fuel (Suc n) p s1" by simp
          with again dir_made_trans [OF d1 d2] show ?thesis by metis
        qed
      qed
    qed
  qed
qed simp

lemma create_directory_spec:
  obtains r s' where "create_directory p s = (r, s')" and "dir_made p s r s'"
proof -
  obtain r s' where "create_directory_fuel (Suc (Suc (length p))) p s = Some (r, s')" and "dir_made p s r s'"
    using create_directory_fuel_total [of p "Suc (length p)" s] by auto
  then show ?thesis using that by (simp add: create_directory_def del: create_directory_fuel.simps)
qed

section \<open>Looking up files\<close>

text \<open>Looking up files after the system calls.\<close>

definition file_at :: "string \<Rightarrow> 'a posix_scheme \<Rightarrow> byte list option" where
  "file_at p s = map_of (fs_files s) p"

lemma file_at_append:
  "file_at q (fs_append p bs s) = (if q = p then map_option (\<lambda>old. old @ bs) (file_at p s) else file_at q s)"
  by (auto simp: file_at_def fs_append_def update_conv' split: option.splits)

lemma file_at_answers [simp]: "file_at q (s\<lparr>fs_writes := os\<rparr>) = file_at q s"
  by (simp add: file_at_def)

lemma file_at_rename:
  "fs_rename old new s = (Inr (), s') \<Longrightarrow>
     file_at q s' = (if q = new then file_at old s else if q = old then None else file_at q s)"
  by (auto simp: file_at_def fs_rename_def update_conv' delete_conv' split: option.splits if_splits)

lemma fs_rename_Inr: "file_at old s \<noteq> None \<Longrightarrow> \<exists>s'. fs_rename old new s = (Inr (), s')"
  by (auto simp: file_at_def fs_rename_def)

lemma file_at_creat:
  "fs_creat p s = (Inr (), s') \<Longrightarrow>
     file_at q s' = (if q = p then Some (case file_at p s of None \<Rightarrow> [] | Some old \<Rightarrow> old) else file_at q s)"
  by (auto simp: file_at_def fs_creat_def update_conv' split: option.splits if_splits)

lemma same_dirs [simp]:
  "fs_dirs (fs_append p bs s) = fs_dirs s"
  "fs_rename old new s = (r, s') \<Longrightarrow> fs_dirs s' = fs_dirs s"
  "fs_creat p s = (r, s') \<Longrightarrow> fs_dirs s' = fs_dirs s"
  by (auto simp: fs_append_def fs_rename_def fs_creat_def split: option.splits if_splits)

lemma file_at_write_at:
  "file_at q (fs_write_at p off bs s) =
     (if q = p then map_option (\<lambda>old. if bs = [] then old else splice off bs old) (file_at p s) else file_at q s)"
  by (auto simp: file_at_def fs_write_at_def update_conv' split: option.splits)

text \<open>The writes left for later calls.\<close>

lemma fs_writes_calls [simp]:
  "fs_writes (fs_append p bs s) = fs_writes s" "fs_writes (fs_write_at p off bs s) = fs_writes s"
  by (simp_all add: fs_append_def fs_write_at_def split: option.splits)

lemma writes_calls:
  "fs_rename old new s = (r, s') \<Longrightarrow> fs_writes s' = fs_writes s"
  "fs_creat p s = (r', s') \<Longrightarrow> fs_writes s' = fs_writes s"
  by (auto simp: fs_rename_def fs_creat_def split: option.splits if_splits)

lemma write_vector_cases:
  assumes "file_at p s = Some old"
  obtains s' where "write_vector p iov s = (Inr (), s')" and "file_at p s' = Some (old @ concat iov)"
    and "\<And>q. q \<noteq> p \<Longrightarrow> file_at q s' = file_at q s" and "fs_dirs s' = fs_dirs s" and "writes_ok s \<Longrightarrow> writes_ok s'"
  | s' err n where "write_vector p iov s = (Inl (IOErr ''WriteVector writev() failed'' err), s')"
    and "Failed err \<in> set (fs_writes s)" and "\<not> writes_ok s" and "file_at p s' = Some (old @ take n (concat iov))"
    and "\<And>q. q \<noteq> p \<Longrightarrow> file_at q s' = file_at q s" and "fs_dirs s' = fs_dirs s"
proof -
  obtain r out os where run: "write_vector_loop (fs_writes s) iov [] = ((r, out), os)" by (metis prod.exhaust)
  then have w: "write_vector p iov s = (r, fs_append p out (s\<lparr>fs_writes := os\<rparr>))" by (simp add: write_vector_def)
  note loop = write_vector_loop_prefix [OF run]
  have dirs: "fs_dirs (fs_append p out (s\<lparr>fs_writes := os\<rparr>)) = fs_dirs s" by (simp add: fs_append_def split: option.splits)
  show ?thesis
  proof (cases r)
    case (Inl e)
    with loop obtain err n where "e = IOErr ''WriteVector writev() failed'' err" "Failed err \<in> set (fs_writes s)"
      "out = take n (concat iov)" by auto
    with w Inl assms dirs granted_not_failed [of "fs_writes s" err] that(2) [of err _ n] show ?thesis
      by (auto simp: file_at_append writes_ok_def)
  next
    case (Inr u)
    with loop w assms dirs suffix_granted [of os "fs_writes s"] that(1) show ?thesis
      by (auto simp: file_at_append writes_ok_def)
  qed
qed

lemma write_values_granted:
  assumes "writes_ok s"
  obtains os where "write_values enc p off vs s = (Inr (), fs_write_at p off (enc_all enc vs) (s\<lparr>fs_writes := os\<rparr>))"
    and "list_all granted os"
proof -
  obtain r out os where run: "write_values_loop (fs_writes s) (enc_all enc vs) [] = ((r, out), os)" by (metis prod.exhaust)
  note loop = write_values_loop_prefix [OF run]
  from assms have ok: "list_all granted (fs_writes s)" by (simp add: writes_ok_def)
  from loop granted_not_failed [OF ok] have "r = Inr ()" by (cases r) auto
  with loop suffix_granted [OF _ ok] run show ?thesis by (intro that [of os]) (simp_all add: write_values_def)
qed

lemma fs_creat_existing:
  "file_at p s \<noteq> None \<Longrightarrow> \<not> is_dir (strip_slashes p) s \<Longrightarrow> fs_creat p s = (Inr (), s)"
  by (auto simp: fs_creat_def file_at_def)

lemma file_at_unlink:
  "fs_unlink p s = (Inr (), s') \<Longrightarrow> file_at q s' = (if q = p then None else file_at q s)"
  by (auto simp: file_at_def fs_unlink_def delete_conv' split: option.splits)

text \<open>One entry for each name, which the system calls keep.\<close>

definition files_distinct :: "'a posix_scheme \<Rightarrow> bool" where
  "files_distinct s \<longleftrightarrow> distinct (map fst (fs_files s))"

named_theorems files_distinct

lemma files_distinct_calls [files_distinct]:
  "files_distinct s \<Longrightarrow> files_distinct (fs_append p bs s)"
  "write_vector p iov s = (q, s') \<Longrightarrow> files_distinct s \<Longrightarrow> files_distinct s'"
  "fs_rename old new s = (r, s') \<Longrightarrow> files_distinct s \<Longrightarrow> files_distinct s'"
  "fs_creat p s = (r, s') \<Longrightarrow> files_distinct s \<Longrightarrow> files_distinct s'"
  by (auto simp: files_distinct_def fs_append_def write_vector_def fs_rename_def fs_creat_def distinct_update distinct_delete
      split: option.splits if_splits prod.splits)

end
