(* ===== verification/FileNames.thy ===== *)
theory FileNames
  imports FileIO
begin

text \<open>
  \<open>vqro/db/datapoint_file.h\<close> and the naming of datapoint files: the three file classes with
  their constructors, \<open>GetPath\<close> and \<open>FromFilename\<close> (\<open>sparse_file\<close>, \<open>dense_file\<close>,
  \<open>constant_file\<close>).  A C string is the memory from its first character on: the name, its
  terminating NUL, and whatever the buffer holds behind it, so that pointer arithmetic past
  the NUL is visible.
\<close>

section \<open>Decimal numbers\<close>

definition digit_char :: "nat \<Rightarrow> char" where
  "digit_char d = char_of (48 + d)"

definition is_digit :: "char \<Rightarrow> bool" where
  "is_digit c \<longleftrightarrow> 48 \<le> (of_char c :: nat) \<and> (of_char c :: nat) \<le> 57"

definition is_space :: "char \<Rightarrow> bool" where
  "is_space c \<longleftrightarrow> (9 \<le> (of_char c :: nat) \<and> (of_char c :: nat) \<le> 13) \<or> (of_char c :: nat) = 32"

definition NUL :: char where "NUL = char_of (0 :: nat)"

text \<open>\<open>std::to_string\<close>.\<close>

fun string_of_nat :: "nat \<Rightarrow> string" where
  "string_of_nat n = (if n < 10 then [digit_char n] else string_of_nat (n div 10) @ [digit_char (n mod 10)])"

declare string_of_nat.simps [simp del]

definition to_string :: "int \<Rightarrow> string" where
  "to_string i = (if i < 0 then CHR ''-'' # string_of_nat (nat (- i)) else string_of_nat (nat i))"

definition digits_value :: "string \<Rightarrow> nat" where
  "digits_value ds = foldl (\<lambda>n c. 10 * n + (of_char c - 48)) 0 ds"

text \<open>
  \<open>strtoll(s, &endptr, 10)\<close>: leading space, a sign, digits, clamped to the range of
  \<open>long long\<close>; the second component is the memory from \<open>endptr\<close> on, which is \<open>s\<close> itself
  where there are no digits.
\<close>

definition strtoll :: "string \<Rightarrow> int \<times> string" where
  "strtoll s =
     (let s1 = dropWhile is_space s;
          neg = (case s1 of c # _ \<Rightarrow> c = CHR ''-'' | [] \<Rightarrow> False);
          s2 = (case s1 of c # r \<Rightarrow> if c = CHR ''-'' \<or> c = CHR ''+'' then r else s1 | [] \<Rightarrow> s1);
          ds = takeWhile is_digit s2;
          v = (if neg then - int (digits_value ds) else int (digits_value ds))
      in if ds = [] then (0, s)
         else (max INT64_MIN (min INT64_MAX v), dropWhile is_digit s2))"

text \<open>\<open>*p\<close> and the test \<open>endptr == filename\<close>, by the lengths of the remaining memory.\<close>

definition deref :: "string \<Rightarrow> char res" where
  "deref s = (case s of [] \<Rightarrow> Inl OutOfBounds | c # _ \<Rightarrow> Inr c)"

definition advance_ptr :: "nat \<Rightarrow> string \<Rightarrow> string res" where
  "advance_ptr n s = (if n \<le> length s then Inr (drop n s) else Inl OutOfBounds)"

definition same_ptr :: "string \<Rightarrow> string \<Rightarrow> bool" where
  "same_ptr p q \<longleftrightarrow> length p = length q"

text \<open>\<open>strncmp(a, b, n) == 0\<close>: equal up to \<open>n\<close> characters or a common NUL.\<close>

fun strncmp_eq :: "string \<Rightarrow> string \<Rightarrow> nat \<Rightarrow> bool" where
  "strncmp_eq a b 0 = True"
| "strncmp_eq (c # a) (d # b) (Suc n) = (c = d \<and> (c = NUL \<or> strncmp_eq a b n))"
| "strncmp_eq a b (Suc n) = False"

section \<open>The file classes\<close>

record datapoint_file =
  min_timestamp :: int
  max_timestamp :: int

record sparse_file = datapoint_file +
  sf_optimized :: bool

record dense_file = datapoint_file +
  de_duration :: int

record constant_file = datapoint_file +
  cf_duration :: int
  cf_count :: int
  cf_value :: double

definition SparseFile :: "int \<Rightarrow> int \<Rightarrow> bool \<Rightarrow> sparse_file" where
  "SparseFile mn mx opt = \<lparr>min_timestamp = mn, max_timestamp = mx, sf_optimized = opt\<rparr>"

definition ConstantFile :: "int \<Rightarrow> int \<Rightarrow> int \<Rightarrow> double \<Rightarrow> constant_file" where
  "ConstantFile start_time dur cnt val =
     \<lparr>min_timestamp = start_time, max_timestamp = wrap64 (start_time + cnt * dur),
      cf_duration = dur, cf_count = cnt, cf_value = val\<rparr>"

definition SPARSE_OPT_SUFFIX :: string where "SPARSE_OPT_SUFFIX = ''.opt''"

text \<open>\<open>sizeof\<close> of a \<open>const char*\<close>, not of the string.\<close>

definition SPARSE_OPT_SUFFIX_LEN :: nat where "SPARSE_OPT_SUFFIX_LEN = 8"

definition sparse_basename :: "sparse_file \<Rightarrow> string" where
  "sparse_basename f = to_string (min_timestamp f) @ ''-'' @ to_string (max_timestamp f) @
     (if sf_optimized f then SPARSE_OPT_SUFFIX else '''')"

definition dense_basename :: "dense_file \<Rightarrow> string" where
  "dense_basename f = to_string (min_timestamp f) @ ''@'' @ to_string (de_duration f)"

definition constant_basename :: "constant_file \<Rightarrow> string" where
  "constant_basename f = to_string (min_timestamp f) @ ''@'' @ to_string (cf_duration f) @
     ''x'' @ to_string (cf_count f)"

definition sparse_get_path :: "string \<Rightarrow> sparse_file \<Rightarrow> string" where
  "sparse_get_path dir f = dir @ ''/'' @ sparse_basename f"

definition dense_get_path :: "string \<Rightarrow> dense_file \<Rightarrow> string" where
  "dense_get_path dir f = dir @ ''/'' @ dense_basename f"

definition constant_get_path :: "string \<Rightarrow> constant_file \<Rightarrow> string" where
  "constant_get_path dir f = dir @ ''/'' @ constant_basename f"

text \<open>
  The \<open>DenseFile\<close> constructor asks for the size of the file, which must exist, and computes
  the end of its range from it (in unsigned 64-bit arithmetic).
\<close>

definition DenseFile :: "string \<Rightarrow> int \<Rightarrow> int \<Rightarrow> 'a posix_scheme \<Rightarrow> dense_file res" where
  "DenseFile dir start_time dur s =
     (let f = \<lparr>min_timestamp = start_time, max_timestamp = start_time, de_duration = dur\<rparr> in
      bindE (get_file_size (dense_get_path dir f) False s) (\<lambda>size.
        Inr (f\<lparr>max_timestamp := wrap64 (start_time + int (size div dense_datapoint_size) * dur)\<rparr>)))"

section \<open>Parsing file names\<close>

definition sparse_from_filename :: "string \<Rightarrow> sparse_file option res" where
  "sparse_from_filename filename =
     (case strtoll filename of (mn, endptr) \<Rightarrow>
      bindE (deref endptr) (\<lambda>c.
      if same_ptr endptr filename \<or> c \<noteq> CHR ''-'' then Inr None
      else let filename = tl endptr in
        case strtoll filename of (mx, endptr) \<Rightarrow>
        if same_ptr endptr filename then Inr None
        else
          let opt = strncmp_eq endptr (SPARSE_OPT_SUFFIX @ [NUL]) SPARSE_OPT_SUFFIX_LEN in
          bindE (if opt then advance_ptr SPARSE_OPT_SUFFIX_LEN endptr else Inr endptr) (\<lambda>endptr.
          bindE (deref endptr) (\<lambda>c.
          if c \<noteq> NUL then Inr None else Inr (Some (SparseFile mn mx opt))))))"

definition dense_from_filename ::
  "string \<Rightarrow> string \<Rightarrow> 'a posix_scheme \<Rightarrow> dense_file option res" where
  "dense_from_filename dir filename s =
     (case strtoll filename of (start_time, endptr) \<Rightarrow>
      bindE (deref endptr) (\<lambda>c.
      if same_ptr endptr filename \<or> c \<noteq> CHR ''@'' then Inr None
      else let filename = tl endptr in
        case strtoll filename of (duration, endptr) \<Rightarrow>
        bindE (deref endptr) (\<lambda>c.
        if same_ptr endptr filename \<or> c \<noteq> NUL then Inr None
        else bindE (DenseFile dir start_time duration s) (\<lambda>f. Inr (Some f)))))"

text \<open>
  \<open>strtod\<close> is a parameter: the value it parses and the memory from \<open>endptr\<close> on.
\<close>

definition constant_from_filename ::
  "(string \<Rightarrow> double \<times> string) \<Rightarrow> string \<Rightarrow> constant_file option res" where
  "constant_from_filename strtod filename =
     (case strtoll filename of (start_time, endptr) \<Rightarrow>
      bindE (deref endptr) (\<lambda>c.
      if same_ptr endptr filename \<or> c \<noteq> CHR ''@'' then Inr None
      else let filename = tl endptr in
        case strtoll filename of (duration, endptr) \<Rightarrow>
        bindE (deref endptr) (\<lambda>c.
        if same_ptr endptr filename \<or> c \<noteq> CHR ''x'' then Inr None
        else let filename = tl endptr in
          case strtoll filename of (count, endptr) \<Rightarrow>
          bindE (deref endptr) (\<lambda>c.
          if same_ptr endptr filename \<or> c \<noteq> CHR ''='' then Inr None
          else let filename = tl endptr in
            case strtod filename of (v, endptr) \<Rightarrow>
            bindE (deref endptr) (\<lambda>c.
            if same_ptr endptr filename \<or> c \<noteq> NUL then Inr None
            else if isnan v then Inr None
            else Inr (Some (ConstantFile start_time duration count v)))))))"

section \<open>Printing and scanning numbers\<close>

lemma of_char_digit [simp]: "d < 10 \<Longrightarrow> (of_char (digit_char d) :: nat) = 48 + d"
  by (simp add: digit_char_def)

lemma is_digit_digit [simp]: "d < 10 \<Longrightarrow> is_digit (digit_char d)"
  by (simp add: is_digit_def)

lemma string_of_nat_digits: "\<forall>c \<in> set (string_of_nat n). is_digit c"
proof (induction n rule: string_of_nat.induct)
  case (1 n)
  then show ?case by (subst string_of_nat.simps) auto
qed

lemma string_of_nat_nonempty [simp]: "string_of_nat n \<noteq> []"
  by (subst string_of_nat.simps) simp

lemma digits_value_snoc: "digits_value (ds @ [c]) = 10 * digits_value ds + (of_char c - 48)"
  by (simp add: digits_value_def)

lemma digits_value_string_of_nat [simp]: "digits_value (string_of_nat n) = n"
proof (induction n rule: string_of_nat.induct)
  case (1 n)
  show ?case
  proof (cases "n < 10")
    case True
    then show ?thesis by (subst string_of_nat.simps) (simp add: digits_value_def)
  next
    case False
    with 1 show ?thesis by (subst string_of_nat.simps) (simp add: digits_value_snoc)
  qed
qed

lemma digit_not_special:
  "is_digit c \<Longrightarrow> \<not> is_space c \<and> c \<noteq> CHR ''-'' \<and> c \<noteq> CHR ''+''"
  by (auto simp: is_digit_def is_space_def)

lemma scan_digits:
  assumes "\<forall>c \<in> set ds. is_digit c" and "\<not> is_digit x"
  shows "takeWhile is_digit (ds @ x # r) = ds" and "dropWhile is_digit (ds @ x # r) = x # r"
  using assms by (induction ds) auto

lemma strtoll_to_string:
  assumes "i64_ok i" and "\<not> is_digit x"
  shows "strtoll (to_string i @ x # r) = (i, x # r)"
proof -
  define n where "n = nat \<bar>i\<bar>"
  let ?ds = "string_of_nat n"
  obtain c cs where ds: "?ds = c # cs" by (cases "?ds") simp_all
  with string_of_nat_digits [of n] have c: "is_digit c" by simp
  note c' = digit_not_special [OF c]
  have scan: "takeWhile is_digit (c # cs @ x # r) = ?ds" "dropWhile is_digit (c # cs @ x # r) = x # r"
    using scan_digits [OF string_of_nat_digits assms(2), of n r] ds by simp_all
  have v: "digits_value ?ds = n" by simp
  have clamp: "max INT64_MIN (min INT64_MAX i) = i" using assms(1) by (simp add: i64_ok_def)
  have sp: "\<not> is_space (CHR ''-'')" by (simp add: is_space_def)
  show ?thesis
  proof (cases "i < 0")
    case True
    then have "to_string i = CHR ''-'' # c # cs" using ds by (simp add: to_string_def n_def)
    with True scan ds v clamp sp show ?thesis
      by (simp add: strtoll_def Let_def n_def del: takeWhile.simps dropWhile.simps) (simp add: strtoll_def Let_def)
  next
    case False
    then have "to_string i = c # cs" using ds by (simp add: to_string_def n_def)
    with False scan ds v clamp c' show ?thesis
      by (simp add: strtoll_def Let_def n_def)
  qed
qed

section \<open>Names scanned back\<close>

lemma not_digit_marks [simp]:
  "\<not> is_digit (CHR ''-'')" "\<not> is_digit (CHR ''@'')" "\<not> is_digit (CHR ''x'')" "\<not> is_digit (CHR ''.'')"
  "\<not> is_digit NUL"
  by (simp_all add: is_digit_def NUL_def)

lemma marks_distinct [simp]:
  "NUL \<noteq> CHR ''-''" "NUL \<noteq> CHR ''@''" "NUL \<noteq> CHR ''x''" "NUL \<noteq> CHR ''.''" "NUL \<noteq> CHR ''=''"
  by code_simp+

lemma to_string_nonempty [simp]: "to_string i \<noteq> []"
  by (simp add: to_string_def)

lemma not_same_ptr [simp]: "\<not> same_ptr r (to_string i @ r)"
  by (simp add: same_ptr_def)

lemma scan_number [simp]:
  "i64_ok i \<Longrightarrow> \<not> is_digit x \<Longrightarrow> strtoll (to_string i @ x # r) = (i, x # r)"
  by (rule strtoll_to_string)

lemma not_same_ptr_Cons [simp]: "\<not> same_ptr (x # r) (to_string i @ x # r)"
  by (rule not_same_ptr)

lemma deref_Cons [simp]: "deref (c # cs) = Inr c"
  by (simp add: deref_def)

lemma sparse_name_back:
  assumes "i64_ok (min_timestamp f)" and "i64_ok (max_timestamp f)" and "\<not> sf_optimized f"
  shows "sparse_from_filename (sparse_basename f @ NUL # tail) = Inr (Some f)"
  using assms by (simp add: sparse_from_filename_def sparse_basename_def SPARSE_OPT_SUFFIX_def
      SPARSE_OPT_SUFFIX_LEN_def SparseFile_def numeral_eq_Suc)

lemma strncmp_opt: "strncmp_eq (CHR ''.'' # CHR ''o'' # CHR ''p'' # CHR ''t'' # NUL # tail) (SPARSE_OPT_SUFFIX @ [NUL])
   SPARSE_OPT_SUFFIX_LEN"
  by (simp add: SPARSE_OPT_SUFFIX_def SPARSE_OPT_SUFFIX_LEN_def numeral_eq_Suc)

lemma sparse_opt_name_back:
  assumes "i64_ok (min_timestamp f)" and "i64_ok (max_timestamp f)" and "sf_optimized f"
  shows "sparse_from_filename (sparse_basename f @ NUL # tail) =
     (if length tail < 3 then Inl OutOfBounds
      else bindE (deref (drop 3 tail)) (\<lambda>c. Inr (if c = NUL then Some f else None)))"
proof -
  have "sparse_from_filename (sparse_basename f @ NUL # tail) =
     bindE (advance_ptr SPARSE_OPT_SUFFIX_LEN (SPARSE_OPT_SUFFIX @ NUL # tail)) (\<lambda>endptr.
       bindE (deref endptr) (\<lambda>c. if c \<noteq> NUL then Inr None
         else Inr (Some (SparseFile (min_timestamp f) (max_timestamp f) True))))"
    using assms strncmp_opt [of tail]
    by (simp add: sparse_from_filename_def sparse_basename_def SPARSE_OPT_SUFFIX_def)
  also have "\<dots> = (if length tail < 3 then Inl OutOfBounds
      else bindE (deref (drop 3 tail)) (\<lambda>c. Inr (if c = NUL then Some f else None)))"
    using assms by (auto simp: advance_ptr_def SPARSE_OPT_SUFFIX_def SPARSE_OPT_SUFFIX_LEN_def SparseFile_def
        intro!: arg_cong [where f = "bindE _"] split: if_splits)
  finally show ?thesis .
qed

text \<open>A sparse name is no dense and no constant name.\<close>

lemma sparse_name_not_dense:
  assumes "i64_ok (min_timestamp f)"
  shows "dense_from_filename dir (sparse_basename f @ NUL # tail) s = Inr None"
    and "constant_from_filename strtod (sparse_basename f @ NUL # tail) = Inr None"
  using assms by (simp_all add: dense_from_filename_def constant_from_filename_def sparse_basename_def)

lemma dense_name_back:
  assumes "i64_ok (min_timestamp f)" and "i64_ok (de_duration f)"
  shows "dense_from_filename dir (dense_basename f @ NUL # tail) s =
      bindE (DenseFile dir (min_timestamp f) (de_duration f) s) (\<lambda>g. Inr (Some g))"
    and "constant_from_filename strtod (dense_basename f @ NUL # tail) = Inr None"
    and "sparse_from_filename (dense_basename f @ NUL # tail) = Inr None"
  using assms by (simp_all add: dense_from_filename_def constant_from_filename_def sparse_from_filename_def
      dense_basename_def)

lemma constant_name_lost:
  assumes "i64_ok (min_timestamp f)" and "i64_ok (cf_duration f)" and "i64_ok (cf_count f)"
  shows "constant_from_filename strtod (constant_basename f @ NUL # tail) = Inr None"
    and "dense_from_filename dir (constant_basename f @ NUL # tail) s = Inr None"
    and "sparse_from_filename (constant_basename f @ NUL # tail) = Inr None"
  using assms by (simp_all add: dense_from_filename_def constant_from_filename_def sparse_from_filename_def
      constant_basename_def marks_distinct [symmetric])

end
