(* ===== verification/ReadOp.thy ===== *)
theory ReadOp
  imports Datapoint
begin

text \<open>
  \<open>vqro/db/read_op.h\<close>: the state of a read that fills a caller's buffer chunk by chunk.
  \<open>ro_buffer\<close> is the memory behind the pointer \<open>buffer\<close> (its length is the allocation's),
  \<open>ro_cursor\<close> is \<open>cursor - buffer\<close>.  A write at or past the end of the allocation, which
  C++ leaves undefined, is \<open>OutOfBounds\<close>.
\<close>

record read_op =
  ro_start_time :: int
  ro_next_time :: int
  ro_end_time :: int
  ro_datapoint_limit :: int
  ro_prefer_latest :: bool
  ro_buffer :: "datapoint list"
  ro_buffer_size :: nat
  ro_cursor :: nat

definition ReadOperation ::
  "int \<Rightarrow> int \<Rightarrow> int \<Rightarrow> bool \<Rightarrow> datapoint list \<Rightarrow> nat \<Rightarrow> read_op" where
  "ReadOperation start end limit latest buf siz =
     \<lparr>ro_start_time = start, ro_next_time = start, ro_end_time = end,
      ro_datapoint_limit = limit, ro_prefer_latest = latest,
      ro_buffer = buf, ro_buffer_size = siz, ro_cursor = 0\<rparr>"

definition ro_advance :: "read_op \<Rightarrow> read_op res" where
  "ro_advance r =
     (if ro_cursor r < length (ro_buffer r) then
        let p = ro_buffer r ! ro_cursor r in
        Inr (r\<lparr>ro_next_time := wrap64 (dp_timestamp p +
                 (if dp_duration p \<noteq> 0 then dp_duration p else 1)),
               ro_cursor := ro_cursor r + 1\<rparr>)
      else Inl OutOfBounds)"

definition ro_append :: "datapoint \<Rightarrow> read_op \<Rightarrow> read_op res" where
  "ro_append point r =
     (if ro_cursor r < length (ro_buffer r) then
        ro_advance (r\<lparr>ro_buffer := (ro_buffer r)[ro_cursor r := point]\<rparr>)
      else Inl OutOfBounds)"

definition ro_datapoints_in_buffer :: "read_op \<Rightarrow> nat" where
  "ro_datapoints_in_buffer r = ro_cursor r"

definition ro_space_left :: "read_op \<Rightarrow> nat" where
  "ro_space_left r = usub64 (ro_buffer_size r) (ro_datapoints_in_buffer r)"

definition ro_clear_buffer :: "read_op \<Rightarrow> read_op" where
  "ro_clear_buffer r = r\<lparr>ro_cursor := 0\<rparr>"

definition ro_complete :: "read_op \<Rightarrow> bool" where
  "ro_complete r \<longleftrightarrow> ro_end_time r \<le> ro_next_time r"

section \<open>What a read has gathered\<close>

text \<open>The abstraction: the datapoints between the start of the buffer and the cursor.\<close>

definition ro_contents :: "read_op \<Rightarrow> datapoint list" where
  "ro_contents r = take (ro_cursor r) (ro_buffer r)"

text \<open>The advertised size fits the allocation and the cursor lies within it.\<close>

definition ro_ok :: "read_op \<Rightarrow> bool" where
  "ro_ok r \<longleftrightarrow> ro_cursor r \<le> ro_buffer_size r \<and> ro_buffer_size r \<le> length (ro_buffer r)"

definition dp_next :: "datapoint \<Rightarrow> int" where
  "dp_next p = dp_timestamp p + (if dp_duration p \<noteq> 0 then dp_duration p else 1)"

text \<open>\<open>same_request r r'\<close>: only the progress of the read differs.\<close>

definition same_request :: "read_op \<Rightarrow> read_op \<Rightarrow> bool" where
  "same_request r r' \<longleftrightarrow> ro_start_time r' = ro_start_time r \<and> ro_end_time r' = ro_end_time r \<and>
     ro_datapoint_limit r' = ro_datapoint_limit r \<and> ro_prefer_latest r' = ro_prefer_latest r \<and>
     ro_buffer_size r' = ro_buffer_size r \<and> length (ro_buffer r') = length (ro_buffer r)"

lemma same_request_refl [simp, intro]: "same_request r r"
  by (simp add: same_request_def)

lemma same_request_trans: "same_request a b \<Longrightarrow> same_request b c \<Longrightarrow> same_request a c"
  by (simp add: same_request_def)

lemma same_request_next [simp]: "same_request r (r\<lparr>ro_next_time := t\<rparr>)"
  by (simp add: same_request_def)

lemma ro_ok_next [simp]: "ro_ok (r\<lparr>ro_next_time := t\<rparr>) = ro_ok r"
  by (simp add: ro_ok_def)

lemma ro_contents_next [simp]: "ro_contents (r\<lparr>ro_next_time := t\<rparr>) = ro_contents r"
  by (simp add: ro_contents_def)

lemma ro_space_left_next [simp]: "ro_space_left (r\<lparr>ro_next_time := t\<rparr>) = ro_space_left r"
  by (simp add: ro_space_left_def ro_datapoints_in_buffer_def)

lemma ro_space_left_ok [simp]: "ro_ok r \<Longrightarrow> ro_space_left r = ro_buffer_size r - ro_cursor r"
  by (simp add: ro_ok_def ro_space_left_def ro_datapoints_in_buffer_def)

lemma length_ro_contents: "ro_ok r \<Longrightarrow> length (ro_contents r) = ro_datapoints_in_buffer r"
  by (simp add: ro_ok_def ro_contents_def ro_datapoints_in_buffer_def)

lemma ro_append_Inl: "ro_append p r = Inl e \<longleftrightarrow> e = OutOfBounds \<and> length (ro_buffer r) \<le> ro_cursor r"
  by (auto simp: ro_append_def ro_advance_def Let_def)

lemma ro_append_Inr:
  "ro_append p r = Inr r' \<longleftrightarrow> ro_cursor r < length (ro_buffer r) \<and>
     r' = r\<lparr>ro_buffer := (ro_buffer r)[ro_cursor r := p], ro_next_time := wrap64 (dp_next p),
            ro_cursor := ro_cursor r + 1\<rparr>"
  by (auto simp: ro_append_def ro_advance_def Let_def dp_next_def)

lemma ro_append_contents:
  assumes "ro_append p r = Inr r'"
  shows "ro_contents r' = ro_contents r @ [p]" and "ro_next_time r' = wrap64 (dp_next p)"
    and "same_request r r'" and "ro_cursor r' = ro_cursor r + 1"
  using assms by (auto simp: ro_append_Inr ro_contents_def take_Suc_update same_request_def)

text \<open>With room left an append succeeds and stays within the advertised size.\<close>

lemma ro_append_room:
  assumes "ro_ok r" and "0 < ro_space_left r"
  obtains r' where "ro_append p r = Inr r'" and "ro_ok r'"
proof -
  from assms have "ro_cursor r < length (ro_buffer r)" and "ro_cursor r < ro_buffer_size r"
    by (auto simp: ro_ok_def)
  then obtain r' where r': "ro_append p r = Inr r'" by (simp add: ro_append_Inr)
  with assms \<open>ro_cursor r < ro_buffer_size r\<close> have "ro_ok r'"
    by (auto simp: ro_append_Inr ro_ok_def)
  with r' show ?thesis by (rule that)
qed

end
