(* ===== verification/Buffers.thy ===== *)
theory Buffers
  imports ReadOp
begin

text \<open>
  \<open>vqro/db/datapoint_buffer.h\<close>, \<open>raw_buffer.h\<close>, \<open>write_buffer.h/.cc\<close> and
  \<open>write_op.h\<close>: the two datapoint buffers behind one iterator interface, and the write
  operation that hands their contents to a file.

  A \<open>WriteBuffer\<close> keeps its datapoints in page-sized allocations; \<open>wb_points\<close> is the
  abstract sequence they hold.  The locale \<open>datapoint_buffer\<close> is the interface
  \<open>DatapointBuffer::Iterator\<close> offers; both classes and their dynamic dispatch provide it.
\<close>

section \<open>WriteBuffer\<close>

text \<open>
  \<open>wb_junk\<close> is what freshly allocated memory reads as; nothing depends on it.  \<open>wb_heap\<close> is what
  \<open>aligned_alloc\<close> answers to the next requests of this buffer: \<open>False\<close> is \<open>NULL\<close>, and what is
  asked after the last answer is granted.
\<close>

record write_buffer =
  wb_alloc_size :: nat
  wb_allocs :: "datapoint list list"
  wb_datapoints_per_alloc :: nat
  wb_num_datapoints :: nat
  wb_sorted :: bool
  wb_junk :: datapoint
  wb_heap :: "bool list"

definition WriteBuffer :: "nat \<Rightarrow> nat \<Rightarrow> datapoint \<Rightarrow> bool list \<Rightarrow> write_buffer" where
  "WriteBuffer pagesize write_buffer_pages_per_alloc junk heap =
     (let alloc_size = pagesize * write_buffer_pages_per_alloc in
     \<lparr>wb_alloc_size = alloc_size, wb_allocs = [],
      wb_datapoints_per_alloc = alloc_size div datapoint_size,
      wb_num_datapoints = 0, wb_sorted = True, wb_junk = junk, wb_heap = heap\<rparr>)"

definition wb_size :: "write_buffer \<Rightarrow> nat" where "wb_size b = wb_num_datapoints b"
definition wb_is_empty :: "write_buffer \<Rightarrow> bool" where "wb_is_empty b \<longleftrightarrow> wb_num_datapoints b = 0"
definition wb_is_sorted :: "write_buffer \<Rightarrow> bool" where "wb_is_sorted b = wb_sorted b"

text \<open>\<open>WriteIterImpl::ValueAt\<close>: allocation \<open>i / datapoints_per_alloc\<close>, offset the remainder.\<close>

definition wb_value_at :: "write_buffer \<Rightarrow> nat \<Rightarrow> datapoint res" where
  "wb_value_at b i =
     (let n = wb_datapoints_per_alloc b in
      if n = 0 then Inl DivTrap
      else if i div n < length (wb_allocs b) \<and> i mod n < length (wb_allocs b ! (i div n))
      then Inr (wb_allocs b ! (i div n) ! (i mod n)) else Inl OutOfBounds)"

definition wb_aligned_alloc :: "write_buffer \<Rightarrow> bool \<times> write_buffer" where
  "wb_aligned_alloc b = (case wb_heap b of [] \<Rightarrow> (True, b) | ok # heap \<Rightarrow> (ok, b\<lparr>wb_heap := heap\<rparr>))"

text \<open>\<open>GetNextDatapoint\<close>: the slot (allocation, offset) of the next datapoint.\<close>

definition wb_get_next_datapoint :: "(nat \<times> nat, write_buffer) prog" where
  "wb_get_next_datapoint b =
     (let n = wb_datapoints_per_alloc b in
      if n = 0 then (Inl DivTrap, b)
      else
        let alloc_index = wb_num_datapoints b div n;
            alloc_offset = wb_num_datapoints b mod n
        in if alloc_index = length (wb_allocs b)
           then (case wb_aligned_alloc b of
               (False, b1) \<Rightarrow> (Inl BadAlloc, b1)
             | (True, b1) \<Rightarrow> (Inr (alloc_index, alloc_offset), b1\<lparr>wb_allocs := wb_allocs b1 @ [replicate n (wb_junk b1)]\<rparr>))
           else if alloc_index < length (wb_allocs b)
           then (Inr (alloc_index, alloc_offset), b) else (Inl OutOfBounds, b))"

text \<open>
  \<open>Append\<close>'s loop; \<open>previous\<close> is the timestamp behind the pointer of that name.  What has been
  stored before an exception stays.
\<close>

primrec wb_append_loop ::
  "datapoint list \<Rightarrow> int option \<Rightarrow> (unit, write_buffer) prog" where
  "wb_append_loop [] previous b = (Inr (), b)"
| "wb_append_loop (p # ps) previous b =
     (if isnan (dp_value p) then wb_append_loop ps previous b
      else (case wb_get_next_datapoint b of
          (Inl e, b1) \<Rightarrow> (Inl e, b1)
        | (Inr (ai, ao), b1) \<Rightarrow>
            let b2 = b1\<lparr>wb_allocs := (wb_allocs b1)[ai := (wb_allocs b1 ! ai)[ao := p]],
                        wb_num_datapoints := wb_num_datapoints b1 + 1\<rparr>;
                b3 = (if wb_sorted b2 \<and> (case previous of None \<Rightarrow> False | Some t \<Rightarrow> dp_timestamp p < t)
                      then b2\<lparr>wb_sorted := False\<rparr> else b2)
            in wb_append_loop ps (Some (dp_timestamp p)) b3))"

definition wb_append :: "datapoint list \<Rightarrow> (unit, write_buffer) prog" where
  "wb_append op b = wb_append_loop op None b"

definition wb_clear :: "write_buffer \<Rightarrow> write_buffer" where
  "wb_clear b = b\<lparr>wb_allocs := [], wb_num_datapoints := 0, wb_sorted := True\<rparr>"

text \<open>The datapoints in iteration order, from \<open>begin()\<close> to \<open>end()\<close>.\<close>

definition wb_points :: "write_buffer \<Rightarrow> datapoint list" where
  "wb_points b = take (wb_num_datapoints b) (concat (wb_allocs b))"

text \<open>\<open>std::stable_sort(begin(), end())\<close>, permuting the slots in place.\<close>

definition wb_sort :: "write_buffer \<Rightarrow> write_buffer" where
  "wb_sort b =
     b\<lparr>wb_allocs := dec_all (wb_datapoints_per_alloc b) (\<lambda>xs. xs) (length (wb_allocs b))
         (sort_key dp_timestamp (wb_points b) @ drop (wb_num_datapoints b) (concat (wb_allocs b))),
       wb_sorted := True\<rparr>"

section \<open>I/O vectors\<close>

text \<open>An \<open>iovec\<close> points at (allocation, offset) and counts bytes.\<close>

record iovec =
  iov_base :: "nat \<times> nat"
  iov_len :: nat

text \<open>
  The array \<open>new Iovec[iov_count]\<close> starts uninitialised (\<open>None\<close>); the function returns it
  with \<open>writable_datapoints\<close>.
\<close>

type_synonym iov_array = "iovec option list"

function wb_iov_loop ::
  "write_buffer \<Rightarrow> nat \<Rightarrow> nat \<Rightarrow> nat \<Rightarrow> iov_array \<Rightarrow> (iov_array \<times> nat) res" where
  "wb_iov_loop b end_pos i max_writable iov =
     (let n = wb_datapoints_per_alloc b in
      if i < end_pos \<and> 0 < max_writable then
        if n = 0 then Inl DivTrap
        else
          let alloc_index = i div n; alloc_offset = i mod n;
              alloc_usable = min (end_pos - i) (min (n - alloc_offset) max_writable)
          in if alloc_index < length iov \<and> alloc_index < length (wb_allocs b)
             then wb_iov_loop b end_pos (i + alloc_usable) (max_writable - alloc_usable)
                    (iov[alloc_index := Some \<lparr>iov_base = (alloc_index, alloc_offset),
                           iov_len = alloc_usable * datapoint_size\<rparr>])
             else Inl OutOfBounds
      else Inr (iov, i))"
  by pat_completeness auto
termination
proof (relation "measure (\<lambda>(b, e, i, m, iov). e - i)", goal_cases)
  case (2 b e i m iov n ai ao u)
  then have "ao < n" by simp
  with 2 have "0 < u" by simp
  moreover from 2 have "i < e" by simp
  ultimately have "e - (i + u) < e - i" by arith
  then show ?case by simp
qed simp

declare wb_iov_loop.simps [simp del]

text \<open>
  \<open>WriteIterImpl::GetIOVector\<close>.  \<open>std::upper_bound\<close> on the sorted buffer finds the end of
  the datapoints not exceeding \<open>max_writable_timestamp\<close>.  The counts are narrowed to
  \<open>int\<close> as in the code; an array of negative length is a \<open>bad_alloc\<close>.
\<close>

definition wb_get_iovector ::
  "nat \<Rightarrow> nat \<Rightarrow> int \<Rightarrow> write_buffer \<Rightarrow> (iov_array \<times> nat) res \<times> write_buffer" where
  "wb_get_iovector pos max_writable_datapoints max_writable_timestamp b =
     (if wb_num_datapoints b = 0 then (Inr ([], 0), b)
      else
        let b1 = (if \<not> wb_is_sorted b then wb_sort b else b);
            n = wb_datapoints_per_alloc b1;
            end_pos = length (takeWhile (\<lambda>p. dp_timestamp p \<le> max_writable_timestamp) (wb_points b1))
        in if end_pos \<le> pos then (Inr ([], 0), b1)
           else if n = 0 then (Inl DivTrap, b1)
           else
             let alloc_index = wrap32 (int (pos div n));
                 last_alloc_index = wrap32 (int ((end_pos - 1) div n));
                 max_iovecs = wrap32 (wrap32 (int (max_writable_datapoints div n)) +
                   (if max_writable_datapoints mod n \<noteq> 0 then 1 else 0));
                 iov_count = min max_iovecs (wrap32 (last_alloc_index - alloc_index + 1))
             in if iov_count < 0 then (Inl BadAlloc, b1)
                else (bindE (wb_iov_loop b1 end_pos pos max_writable_datapoints
                              (replicate (nat iov_count) None))
                        (\<lambda>(iov, i). Inr (iov, i - pos)), b1))"

text \<open>
  The memory an \<open>iovec\<close> names: its bytes may not run past the allocation it points into.
  An uninitialised entry is a wild pointer.
\<close>

definition wb_iov_bytes :: "write_buffer \<Rightarrow> iovec option \<Rightarrow> byte list res" where
  "wb_iov_bytes b v = (case v of
       None \<Rightarrow> Inl OutOfBounds
     | Some v \<Rightarrow> (case iov_base v of (ai, ao) \<Rightarrow>
         if ai < length (wb_allocs b) \<and> ao * datapoint_size + iov_len v \<le>
              length (enc_all dp_encode (wb_allocs b ! ai))
         then Inr (take (iov_len v) (drop (ao * datapoint_size) (enc_all dp_encode (wb_allocs b ! ai))))
         else Inl OutOfBounds))"

section \<open>RawBuffer\<close>

text \<open>\<open>rb_mem\<close> is the memory from the pointer \<open>buf\<close> to the end of its allocation.\<close>

record raw_buffer =
  rb_mem :: "datapoint list"
  rb_len :: nat

definition RawBuffer :: "datapoint list \<Rightarrow> nat \<Rightarrow> raw_buffer" where
  "RawBuffer b l = \<lparr>rb_mem = b, rb_len = l\<rparr>"

definition raw_size :: "raw_buffer \<Rightarrow> nat" where "raw_size b = rb_len b"

definition raw_value_at :: "raw_buffer \<Rightarrow> nat \<Rightarrow> datapoint res" where
  "raw_value_at b i = (if i < length (rb_mem b) then Inr (rb_mem b ! i) else Inl OutOfBounds)"

primrec raw_shrink :: "datapoint list \<Rightarrow> nat \<Rightarrow> int \<Rightarrow> nat \<Rightarrow> nat" where
  "raw_shrink buf pos max_ts 0 = 0"
| "raw_shrink buf pos max_ts (Suc w) =
     (if max_ts < dp_timestamp (buf ! (pos + Suc w - 1)) then raw_shrink buf pos max_ts w else Suc w)"

definition raw_get_iovector :: "nat \<Rightarrow> nat \<Rightarrow> int \<Rightarrow> raw_buffer \<Rightarrow> (iov_array \<times> nat)" where
  "raw_get_iovector pos max_writable_datapoints max_writable_timestamp b =
     (let w = min (if pos < rb_len b then rb_len b - pos else 0) max_writable_datapoints;
          writable = raw_shrink (rb_mem b) pos max_writable_timestamp w
      in if writable = 0 then ([], 0)
         else ([Some \<lparr>iov_base = (0, pos), iov_len = writable\<rparr>], writable))"

definition raw_iov_bytes :: "raw_buffer \<Rightarrow> iovec option \<Rightarrow> byte list res" where
  "raw_iov_bytes b v = (case v of
       None \<Rightarrow> Inl OutOfBounds
     | Some v \<Rightarrow> (case iov_base v of (_, ao) \<Rightarrow>
         if ao * datapoint_size + iov_len v \<le> length (enc_all dp_encode (rb_mem b))
         then Inr (take (iov_len v) (drop (ao * datapoint_size) (enc_all dp_encode (rb_mem b))))
         else Inl OutOfBounds))"

section \<open>Iterators and write operations\<close>

text \<open>
  \<open>operator++()\<close> copies the iterator, advances it and returns the copy; \<open>operator++(int)\<close>
  advances the iterator and returns it.  The pairs are (position returned, position left
  behind).
\<close>

definition iter_pre_increment :: "nat \<Rightarrow> nat \<times> nat" where
  "iter_pre_increment pos = (pos, pos + 1)"

definition iter_post_increment :: "nat \<Rightarrow> nat \<times> nat" where
  "iter_post_increment pos = (pos + 1, pos + 1)"

datatype dbuffer = RawBuf raw_buffer | WBuf write_buffer

definition db_size :: "dbuffer \<Rightarrow> nat" where
  "db_size d = (case d of RawBuf r \<Rightarrow> raw_size r | WBuf b \<Rightarrow> wb_size b)"

definition db_value_at :: "dbuffer \<Rightarrow> nat \<Rightarrow> datapoint res" where
  "db_value_at d i = (case d of RawBuf r \<Rightarrow> raw_value_at r i | WBuf b \<Rightarrow> wb_value_at b i)"

definition db_get_iovector :: "nat \<Rightarrow> nat \<Rightarrow> int \<Rightarrow> dbuffer \<Rightarrow> (iov_array \<times> nat) res \<times> dbuffer" where
  "db_get_iovector pos max_pts max_ts d = (case d of
       RawBuf r \<Rightarrow> (Inr (raw_get_iovector pos max_pts max_ts r), d)
     | WBuf b \<Rightarrow> (case wb_get_iovector pos max_pts max_ts b of (r, b') \<Rightarrow> (r, WBuf b')))"

definition db_iov_bytes :: "dbuffer \<Rightarrow> iovec option \<Rightarrow> byte list res" where
  "db_iov_bytes d v = (case d of RawBuf r \<Rightarrow> raw_iov_bytes r v | WBuf b \<Rightarrow> wb_iov_bytes b v)"

record write_op =
  wo_buffer :: dbuffer
  wo_cursor :: nat
  wo_max_writable_datapoints :: nat
  wo_max_writable_timestamp :: int

definition WriteOperation :: "dbuffer \<Rightarrow> write_op" where
  "WriteOperation buf = \<lparr>wo_buffer = buf, wo_cursor = 0,
     wo_max_writable_datapoints = SIZE_MAX, wo_max_writable_timestamp = INT64_MAX\<rparr>"

definition wo_complete :: "write_op \<Rightarrow> bool" where
  "wo_complete w \<longleftrightarrow> wo_cursor w = db_size (wo_buffer w)"

text \<open>
  \<open>WritableDatapoints\<close>: the first argument is the distance from the iterator to
  \<open>end()\<close>.  A cursor beyond the end would run over foreign memory.
\<close>

primrec writable_loop ::
  "nat \<Rightarrow> (nat \<Rightarrow> datapoint res) \<Rightarrow> int \<Rightarrow> nat \<Rightarrow> nat \<Rightarrow> nat \<Rightarrow> nat res" where
  "writable_loop 0 value_at max_ts max_pts it writable = Inr writable"
| "writable_loop (Suc d) value_at max_ts max_pts it writable =
     bindE (value_at it) (\<lambda>p.
       if dp_timestamp p < max_ts \<and> writable < max_pts
       then writable_loop d value_at max_ts max_pts (snd (iter_post_increment it)) (writable + 1)
       else Inr writable)"

definition writable_datapoints :: "write_op \<Rightarrow> nat res" where
  "writable_datapoints w =
     (if wo_cursor w \<le> db_size (wo_buffer w)
      then writable_loop (db_size (wo_buffer w) - wo_cursor w) (db_value_at (wo_buffer w))
             (wo_max_writable_timestamp w) (wo_max_writable_datapoints w) (wo_cursor w) 0
      else Inl OutOfBounds)"

definition wo_get_iovector :: "write_op \<Rightarrow> (iov_array \<times> nat) res \<times> dbuffer" where
  "wo_get_iovector w = db_get_iovector (wo_cursor w) (wo_max_writable_datapoints w)
     (wo_max_writable_timestamp w) (wo_buffer w)"

section \<open>Facts about the allocations\<close>

lemma concat_update_uniform:
  assumes "\<forall>xs \<in> set xss. length xs = n" and "i < n * length xss"
  shows "concat (xss[i div n := (xss ! (i div n))[i mod n := x]]) = (concat xss)[i := x]"
  using assms
proof (induction xss arbitrary: i)
  case (Cons xs xss)
  have n: "length xs = n" "0 < n" using Cons.prems by (cases n; simp)+
  show ?case
  proof (cases "i < n")
    case True
    with n show ?thesis by (simp add: list_update_append)
  next
    case False
    then have "i - n < n * length xss" using Cons.prems by simp
    then have "concat (xss[(i - n) div n := (xss ! ((i - n) div n))[(i - n) mod n := x]])
        = (concat xss)[i - n := x]" using Cons by simp
    with False n show ?thesis by (simp add: list_update_append le_div_geq le_mod_geq)
  qed
qed simp

lemma concat_dec_all_id: "length xs = n * k \<Longrightarrow> concat (dec_all n (\<lambda>ys. ys) k xs) = xs"
  by (induction k arbitrary: xs) auto

lemma dec_all_id_lengths:
  "n * k \<le> length xs \<Longrightarrow> \<forall>ys \<in> set (dec_all n (\<lambda>ys. ys) k xs). length ys = n"
proof (induction k arbitrary: xs)
  case (Suc k)
  then have "n * k \<le> length (drop n xs)" and "length (take n xs) = n" by simp_all
  with Suc.IH [of "drop n xs"] show ?case by (simp only: dec_all.simps list.set ball_simps) simp
qed simp

text \<open>
  The buffer is well formed: the allocations have their full size and there are exactly as
  many of them as the datapoints need.
\<close>

definition wb_ok :: "write_buffer \<Rightarrow> bool" where
  "wb_ok b \<longleftrightarrow> 0 < wb_datapoints_per_alloc b \<and>
     (\<forall>a \<in> set (wb_allocs b). length a = wb_datapoints_per_alloc b) \<and>
     wb_num_datapoints b \<le> wb_datapoints_per_alloc b * length (wb_allocs b) \<and>
     wb_datapoints_per_alloc b * length (wb_allocs b) < wb_num_datapoints b + wb_datapoints_per_alloc b"

lemma wb_ok_new: "24 \<le> pagesize * pages \<Longrightarrow> wb_ok (WriteBuffer pagesize pages junk heap)"
  by (simp add: wb_ok_def WriteBuffer_def Let_def datapoint_size_def div_greater_zero_iff)

lemma wb_points_new [simp]: "wb_points (WriteBuffer pagesize pages junk heap) = []"
  by (simp add: wb_points_def WriteBuffer_def Let_def)

lemma wb_ok_clear: "wb_ok b \<Longrightarrow> wb_ok (wb_clear b)"
  by (simp add: wb_ok_def wb_clear_def)

lemma wb_points_clear [simp]: "wb_points (wb_clear b) = []"
  by (simp add: wb_points_def wb_clear_def)

lemma length_wb_concat:
  "wb_ok b \<Longrightarrow> length (concat (wb_allocs b)) = wb_datapoints_per_alloc b * length (wb_allocs b)"
  by (rule length_concat_uniform) (simp add: wb_ok_def)

lemma length_wb_points [simp]: "wb_ok b \<Longrightarrow> length (wb_points b) = wb_num_datapoints b"
  by (simp add: wb_points_def length_wb_concat) (simp add: wb_ok_def)

lemma wb_value_at_points:
  assumes "wb_ok b" and "i < wb_size b"
  shows "wb_value_at b i = Inr (wb_points b ! i)"
proof -
  let ?n = "wb_datapoints_per_alloc b"
  from assms have i: "i < ?n * length (wb_allocs b)" and n: "0 < ?n"
    and u: "\<forall>a \<in> set (wb_allocs b). length a = ?n"
    by (auto simp: wb_ok_def wb_size_def)
  then have d: "i div ?n < length (wb_allocs b)" by (simp add: less_mult_imp_div_less mult.commute)
  with u n have "i mod ?n < length (wb_allocs b ! (i div ?n))" by simp
  with d n nth_concat_uniform [OF u i] assms(2) show ?thesis
    by (simp add: wb_value_at_def Let_def wb_points_def wb_size_def)
qed

text \<open>One datapoint stored: the abstract sequence grows by it.\<close>

definition wb_put :: "datapoint \<Rightarrow> write_buffer \<Rightarrow> bool \<Rightarrow> write_buffer \<Rightarrow> bool" where
  "wb_put p b flag b' \<longleftrightarrow> wb_ok b' \<and> wb_points b' = wb_points b @ [p] \<and> wb_sorted b' = flag \<and>
     wb_datapoints_per_alloc b' = wb_datapoints_per_alloc b \<and> set (wb_heap b') \<subseteq> set (wb_heap b)"

text \<open>Refused: nothing changes but that \<open>aligned_alloc\<close> has been asked.\<close>

definition wb_refused :: "write_buffer \<Rightarrow> write_buffer \<Rightarrow> bool" where
  "wb_refused b b' \<longleftrightarrow> wb_ok b' \<and> wb_points b' = wb_points b \<and> wb_sorted b' = wb_sorted b \<and>
     wb_datapoints_per_alloc b' = wb_datapoints_per_alloc b \<and> set (wb_heap b') \<subseteq> set (wb_heap b) \<and>
     False \<in> set (wb_heap b) \<and> wb_datapoints_per_alloc b dvd length (wb_points b)"

lemma wb_get_next_slot:
  assumes "wb_ok b"
  obtains b1 where "wb_get_next_datapoint b = (Inl BadAlloc, b1)" and "wb_refused b b1"
  | ai ao b1 where "wb_get_next_datapoint b = (Inr (ai, ao), b1)"
    and "ai = wb_num_datapoints b div wb_datapoints_per_alloc b"
    and "ao = wb_num_datapoints b mod wb_datapoints_per_alloc b"
    and "\<forall>a \<in> set (wb_allocs b1). length a = wb_datapoints_per_alloc b"
    and "wb_num_datapoints b < wb_datapoints_per_alloc b * length (wb_allocs b1)"
    and "wb_datapoints_per_alloc b * length (wb_allocs b1) \<le> wb_num_datapoints b + wb_datapoints_per_alloc b"
    and "take (wb_num_datapoints b) (concat (wb_allocs b1)) = wb_points b"
    and "wb_num_datapoints b1 = wb_num_datapoints b" and "wb_sorted b1 = wb_sorted b"
    and "wb_datapoints_per_alloc b1 = wb_datapoints_per_alloc b" and "set (wb_heap b1) \<subseteq> set (wb_heap b)"
proof -
  let ?n = "wb_datapoints_per_alloc b" let ?m = "wb_num_datapoints b"
  let ?l = "length (wb_allocs b)"
  from assms have n: "0 < ?n" and u: "\<forall>a \<in> set (wb_allocs b). length a = ?n"
    and le: "?m \<le> ?n * ?l" and lt: "?n * ?l < ?m + ?n" by (auto simp: wb_ok_def)
  show ?thesis
  proof (cases "?m = ?n * ?l")
    case True
    then have d: "?m div ?n = ?l" "?n dvd ?m" using n by simp_all
    have pts: "take ?m (concat (wb_allocs b @ [replicate ?n (wb_junk b)])) = wb_points b"
      using length_wb_concat [OF assms] True by (simp add: wb_points_def)
    obtain ok heap where ask: "wb_aligned_alloc b = (ok, b\<lparr>wb_heap := heap\<rparr>)" "set heap \<subseteq> set (wb_heap b)"
      "\<not> ok \<Longrightarrow> False \<in> set (wb_heap b)"
      by (cases "wb_heap b") (auto simp: wb_aligned_alloc_def)
    show ?thesis
    proof (cases ok)
      case False
      have "wb_refused b (b\<lparr>wb_heap := heap\<rparr>)"
        using assms ask(2,3) False d(2) by (simp add: wb_refused_def wb_ok_def) (simp add: wb_points_def length_concat_uniform [OF u] le)
      then show ?thesis using False n d ask(1) by (intro that(1) [of "b\<lparr>wb_heap := heap\<rparr>"])
        (simp_all add: wb_get_next_datapoint_def Let_def)
    next
      case ok: True
      show ?thesis
        by (intro that(2) [of "?m div ?n" "?m mod ?n" "b\<lparr>wb_heap := heap, wb_allocs := wb_allocs b @ [replicate ?n (wb_junk b)]\<rparr>"])
          (use n u True d ask ok pts in \<open>simp_all add: wb_get_next_datapoint_def Let_def\<close>)
    qed
  next
    case False
    with le have m: "?m < ?n * ?l" by simp
    then have "?m div ?n < ?l" by (simp add: less_mult_imp_div_less mult.commute)
    with n u m lt show ?thesis
      by (intro that(2) [of "?m div ?n" "?m mod ?n" b])
         (simp_all add: wb_get_next_datapoint_def Let_def wb_points_def)
  qed
qed

lemma wb_append_loop_step:
  assumes "wb_ok b" and "\<not> isnan (dp_value p)"
  obtains b' where "wb_append_loop (p # ps) previous b = (Inl BadAlloc, b')" and "wb_refused b b'"
  | b' where "wb_append_loop (p # ps) previous b = wb_append_loop ps (Some (dp_timestamp p)) b'"
    and "wb_put p b (wb_sorted b \<and> (case previous of None \<Rightarrow> True | Some t \<Rightarrow> t \<le> dp_timestamp p)) b'"
proof (cases rule: wb_get_next_slot [OF assms(1)])
  case (1 b1)
  with assms(2) show ?thesis by (intro that(1) [of b1]) simp_all
next
  case (2 ai ao b1)
  let ?n = "wb_datapoints_per_alloc b" let ?m = "wb_num_datapoints b"
  have get: "wb_get_next_datapoint b = (Inr (?m div ?n, ?m mod ?n), b1)" using 2(1-3) by simp
  note u = 2(4) and lt = 2(5) and le = 2(6) and pts = 2(7) and same = 2(8-10)
  let ?b2 = "b1\<lparr>wb_allocs := (wb_allocs b1)[?m div ?n := (wb_allocs b1 ! (?m div ?n))[?m mod ?n := p]],
    wb_num_datapoints := ?m + 1\<rparr>"
  let ?late = "case previous of None \<Rightarrow> False | Some t \<Rightarrow> dp_timestamp p < t"
  let ?b3 = "if wb_sorted ?b2 \<and> ?late then ?b2\<lparr>wb_sorted := False\<rparr> else ?b2"
  have "wb_append_loop (p # ps) previous b = wb_append_loop ps (Some (dp_timestamp p)) ?b3"
    using assms(2) by (simp add: get same Let_def)
  moreover have "wb_put p b (wb_sorted b \<and> (case previous of None \<Rightarrow> True | Some t \<Rightarrow> t \<le> dp_timestamp p)) ?b3"
  proof -
    have idx: "?m div ?n < length (wb_allocs b1)"
      using lt by (simp add: less_mult_imp_div_less mult.commute)
    have len: "\<forall>a \<in> set (wb_allocs ?b2). length a = ?n"
      using u idx by (auto dest!: set_update_subset_insert [THEN subsetD])
    have "length (concat (wb_allocs b1)) = ?n * length (wb_allocs b1)"
      using u by (rule length_concat_uniform)
    then have "take (?m + 1) (concat (wb_allocs ?b2)) = wb_points b @ [p]"
      using lt pts by (simp add: concat_update_uniform [OF u lt] take_Suc_update)
    with len lt le assms(1) same 2(11) show ?thesis
      by (auto simp: wb_put_def wb_ok_def wb_points_def split: option.splits)
  qed
  ultimately show ?thesis by (rule that(2))
qed

text \<open>\<open>Append\<close> keeps the order of arrival, drops NaNs and only judges order within the call.\<close>

definition live_points :: "datapoint list \<Rightarrow> datapoint list" where
  "live_points ps = filter (\<lambda>p. \<not> isnan (dp_value p)) ps"

text \<open>
  The first \<open>n\<close> datapoints that are not NaN have been stored: all of them, or as many as there
  was room for when \<open>aligned_alloc\<close> refused.
\<close>

definition appended ::
  "datapoint list \<Rightarrow> write_buffer \<Rightarrow> unit res \<Rightarrow> nat \<Rightarrow> write_buffer \<Rightarrow> bool" where
  "appended ps b r n b' \<longleftrightarrow> wb_ok b' \<and> wb_points b' = wb_points b @ take n (live_points ps) \<and>
     wb_datapoints_per_alloc b' = wb_datapoints_per_alloc b \<and> set (wb_heap b') \<subseteq> set (wb_heap b) \<and>
     (r = Inr () \<and> n = length (live_points ps) \<or>
      r = Inl BadAlloc \<and> n < length (live_points ps) \<and> False \<in> set (wb_heap b) \<and>
      wb_datapoints_per_alloc b dvd length (wb_points b'))"

lemma wb_append_loop_spec:
  "wb_ok b \<Longrightarrow> \<exists>r n b'. wb_append_loop ps previous b = (r, b') \<and> appended ps b r n b' \<and>
     (wb_sorted b' \<longleftrightarrow> wb_sorted b \<and>
        sorted ((case previous of None \<Rightarrow> [] | Some t \<Rightarrow> [t]) @ map dp_timestamp (take n (live_points ps))))"
proof (induction ps arbitrary: previous b)
  case Nil
  then show ?case by (simp add: live_points_def appended_def split: option.splits)
next
  case (Cons p ps)
  show ?case
  proof (cases "isnan (dp_value p)")
    case True
    then have "live_points (p # ps) = live_points ps" by (simp add: live_points_def)
    with True Cons show ?thesis by (simp add: appended_def)
  next
    case False
    have live: "live_points (p # ps) = p # live_points ps" using False by (simp add: live_points_def)
    show ?thesis
    proof (cases rule: wb_append_loop_step [OF Cons.prems False, of ps previous])
      case (1 b')
      with live show ?thesis
        by (intro exI [of _ "Inl BadAlloc"] exI [of _ 0] exI [of _ b'])
          (auto simp: wb_refused_def appended_def split: option.splits)
    next
      case (2 b1)
      let ?ok = "case previous of None \<Rightarrow> True | Some t \<Rightarrow> t \<le> dp_timestamp p"
      from 2(2) have ok1: "wb_ok b1" and pts: "wb_points b1 = wb_points b @ [p]"
        and fl: "wb_sorted b1 \<longleftrightarrow> wb_sorted b \<and> ?ok"
        and n: "wb_datapoints_per_alloc b1 = wb_datapoints_per_alloc b" "set (wb_heap b1) \<subseteq> set (wb_heap b)"
        by (simp_all add: wb_put_def)
      from Cons.IH [OF ok1, of "Some (dp_timestamp p)"] obtain r k b' where
        b': "wb_append_loop ps (Some (dp_timestamp p)) b1 = (r, b')" "appended ps b1 r k b'"
        and fl': "wb_sorted b' \<longleftrightarrow> wb_sorted b1 \<and>
          sorted ([dp_timestamp p] @ map dp_timestamp (take k (live_points ps)))" by auto
      have "appended (p # ps) b r (Suc k) b'"
        using b'(2) pts n live by (auto simp: appended_def)
      moreover have "wb_sorted b' \<longleftrightarrow> wb_sorted b \<and>
          sorted ((case previous of None \<Rightarrow> [] | Some t \<Rightarrow> [t]) @ map dp_timestamp (take (Suc k) (live_points (p # ps))))"
        by (cases previous) (auto simp: fl fl' live)
      ultimately show ?thesis using 2(1) b'(1) by metis
    qed
  qed
qed

lemma wb_sort_spec:
  assumes "wb_ok b"
  shows "wb_ok (wb_sort b)" and "wb_points (wb_sort b) = sort_key dp_timestamp (wb_points b)"
    and "wb_sorted (wb_sort b)" and "wb_num_datapoints (wb_sort b) = wb_num_datapoints b"
    and "wb_datapoints_per_alloc (wb_sort b) = wb_datapoints_per_alloc b"
proof -
  let ?n = "wb_datapoints_per_alloc b" let ?k = "length (wb_allocs b)"
  let ?xs = "sort_key dp_timestamp (wb_points b) @ drop (wb_num_datapoints b) (concat (wb_allocs b))"
  have "wb_num_datapoints b \<le> ?n * ?k" using assms by (simp add: wb_ok_def)
  then have len: "length ?xs = ?n * ?k" using length_wb_concat [OF assms] assms by simp
  have "concat (dec_all ?n (\<lambda>ys. ys) ?k ?xs) = ?xs" by (rule concat_dec_all_id [OF len])
  then show "wb_points (wb_sort b) = sort_key dp_timestamp (wb_points b)"
    using assms by (simp add: wb_sort_def wb_points_def [of "wb_sort b"] wb_points_def [of "b\<lparr>wb_allocs := x, wb_sorted := y\<rparr>" for x y])
  have "\<forall>ys \<in> set (dec_all ?n (\<lambda>ys. ys) ?k ?xs). length ys = ?n"
    using len by (intro dec_all_id_lengths) simp
  with assms show "wb_ok (wb_sort b)" by (simp add: wb_ok_def wb_sort_def)
qed (simp_all add: wb_sort_def)

section \<open>The iterator interface\<close>

locale datapoint_buffer =
  fixes inv :: "'b \<Rightarrow> bool"
    and buf_size :: "'b \<Rightarrow> nat"
    and value_at :: "'b \<Rightarrow> nat \<Rightarrow> datapoint res"
    and points :: "'b \<Rightarrow> datapoint list"
  assumes buf_size_points: "inv b \<Longrightarrow> buf_size b = length (points b)"
    and value_at_points: "inv b \<Longrightarrow> i < buf_size b \<Longrightarrow> value_at b i = Inr (points b ! i)"
begin

lemma writable_loop_points:
  "inv b \<Longrightarrow> it + d = buf_size b \<Longrightarrow> w \<le> max_pts \<Longrightarrow>
     writable_loop d (value_at b) max_ts max_pts it w =
       Inr (w + length (take (max_pts - w) (takeWhile (\<lambda>p. dp_timestamp p < max_ts) (drop it (points b)))))"
proof (induction d arbitrary: it w)
  case 0
  then show ?case by (simp add: buf_size_points)
next
  case (Suc d)
  then have it: "it < length (points b)" by (simp add: buf_size_points)
  then have v: "value_at b it = Inr (points b ! it)"
    using Suc.prems by (simp add: value_at_points buf_size_points)
  have d: "drop it (points b) = points b ! it # drop (Suc it) (points b)"
    using it by (simp add: Cons_nth_drop_Suc)
  show ?case
  proof (cases "dp_timestamp (points b ! it) < max_ts \<and> w < max_pts")
    case True
    then have "max_pts - w = Suc (max_pts - Suc w)" by (simp add: Suc_diff_Suc)
    with True v d Suc show ?thesis by (simp add: iter_post_increment_def)
  next
    case False
    with v d Suc.prems show ?thesis by auto
  qed
qed

end

definition raw_ok :: "raw_buffer \<Rightarrow> bool" where
  "raw_ok b \<longleftrightarrow> rb_len b \<le> length (rb_mem b)"

definition raw_points :: "raw_buffer \<Rightarrow> datapoint list" where
  "raw_points b = take (rb_len b) (rb_mem b)"

definition db_points :: "dbuffer \<Rightarrow> datapoint list" where
  "db_points d = (case d of RawBuf r \<Rightarrow> raw_points r | WBuf b \<Rightarrow> wb_points b)"

definition db_ok :: "dbuffer \<Rightarrow> bool" where
  "db_ok d \<longleftrightarrow> (case d of RawBuf r \<Rightarrow> raw_ok r | WBuf b \<Rightarrow> wb_ok b)"

interpretation raw_buf: datapoint_buffer raw_ok raw_size raw_value_at raw_points
  by unfold_locales (simp_all add: raw_value_at_def raw_ok_def raw_size_def raw_points_def)

interpretation w_buf: datapoint_buffer wb_ok wb_size wb_value_at wb_points
  by unfold_locales (simp_all add: wb_value_at_points wb_size_def)

interpretation any_buf: datapoint_buffer db_ok db_size db_value_at db_points
proof unfold_locales
  show "db_size d = length (db_points d)" if "db_ok d" for d
    using that raw_buf.buf_size_points w_buf.buf_size_points
    by (cases d) (simp_all add: db_size_def db_points_def db_ok_def)
  show "db_value_at d i = Inr (db_points d ! i)" if "db_ok d" "i < db_size d" for d i
    using that raw_buf.value_at_points w_buf.value_at_points
    by (cases d) (simp_all add: db_size_def db_points_def db_ok_def db_value_at_def)
qed

text \<open>\<open>WritableDatapoints\<close>: strictly below the timestamp limit, at most the count limit.\<close>

definition wo_ok :: "write_op \<Rightarrow> bool" where
  "wo_ok w \<longleftrightarrow> db_ok (wo_buffer w) \<and> wo_cursor w \<le> db_size (wo_buffer w)"

definition wo_rest :: "write_op \<Rightarrow> datapoint list" where
  "wo_rest w = drop (wo_cursor w) (db_points (wo_buffer w))"

lemma writable_datapoints_rest:
  "wo_ok w \<Longrightarrow> writable_datapoints w =
     Inr (length (take (wo_max_writable_datapoints w)
       (takeWhile (\<lambda>p. dp_timestamp p < wo_max_writable_timestamp w) (wo_rest w))))"
  by (simp add: writable_datapoints_def wo_ok_def wo_rest_def any_buf.writable_loop_points)

lemma wo_complete_rest: "wo_ok w \<Longrightarrow> wo_complete w \<longleftrightarrow> wo_rest w = []"
  by (auto simp: wo_ok_def wo_complete_def wo_rest_def any_buf.buf_size_points)

section \<open>What the I/O vector of a write buffer holds\<close>

primrec collect_bytes :: "(iovec option \<Rightarrow> byte list res) \<Rightarrow> iov_array \<Rightarrow> byte list list res" where
  "collect_bytes f [] = Inr []"
| "collect_bytes f (v # vs) =
     bindE (f v) (\<lambda>bs. bindE (collect_bytes f vs) (\<lambda>bss. Inr (bs # bss)))"

lemma collect_bytes_map:
  "(\<And>a. a < length iov \<Longrightarrow> f (iov ! a) = Inr (g a)) \<Longrightarrow>
     collect_bytes f iov = Inr (map g [0..<length iov])"
proof (induction iov arbitrary: g)
  case (Cons v iov)
  from Cons.prems [of 0] have "f v = Inr (g 0)" by simp
  moreover have "collect_bytes f iov = Inr (map (\<lambda>a. g (Suc a)) [0..<length iov])"
    using Cons.prems [of "Suc a" for a] by (intro Cons.IH) simp
  ultimately show ?case by (simp add: map_upt_Suc del: upt_Suc)
qed simp

lemma concat_chunks: "concat (map (\<lambda>a. take n (drop (a * n) xs)) [0..<c]) = take (c * n) xs"
  by (induction c) (simp_all add: take_add add.commute [of n])

lemma wb_iov_loop_stop: "\<not> (i < e \<and> 0 < m) \<Longrightarrow> wb_iov_loop b e i m iov = Inr (iov, i)"
  by (subst wb_iov_loop.simps) (simp only: if_False Let_def)

lemma wb_iov_loop_go:
  assumes "i < e" and "0 < m" and "0 < wb_datapoints_per_alloc b"
    and "i div wb_datapoints_per_alloc b < length iov"
    and "i div wb_datapoints_per_alloc b < length (wb_allocs b)"
    and "u = min (e - i) (min (wb_datapoints_per_alloc b - i mod wb_datapoints_per_alloc b) m)"
  shows "wb_iov_loop b e i m iov = wb_iov_loop b e (i + u) (m - u)
     (iov[i div wb_datapoints_per_alloc b := Some \<lparr>iov_base = (i div wb_datapoints_per_alloc b,
        i mod wb_datapoints_per_alloc b), iov_len = u * datapoint_size\<rparr>])"
  using assms by (subst wb_iov_loop.simps) (simp add: Let_def)

definition full_iovec :: "nat \<Rightarrow> nat \<Rightarrow> nat \<Rightarrow> iovec" where
  "full_iovec n k a = \<lparr>iov_base = (a, 0), iov_len = min n (k - a * n) * datapoint_size\<rparr>"

lemma wb_iov_loop_aligned:
  assumes "n = wb_datapoints_per_alloc b" and "0 < n" and "k \<le> n * length iov"
    and "k \<le> n * length (wb_allocs b)" and "min (e - j * n) m = k - j * n" and "j * n \<le> k"
  shows "\<exists>iov'. wb_iov_loop b e (j * n) m iov = Inr (iov', k) \<and> length iov' = length iov \<and>
    (\<forall>a. a * n < k \<longrightarrow> iov' ! a = (if a < j then iov ! a else Some (full_iovec n k a)))"
  using assms
proof (induction "k - j * n" arbitrary: j m iov rule: less_induct)
  case less
  show ?case
  proof (cases "j * n = k")
    case True
    then have "\<not> (j * n < e \<and> 0 < m)" using less.prems(5) by auto
    then have "wb_iov_loop b e (j * n) m iov = Inr (iov, k)"
      unfolding True by (rule wb_iov_loop_stop)
    moreover have "a < j" if "a * n < k" for a using that True by auto
    ultimately show ?thesis by simp
  next
    case False
    then have jk: "j * n < k" using less.prems(6) by simp
    define u where "u = min n (k - j * n)"
    let ?v = "Some \<lparr>iov_base = (j, 0), iov_len = u * datapoint_size\<rparr>"
    have v: "?v = Some (full_iovec n k j)" by (simp add: full_iovec_def u_def)
    have "j * n < e" "0 < m" using jk less.prems(5) by auto
    moreover have "j < length iov" "j < length (wb_allocs b)"
      using jk less.prems(3,4) by (metis less_le_trans mult.commute mult_less_cancel2)+
    moreover have "u = min (e - j * n) (min n m)" using less.prems(5) by (auto simp: u_def)
    ultimately have go: "wb_iov_loop b e (j * n) m iov
        = wb_iov_loop b e (j * n + u) (m - u) (iov[j := ?v])"
      using less.prems(1,2) wb_iov_loop_go [of "j * n" e m b iov u] by simp
    show ?thesis
    proof (cases "n \<le> k - j * n")
      case True
      then have u: "u = n" and jn: "Suc j * n \<le> k" using jk by (simp_all add: u_def)
      have dec: "k - Suc j * n < k - j * n" using jk less.prems(2) by simp
      have "\<exists>iov'. wb_iov_loop b e (Suc j * n) (m - n) (iov[j := ?v]) = Inr (iov', k) \<and>
          length iov' = length (iov[j := ?v]) \<and> (\<forall>a. a * n < k \<longrightarrow>
            iov' ! a = (if a < Suc j then iov[j := ?v] ! a else Some (full_iovec n k a)))"
        using less.prems(1-5) jn dec by (intro less.hyps) (auto simp: min_def split: if_splits)
      then obtain iov' where iov': "wb_iov_loop b e (Suc j * n) (m - n) (iov[j := ?v]) = Inr (iov', k)"
        "length iov' = length iov" and at: "\<forall>a. a * n < k \<longrightarrow>
            iov' ! a = (if a < Suc j then iov[j := ?v] ! a else Some (full_iovec n k a))" by auto
      have "iov' ! a = (if a < j then iov ! a else Some (full_iovec n k a))" if "a * n < k" for a
        using at that v \<open>j < length iov\<close> by (auto simp: less_Suc_eq nth_list_update)
      with iov' go u show ?thesis by (metis add.commute mult_Suc)
    next
      case False
      then have u: "u = k - j * n" by (simp add: u_def)
      then have iu: "j * n + u = k" using jk by simp
      have "\<not> (k < e \<and> 0 < m - u)" using less.prems(5) u jk by (auto simp: min_def split: if_splits)
      from wb_iov_loop_stop [OF this] go iu
      have "wb_iov_loop b e (j * n) m iov = Inr (iov[j := ?v], k)" by simp
      moreover have "iov[j := ?v] ! a = (if a < j then iov ! a else Some (full_iovec n k a))"
        if "a * n < k" for a
      proof -
        have "a \<le> j"
        proof (rule ccontr)
          assume "\<not> a \<le> j"
          then have "Suc j * n \<le> a * n" by (intro mult_le_mono1) simp
          with that False jk show False by simp
        qed
        with v \<open>j < length iov\<close> show ?thesis by (auto simp: nth_list_update)
      qed
      ultimately show ?thesis by simp
    qed
  qed
qed

text \<open>The chunk a full entry names.\<close>

lemma full_iovec_bytes:
  assumes "wb_ok b" and "n = wb_datapoints_per_alloc b" and "k \<le> wb_num_datapoints b" and "a * n < k"
  shows "wb_iov_bytes b (Some (full_iovec n k a))
    = Inr (enc_all dp_encode (take n (drop (a * n) (take k (wb_points b)))))"
proof -
  let ?all = "concat (wb_allocs b)"
  from assms(1,2) have n: "0 < n" and u: "\<forall>x \<in> set (wb_allocs b). length x = n"
    and le: "wb_num_datapoints b \<le> n * length (wb_allocs b)" by (auto simp: wb_ok_def)
  have a: "a < length (wb_allocs b)"
    using assms(3,4) le by (metis le_less_trans le_trans less_le_trans mult.commute mult_less_cancel2)
  have all: "wb_allocs b ! a = take n (drop (a * n) ?all)"
  proof (rule nth_equalityI)
    have "Suc a \<le> length (wb_allocs b)" using a by simp
    then have "Suc a * n \<le> length ?all"
      by (metis length_concat_uniform [OF u] mult.commute mult_le_mono1)
    then show "length (wb_allocs b ! a) = length (take n (drop (a * n) ?all))" using a u by simp
    fix i assume "i < length (wb_allocs b ! a)"
    then have i: "i < n" using a u by simp
    have "a * n + i < Suc a * n" using i by simp
    also have "\<dots> \<le> n * length (wb_allocs b)" using a by (metis Suc_leI mult.commute mult_le_mono1)
    finally have "a * n + i < n * length (wb_allocs b)" .
    then have "a * n \<le> length ?all" by (simp only: length_concat_uniform [OF u])
    with nth_concat_uniform [OF u \<open>a * n + i < n * length (wb_allocs b)\<close>] i n
    show "wb_allocs b ! a ! i = take n (drop (a * n) ?all) ! i" by simp
  qed
  let ?c = "min n (k - a * n)"
  have len: "length (wb_allocs b ! a) = n" using a u by simp
  have "take ?c (wb_allocs b ! a) = take n (drop (a * n) (take k (wb_points b)))"
    using assms(3,4) by (simp add: all wb_points_def drop_take min.commute min.absorb2 min.absorb1)
  moreover have "take (?c * datapoint_size) (enc_all dp_encode (wb_allocs b ! a))
      = enc_all dp_encode (take ?c (wb_allocs b ! a))" by (rule dp.take_enc_all)
  ultimately show ?thesis using a len
    by (simp add: wb_iov_bytes_def full_iovec_def)
qed

text \<open>
  \<open>GetIOVector\<close> from the start of the buffer: the vector names, in order, the bytes of the
  first \<open>writable_datapoints\<close> datapoints, which are those within both limits.
\<close>

definition wb_sorted_ok :: "write_buffer \<Rightarrow> bool" where
  "wb_sorted_ok b \<longleftrightarrow> (wb_sorted b \<longrightarrow> sorted (map dp_timestamp (wb_points b)))"

definition wb_ordered :: "write_buffer \<Rightarrow> write_buffer" where
  "wb_ordered b = (if \<not> wb_is_sorted b then wb_sort b else b)"

lemma wb_ordered_spec:
  assumes "wb_ok b" and "wb_sorted_ok b"
  shows "wb_ok (wb_ordered b)" and "wb_points (wb_ordered b) = sort_key dp_timestamp (wb_points b)"
    and "wb_num_datapoints (wb_ordered b) = wb_num_datapoints b"
    and "wb_datapoints_per_alloc (wb_ordered b) = wb_datapoints_per_alloc b"
  using assms wb_sort_spec [OF assms(1)]
  by (auto simp: wb_ordered_def wb_is_sorted_def wb_sorted_ok_def sorted_sort_id sort_key_id_if_sorted)

definition blocks :: "nat \<Rightarrow> nat \<Rightarrow> nat" where
  "blocks n m = m div n + (if m mod n \<noteq> 0 then 1 else 0)"

lemma blocks_enough: "0 < n \<Longrightarrow> m \<le> n * blocks n m"
proof -
  assume "0 < n"
  with dividend_less_div_times [of n m] show ?thesis
    by (cases "m mod n = 0") (auto simp: blocks_def algebra_simps)
qed

lemma blocks_tight: "0 < n \<Longrightarrow> a < blocks n m \<Longrightarrow> a * n < m"
proof (cases "m mod n = 0")
  case True
  assume "0 < n" "a < blocks n m"
  with True have "a * n < m div n * n" by (simp add: blocks_def)
  with True show ?thesis by (metis add.right_neutral div_mult_mod_eq)
next
  case False
  assume "0 < n" "a < blocks n m"
  with False have "a * n \<le> m div n * n" by (simp add: blocks_def)
  also have "\<dots> < m" using False by (metis add_diff_cancel_left' div_mult_mod_eq le_neq_implies_less
      minus_mod_eq_div_mult diff_le_self mod_less_eq_dividend less_add_same_cancel1 neq0_conv)
  finally show ?thesis .
qed

lemma last_block_enough: "0 < n \<Longrightarrow> 0 < e \<Longrightarrow> e \<le> n * ((e - 1) div n + 1)" for e :: nat
  using dividend_less_div_times [of n "e - 1"] by (simp add: algebra_simps)

lemma last_block_tight: "0 < e \<Longrightarrow> a < (e - 1) div n + 1 \<Longrightarrow> a * n < e" for e :: nat
proof -
  assume "0 < e" "a < (e - 1) div n + 1"
  then have "a * n \<le> (e - 1) div n * n" by simp
  also have "\<dots> \<le> e - 1" by (rule div_times_less_eq_dividend)
  finally show ?thesis using \<open>0 < e\<close> by simp
qed

lemma length_filter_sort_key: "length (filter P (sort_key f xs)) = length (filter P xs)"
  by (simp add: filter_sort)

lemma wb_get_iovector_start:
  assumes ok: "wb_ok b" and so: "wb_sorted_ok b" and n_def: "n = wb_datapoints_per_alloc b"
    and "m div n < 2147483647" and "wb_num_datapoints b div n < 2147483647"
    and k: "k = min m (length (filter (\<lambda>p. dp_timestamp p \<le> t) (wb_points b)))"
  obtains iov chunks where
    "wb_get_iovector 0 m t b = (Inr (iov, k), if wb_num_datapoints b = 0 then b else wb_ordered b)"
    and "collect_bytes (wb_iov_bytes (wb_ordered b)) iov = Inr chunks"
    and "concat chunks = enc_all dp_encode (take k (sort_key dp_timestamp (wb_points b)))"
proof (cases "wb_num_datapoints b = 0")
  case True
  then have "wb_points b = []" by (simp add: wb_points_def)
  with True k show ?thesis by (intro that [of "[]" "[]"]) (simp_all add: wb_get_iovector_def)
next
  case False
  let ?b1 = "wb_ordered b"
  note b1 = wb_ordered_spec [OF ok so]
  have n: "0 < n" using ok by (simp add: wb_ok_def n_def)
  define e where "e = length (takeWhile (\<lambda>p. dp_timestamp p \<le> t) (wb_points ?b1))"
  have e: "e = length (filter (\<lambda>p. dp_timestamp p \<le> t) (wb_points b))"
    by (simp add: e_def b1 takeWhile_le_sorted length_filter_sort_key)
  have e_le: "e \<le> wb_num_datapoints b" unfolding e using length_filter_le ok by (metis length_wb_points)
  have run: "wb_get_iovector 0 m t b = (if e \<le> 0 then (Inr ([], 0), ?b1) else
      let c = min (wrap32 (wrap32 (int (m div n)) + (if m mod n \<noteq> 0 then 1 else 0)))
                (wrap32 (wrap32 (int ((e - 1) div n)) - wrap32 0 + 1))
      in if c < 0 then (Inl BadAlloc, ?b1)
         else (bindE (wb_iov_loop ?b1 e 0 m (replicate (nat c) None)) (\<lambda>(iov, i). Inr (iov, i - 0)), ?b1))"
    using False n b1(4)
    by (simp add: wb_get_iovector_def Let_def e_def wb_ordered_def n_def)
  show ?thesis
  proof (cases "e = 0")
    case True
    with k e run False show ?thesis by (intro that [of "[]" "[]"]) simp_all
  next
    case e0: False
    define c where "c = min (blocks n m) ((e - 1) div n + 1)"
    have "(e - 1) div n \<le> wb_num_datapoints b div n" using e_le by (intro div_le_mono) simp
    then have small: "m div n < 2147483647" "(e - 1) div n < 2147483647" using assms(4,5) by simp_all
    have "min (wrap32 (wrap32 (int (m div n)) + (if m mod n \<noteq> 0 then 1 else 0)))
        (wrap32 (wrap32 (int ((e - 1) div n)) - wrap32 0 + 1)) = int c"
      using small by (auto simp: c_def blocks_def wrap32_id)
    with run e0 have run: "wb_get_iovector 0 m t b
        = (bindE (wb_iov_loop ?b1 e 0 m (replicate c None)) (\<lambda>(iov, i). Inr (iov, i)), ?b1)"
      by (simp add: Let_def)
    have ke: "k = min m e" by (simp add: k e)
    have kc: "k \<le> n * c"
      using blocks_enough [OF n, of m] last_block_enough [OF n, of e] e0
      unfolding ke c_def by (auto simp: min_def)
    have tight: "a * n < k" if "a < c" for a
      using that blocks_tight [OF n, of a m] last_block_tight [of e a n] e0 unfolding ke c_def by simp
    have kn: "k \<le> wb_num_datapoints ?b1" using e_le by (simp add: ke b1(3))
    moreover from b1(1) have "wb_num_datapoints ?b1 \<le> n * length (wb_allocs ?b1)"
      by (simp add: wb_ok_def n_def b1(4))
    ultimately have "k \<le> n * length (wb_allocs ?b1)" by simp
    from wb_iov_loop_aligned [of n ?b1 k "replicate c None" e 0 m] n kc this ke
    obtain iov where loop: "wb_iov_loop ?b1 e 0 m (replicate c None) = Inr (iov, k)"
      and len: "length iov = c" and at: "\<forall>a. a * n < k \<longrightarrow> iov ! a = Some (full_iovec n k a)"
      by (auto simp: n_def b1(4) min.commute)
    let ?chunk = "\<lambda>a. enc_all dp_encode (take n (drop (a * n) (take k (wb_points ?b1))))"
    have "wb_iov_bytes ?b1 (iov ! a) = Inr (?chunk a)" if "a < length iov" for a
      using that len at tight full_iovec_bytes [OF b1(1) _ kn, of n a] by (simp add: n_def b1(4))
    then have "collect_bytes (wb_iov_bytes ?b1) iov = Inr (map ?chunk [0..<length iov])"
      by (rule collect_bytes_map)
    moreover have "concat (map ?chunk [0..<c]) = enc_all dp_encode (take k (wb_points ?b1))"
    proof -
      have "concat (map ?chunk [0..<c])
          = enc_all dp_encode (concat (map (\<lambda>a. take n (drop (a * n) (take k (wb_points ?b1)))) [0..<c]))"
        by (induction c) simp_all
      then show ?thesis using kc by (simp add: concat_chunks mult.commute min_absorb2)
    qed
    ultimately show ?thesis using run loop False len b1(2) by (intro that [of iov]) simp_all
  qed
qed

text \<open>
  The vector is indexed by absolute allocation but sized from the first one used, so a loop
  that has to reach an allocation beyond the array's length writes outside it.
\<close>

lemma wb_iov_loop_overflow:
  assumes "0 < wb_datapoints_per_alloc b" and "i < e" and "e - i \<le> m"
    and "length iov \<le> (e - 1) div wb_datapoints_per_alloc b"
  shows "wb_iov_loop b e i m iov = Inl OutOfBounds"
  using assms
proof (induction "e - i" arbitrary: i m iov rule: less_induct)
  case less
  let ?n = "wb_datapoints_per_alloc b"
  show ?case
  proof (cases "i div ?n < length iov \<and> i div ?n < length (wb_allocs b)")
    case False
    with less.prems show ?thesis by (subst wb_iov_loop.simps) (auto simp: Let_def)
  next
    case True
    have mod: "i mod ?n < ?n" using less.prems(1) by simp
    define u where "u = min (e - i) (min (?n - i mod ?n) m)"
    have go: "wb_iov_loop b e i m iov = wb_iov_loop b e (i + u) (m - u)
       (iov[i div ?n := Some \<lparr>iov_base = (i div ?n, i mod ?n), iov_len = u * datapoint_size\<rparr>])"
      using True less.prems u_def by (intro wb_iov_loop_go) auto
    have "?n - i mod ?n < e - i"
    proof (rule ccontr)
      assume "\<not> ?n - i mod ?n < e - i"
      then have "e - 1 < i div ?n * ?n + ?n" using mod less.prems(2) div_mult_mod_eq [of i ?n] by linarith
      then have "(e - 1) div ?n < i div ?n + 1" by (simp add: less_mult_imp_div_less)
      with True less.prems(4) show False by simp
    qed
    then have iu: "i + u < e" "0 < u" using less.prems(3) mod by (auto simp: u_def)
    then have "e - (i + u) < e - i" "e - (i + u) \<le> m - u" using less.prems(3) by arith+
    with iu less.prems show ?thesis unfolding go by (intro less.hyps) simp_all
  qed
qed

lemma wb_get_iovector_later:
  assumes ok: "wb_ok b" and so: "wb_sorted_ok b" and n: "n = wb_datapoints_per_alloc b"
    and e: "e = length (filter (\<lambda>p. dp_timestamp p \<le> t) (wb_points b))"
    and pos: "n \<le> pos" "pos < e" and m: "e - pos \<le> m"
    and small: "m div n < 2147483647" "wb_num_datapoints b div n < 2147483647"
  shows "wb_get_iovector pos m t b = (Inl OutOfBounds, wb_ordered b)"
proof -
  let ?b1 = "wb_ordered b"
  note b1 = wb_ordered_spec [OF ok so]
  have n0: "0 < n" using ok by (simp add: wb_ok_def n)
  have e1: "length (takeWhile (\<lambda>p. dp_timestamp p \<le> t) (wb_points ?b1)) = e"
    by (simp add: e b1 takeWhile_le_sorted length_filter_sort_key)
  have e_le: "e \<le> wb_num_datapoints b" unfolding e using length_filter_le ok by (metis length_wb_points)
  define c where "c = min (int (m div n) + (if m mod n \<noteq> 0 then 1 else 0))
    (int ((e - 1) div n) - int (pos div n) + 1)"
  have p: "pos div n \<le> (e - 1) div n" using pos by (intro div_le_mono) simp
  have l: "(e - 1) div n \<le> wb_num_datapoints b div n" using e_le by (intro div_le_mono) simp
  have w: "wrap32 (int (pos div n)) = int (pos div n)" "wrap32 (int ((e - 1) div n)) = int ((e - 1) div n)"
    "wrap32 (int ((e - 1) div n) - int (pos div n) + 1) = int ((e - 1) div n) - int (pos div n) + 1"
    "wrap32 (wrap32 (int (m div n)) + (if m mod n \<noteq> 0 then 1 else 0))
      = int (m div n) + (if m mod n \<noteq> 0 then 1 else 0)"
    using p l small by (auto intro!: wrap32_id simp: wrap32_id of_nat_diff)
  have c0: "0 \<le> c" using p by (simp add: c_def)
  have "1 \<le> pos div n" using pos n0 by (simp add: div_greater_zero_iff Suc_le_eq)
  then have cl: "nat c \<le> (e - 1) div n" unfolding c_def by linarith
  have ne: "wb_num_datapoints b \<noteq> 0" using pos e_le by simp
  have "wb_get_iovector pos m t b = (let k = min (wrap32 (wrap32 (int (m div n)) + (if m mod n \<noteq> 0 then 1 else 0)))
                (wrap32 (wrap32 (int ((e - 1) div n)) - wrap32 (int (pos div n)) + 1))
      in if k < 0 then (Inl BadAlloc, ?b1)
         else (bindE (wb_iov_loop ?b1 e pos m (replicate (nat k) None)) (\<lambda>(iov, i). Inr (iov, i - pos)), ?b1))"
    using ne pos n0 unfolding wb_get_iovector_def
    by (simp add: Let_def wb_ordered_def [symmetric] b1(4) n [symmetric] e1)
  moreover have "min (wrap32 (wrap32 (int (m div n)) + (if m mod n \<noteq> 0 then 1 else 0)))
      (wrap32 (wrap32 (int ((e - 1) div n)) - wrap32 (int (pos div n)) + 1)) = c"
    unfolding c_def by (simp only: w)
  ultimately have "wb_get_iovector pos m t b = (bindE (wb_iov_loop ?b1 e pos m (replicate (nat c) None))
      (\<lambda>(iov, i). Inr (iov, i - pos)), ?b1)"
    using c0 by (simp only: Let_def) simp
  moreover have "wb_iov_loop ?b1 e pos m (replicate (nat c) None) = Inl OutOfBounds"
    using pos m cl n0 by (intro wb_iov_loop_overflow) (simp_all add: b1(4) n [symmetric])
  ultimately show ?thesis by simp
qed

lemma wb_append_spec:
  assumes "wb_ok b"
  obtains r n b' where "wb_append op b = (r, b')" and "appended op b r n b'"
    and "wb_sorted b' \<longleftrightarrow> wb_sorted b \<and> sorted (map dp_timestamp (take n (live_points op)))"
  using wb_append_loop_spec [OF assms, of op None] by (auto simp: wb_append_def)

lemma wb_append_granted:
  assumes "wb_ok b" and "False \<notin> set (wb_heap b)"
  obtains b' where "wb_append op b = (Inr (), b')" and "wb_ok b'"
    and "wb_points b' = wb_points b @ live_points op" and "False \<notin> set (wb_heap b')"
    and "wb_sorted b' \<longleftrightarrow> wb_sorted b \<and> sorted (map dp_timestamp (live_points op))"
proof (rule wb_append_spec [OF assms(1), of op])
  fix r n b'
  assume "wb_append op b = (r, b')" "appended op b r n b'"
    "wb_sorted b' \<longleftrightarrow> wb_sorted b \<and> sorted (map dp_timestamp (take n (live_points op)))"
  with assms(2) show thesis by (intro that [of b']) (auto simp: appended_def)
qed

text \<open>A buffer of two one-datapoint allocations, used as a concrete instance below.\<close>

definition two_page_buffer :: write_buffer where
  "two_page_buffer = \<lparr>wb_alloc_size = 24, wb_allocs = [[Datapoint 1 0 1], [Datapoint 2 0 1]],
     wb_datapoints_per_alloc = 1, wb_num_datapoints = 2, wb_sorted = True, wb_junk = Datapoint 0 0 0, wb_heap = []\<rparr>"

section \<open>Properties\<close>

text \<open>
  Claim C13. \<open>WriteBuffer::Append\<close> on a well-formed buffer refines appending to a list: it keeps
  the buffer well formed and stores the datapoints that are not NaN behind the old ones in their
  order, and afterwards \<open>IsSorted()\<close> says that it did before and the datapoints stored by this
  call came in timestamp order.  It stores all of them and returns, or \<open>aligned_alloc\<close> refuses
  memory: then it throws \<open>bad_alloc\<close>, and those for which there was room in the allocations stay.
\<close>

theorem append_refines_list:
  assumes "wb_ok b" and "new = filter (\<lambda>p. \<not> isnan (dp_value p)) op"
  shows "\<exists>r n b'. wb_append op b = (r, b') \<and> wb_ok b' \<and> wb_points b' = wb_points b @ take n new \<and>
    (wb_is_sorted b' \<longleftrightarrow> wb_is_sorted b \<and> sorted (map dp_timestamp (take n new))) \<and>
    (r = Inr () \<and> n = length new \<or>
     r = Inl BadAlloc \<and> n < length new \<and> False \<in> set (wb_heap b) \<and>
     wb_datapoints_per_alloc b dvd length (wb_points b'))"
proof (rule wb_append_spec [OF assms(1), of op])
  fix r n b'
  assume "wb_append op b = (r, b')" "appended op b r n b'"
    "wb_sorted b' \<longleftrightarrow> wb_sorted b \<and> sorted (map dp_timestamp (take n (live_points op)))"
  then show ?thesis unfolding assms(2) appended_def live_points_def wb_is_sorted_def by blast
qed

theorem append_refines_list_witness:
  "\<exists>r b'. wb_append [Datapoint 5 double_nan 1, Datapoint 3 0 1] (WriteBuffer 4096 1 (Datapoint 0 0 0) []) = (r, b') \<and>
     r = Inr () \<and> wb_points b' = [Datapoint 3 0 1]"
proof -
  let ?op = "[Datapoint 5 double_nan 1, Datapoint 3 0 1]" and ?b = "WriteBuffer 4096 1 (Datapoint 0 0 0) []"
  have "wb_ok ?b" by (rule wb_ok_new) simp
  moreover have "[Datapoint 3 0 1] = filter (\<lambda>p. \<not> isnan (dp_value p)) ?op"
    by (simp add: Datapoint_def isnan_def [of 0] dbl_exp_def)
  ultimately obtain r n b' where "wb_append ?op ?b = (r, b')" "wb_points b' = wb_points ?b @ take n [Datapoint 3 0 1]"
    "r = Inr () \<and> n = length [Datapoint 3 0 1] \<or> False \<in> set (wb_heap ?b)"
    using append_refines_list [of ?b "[Datapoint 3 0 1]" ?op] by blast
  moreover have "wb_heap ?b = []" by (simp add: WriteBuffer_def Let_def)
  ultimately show ?thesis by auto
qed

text \<open>
  A call that runs out of memory in the middle keeps what it has stored: with room for one
  datapoint in each allocation and a second allocation refused, the first of two stays.
\<close>

theorem bad_alloc_keeps_prefix:
  "\<exists>b'. wb_append [Datapoint 1 0 1, Datapoint 2 0 1] (WriteBuffer 24 1 (Datapoint 0 0 0) [True, False]) = (Inl BadAlloc, b') \<and>
     wb_points b' = [Datapoint 1 0 1]"
  by (simp add: wb_append_def WriteBuffer_def Let_def datapoint_size_def wb_get_next_datapoint_def wb_aligned_alloc_def
      wb_points_def Datapoint_def isnan_def dbl_exp_def)

text \<open>
  The \<open>sorted\<close> flag can be wrong: every \<open>Append\<close> call starts with no previous
  datapoint, so two calls whose datapoints go back in time leave \<open>IsSorted()\<close> true on a
  buffer that is not in timestamp order, and a flush will not sort it.
\<close>

theorem sorted_flag_stale:
  "\<exists>b1 b2. wb_append [Datapoint 10 0 1] (WriteBuffer 4096 1 (Datapoint 0 0 0) []) = (Inr (), b1) \<and>
     wb_append [Datapoint 5 0 1] b1 = (Inr (), b2) \<and>
     wb_is_sorted b2 \<and> \<not> sorted (map dp_timestamp (wb_points b2))"
proof -
  define b where "b = WriteBuffer 4096 1 (Datapoint 0 0 0) []"
  have live: "live_points [Datapoint t 0 1] = [Datapoint t 0 1]" for t
    by (simp add: live_points_def Datapoint_def isnan_def dbl_exp_def)
  have b: "wb_ok b" "False \<notin> set (wb_heap b)" "wb_sorted b" "wb_points b = []"
    unfolding b_def by (rule wb_ok_new, simp, simp_all add: wb_points_def WriteBuffer_def Let_def)
  obtain b1 where b1: "wb_append [Datapoint 10 0 1] b = (Inr (), b1)" "wb_ok b1" "wb_points b1 = [Datapoint 10 0 1]"
    "False \<notin> set (wb_heap b1)" "wb_sorted b1"
    by (rule wb_append_granted [OF b(1,2), of "[Datapoint 10 0 1]"]) (auto simp: live b(3,4))
  obtain b2 where b2: "wb_append [Datapoint 5 0 1] b1 = (Inr (), b2)" "wb_points b2 = [Datapoint 10 0 1, Datapoint 5 0 1]" "wb_sorted b2"
    by (rule wb_append_granted [OF b1(2,4), of "[Datapoint 5 0 1]"]) (auto simp: live b1(3,5))
  have "\<not> sorted (map dp_timestamp (wb_points b2))" unfolding b2(2) by (simp add: Datapoint_def)
  with b1(1) b2(1,3) show ?thesis by (auto simp: b_def wb_is_sorted_def)
qed

text \<open>
  Claim C14. \<open>GetIOVector\<close> at the start of a well-formed buffer whose flag is right: it
  reports as writable the datapoints that are within the count limit and do not exceed the
  timestamp limit, and the vectors it returns are valid memory holding exactly the bytes of
  those datapoints in timestamp order.  (The limits on sizes keep the \<open>int\<close> conversions
  exact.)
\<close>

theorem iovector_of_whole_buffer:
  assumes "wb_ok b" and "wb_sorted b \<longrightarrow> sorted (map dp_timestamp (wb_points b))"
    and "max_pts div wb_datapoints_per_alloc b < 2147483647"
    and "wb_num_datapoints b div wb_datapoints_per_alloc b < 2147483647"
  shows "\<exists>iov b' chunks k. wb_get_iovector 0 max_pts max_ts b = (Inr (iov, k), b') \<and>
    k = min max_pts (length (filter (\<lambda>p. dp_timestamp p \<le> max_ts) (wb_points b))) \<and>
    collect_bytes (wb_iov_bytes (wb_ordered b)) iov = Inr chunks \<and>
    concat chunks = enc_all dp_encode (take k (sort_key dp_timestamp (wb_points b)))"
proof -
  from assms(2) have "wb_sorted_ok b" by (simp add: wb_sorted_ok_def)
  from wb_get_iovector_start [OF assms(1) this refl assms(3,4) refl, of max_ts] show ?thesis by metis
qed

theorem iovector_of_whole_buffer_witness:
  "\<exists>iov b' chunks. wb_get_iovector 0 100 INT64_MAX two_page_buffer = (Inr (iov, 2), b') \<and>
     collect_bytes (wb_iov_bytes two_page_buffer) iov = Inr chunks \<and>
     concat chunks = enc_all dp_encode [Datapoint 1 0 1, Datapoint 2 0 1]"
proof -
  have "wb_ok two_page_buffer" "100 div wb_datapoints_per_alloc two_page_buffer < 2147483647"
    "wb_num_datapoints two_page_buffer div wb_datapoints_per_alloc two_page_buffer < 2147483647"
    "wb_sorted two_page_buffer \<longrightarrow> sorted (map dp_timestamp (wb_points two_page_buffer))"
    and pts: "wb_points two_page_buffer = [Datapoint 1 0 1, Datapoint 2 0 1]"
    and o: "wb_ordered two_page_buffer = two_page_buffer"
    by (simp_all add: two_page_buffer_def wb_ok_def wb_points_def Datapoint_def wb_ordered_def wb_is_sorted_def)
  from iovector_of_whole_buffer [OF this(1,4,2,3), of INT64_MAX] show ?thesis
    by (simp add: pts o) (simp add: Datapoint_def INT64_MAX_def numeral_2_eq_2)
qed

text \<open>
  \<open>GetIOVector\<close> past the first allocation is a buffer overflow: when the cursor
  has left the first allocation and all remaining datapoints fit the limits, filling the
  vector writes outside the array that was allocated for it.
\<close>

theorem iovector_past_first_alloc_overflows:
  assumes "wb_ok b" and "wb_sorted b \<longrightarrow> sorted (map dp_timestamp (wb_points b))"
    and "wb_datapoints_per_alloc b \<le> pos"
    and "pos < length (filter (\<lambda>p. dp_timestamp p \<le> max_ts) (wb_points b))"
    and "length (filter (\<lambda>p. dp_timestamp p \<le> max_ts) (wb_points b)) - pos \<le> max_pts"
    and "max_pts div wb_datapoints_per_alloc b < 2147483647"
    and "wb_num_datapoints b div wb_datapoints_per_alloc b < 2147483647"
  shows "fst (wb_get_iovector pos max_pts max_ts b) = Inl OutOfBounds"
proof -
  from assms(2) have "wb_sorted_ok b" by (simp add: wb_sorted_ok_def)
  from wb_get_iovector_later [OF assms(1) this refl refl assms(3-7)] show ?thesis by simp
qed

theorem iovector_past_first_alloc_overflows_witness:
  "fst (wb_get_iovector 1 100 INT64_MAX two_page_buffer) = Inl OutOfBounds"
  by (rule iovector_past_first_alloc_overflows)
     (simp_all add: two_page_buffer_def wb_ok_def wb_points_def Datapoint_def INT64_MAX_def)

end
