(* ===== verification/World.thy ===== *)
theory World
  imports FileNames Buffers
begin

text \<open>
  What the three classes of datapoint files share: the command-line flags, the world a write
  changes, and the access to the buffer of a read.

  A read is a program over the \<open>read_op\<close> it fills (an exception leaves what it had
  filled); the file system is not changed by it.  A write returns its result, the file
  object and, where it may sort it, the buffer, and changes the \<open>world\<close>: the file system
  and the queue of the worker that optimises files.
\<close>

section \<open>Flags and the world\<close>

text \<open>The command-line flags of the storage code, and the C library's \<open>strtod\<close>.\<close>

record config =
  sparse_file_optimize_size :: nat
  sparse_file_max_size :: nat
  max_dense_nan_gap :: nat
  max_dense_nan_padding :: int
  min_datapoints_for_dense :: nat
  min_datapoints_for_constant :: nat
  read_buffer_size :: nat
  c_strtod :: "string \<Rightarrow> double \<times> string"

definition default_config :: "(string \<Rightarrow> double \<times> string) \<Rightarrow> config" where
  "default_config strtod = \<lparr>sparse_file_optimize_size = 4096, sparse_file_max_size = 4194304,
     max_dense_nan_gap = 256, max_dense_nan_padding = 256, min_datapoints_for_dense = 32,
     min_datapoints_for_constant = 32, read_buffer_size = 43690, c_strtod = strtod\<rparr>"

text \<open>
  The world adds to the file system the series' worker as the optimiser sees it: the tasks
  it has queued, the limit on queued tasks, and the files handed over so far.
\<close>

record world = posix +
  w_queue :: nat
  w_queue_limit :: nat
  w_too_big :: "(string \<times> sparse_file) list"

text \<open>Handing a task to the worker: refused when its queue is full.\<close>

definition worker_busy :: "'a world_scheme \<Rightarrow> bool" where
  "worker_busy s \<longleftrightarrow> w_queue_limit s \<le> w_queue s"

section \<open>Read access to the buffer of a read\<close>

definition appendM :: "datapoint \<Rightarrow> (unit, read_op) prog" where
  "appendM p r = (case ro_append p r of Inl e \<Rightarrow> (Inl e, r) | Inr r' \<Rightarrow> (Inr (), r'))"

section \<open>Aligning a read to a regular grid\<close>

text \<open>
  Aligning \<open>next_time\<close> to the next multiple of \<open>duration\<close>, shared in wording by
  \<open>DenseFile::Read\<close> and \<open>ConstantFile::Read\<close>.
\<close>

definition align_next_time :: "int \<Rightarrow> int \<Rightarrow> int res" where
  "align_next_time next_time dur =
     bindE (mod64 next_time dur) (\<lambda>m.
       if m \<noteq> 0 then bindE (div64 next_time dur) (\<lambda>q. Inr (wrap64 (wrap64 (q + 1) * dur)))
       else Inr next_time)"

section \<open>Concrete instances\<close>

text \<open>A configuration, a file system of one file, and a read, on which theorems are instantiated.\<close>

definition demo_config :: config where
  "demo_config = default_config (\<lambda>t. (0, t))"

definition demo_posix :: "string \<Rightarrow> byte list \<Rightarrow> posix" where
  "demo_posix path bytes =
     \<lparr>fs_files = [(path, bytes)], fs_dirs = [''d''], fs_dir_size = 4096, fs_dirent_tail = '''', fs_writes = []\<rparr>"

definition demo_read :: "int \<Rightarrow> int \<Rightarrow> nat \<Rightarrow> read_op" where
  "demo_read from to n = ReadOperation from to 0 False (replicate n (Datapoint 0 0 0)) n"

lemma demo_read_simps:
  "ro_ok (demo_read from to n)" "ro_next_time (demo_read from to n) = from"
  "ro_end_time (demo_read from to n) = to" "ro_contents (demo_read from to n) = []"
  "ro_space_left (demo_read from to n) = n" "ro_cursor (demo_read from to n) = 0"
  "ro_buffer_size (demo_read from to n) = n"
  "length (ro_buffer (demo_read from to n)) = n"
  by (simp_all add: demo_read_def ReadOperation_def ro_contents_def ro_space_left_def
      ro_datapoints_in_buffer_def ro_ok_def)

end
