(* ===== verification/SparseStore.thy ===== *)
theory SparseStore
  imports World
begin

text \<open>
  \<open>sparse_file.h/.cc\<close>: append-only files of encoded datapoints.  Reading one yields, per
  timestamp, the datapoint written last (\<open>newest_in_range\<close>), as long as no datapoint
  reaches past the start of a later one; writing one appends and renames it.
\<close>

section \<open>Sparse files\<close>

text \<open>
  Among the datapoints with the timestamp of \<open>p\<close> (\<open>same\<close> follow it in the sorted vector)
  the backward scan stops at the last one that has the duration of \<open>p\<close>.
\<close>

definition pick_latest :: "datapoint \<Rightarrow> datapoint list \<Rightarrow> datapoint" where
  "pick_latest p same = hd (dropWhile (\<lambda>q. dp_duration q \<noteq> dp_duration p) (rev (p # same)))"

function sparse_copy :: "datapoint list \<Rightarrow> (unit, read_op) prog" where
  "sparse_copy [] r = (Inr (), r)"
| "sparse_copy (p # ps) r =
     (if ro_next_time r \<le> dp_timestamp p \<and> dp_timestamp p < ro_end_time r \<and>
         ro_space_left r \<noteq> 0 \<and> \<not> ro_complete r
      then let same = takeWhile (\<lambda>q. dp_timestamp q = dp_timestamp p) ps;
               rest = dropWhile (\<lambda>q. dp_timestamp q = dp_timestamp p) ps
           in (case appendM (pick_latest p same) r of
                 (Inl e, r') \<Rightarrow> (Inl e, r')
               | (Inr _, r') \<Rightarrow> sparse_copy rest r')
      else (Inr (), r))"
  by pat_completeness auto
termination
  by (relation "measure (\<lambda>(ps, r). length ps)") (auto simp: length_dropWhile_le le_imp_less_Suc)

text \<open>
  \<open>ReadValues\<close> is what \<open>read_values_aligned\<close> says it is: the whole values among the bytes
  of the file, at most as many as asked for.  Vectors of negative length throw.
\<close>

definition sparse_read ::
  "config \<Rightarrow> string \<Rightarrow> sparse_file \<Rightarrow> 'a posix_scheme \<Rightarrow> (unit, read_op) prog" where
  "sparse_read cfg dir f s r =
     (case fs_open (sparse_get_path dir f) s of
       Inl e \<Rightarrow> (Inl (IOErr ''SparseFile::Read open() failed'' e), r)
     | Inr bytes \<Rightarrow>
         (case get_file_size (sparse_get_path dir f) False s of
           Inl e \<Rightarrow> (Inl e, r)
         | Inr file_size \<Rightarrow>
             let num_points = wrap32 (int (min file_size (sparse_file_max_size cfg) div datapoint_size));
                 datapoints = dec_all datapoint_size dp_decode
                   (min (nat num_points) (length bytes div datapoint_size)) bytes;
                 sorted_points = sort_key dp_timestamp datapoints
             in if num_points < 0 then (Inl BadAlloc, r)
                else sparse_copy (dropWhile (\<lambda>p. dp_timestamp p < ro_next_time r) sorted_points) r))"

text \<open>The new \<open>max_timestamp\<close>: the loop of \<open>Write\<close> over \<open>write_op\<close>.\<close>

primrec max_timestamp_loop ::
  "nat \<Rightarrow> (nat \<Rightarrow> datapoint res) \<Rightarrow> int \<Rightarrow> nat \<Rightarrow> int \<Rightarrow> int res" where
  "max_timestamp_loop 0 value_at max_writable it acc = Inr acc"
| "max_timestamp_loop (Suc d) value_at max_writable it acc =
     bindE (value_at it) (\<lambda>p.
       max_timestamp_loop d value_at max_writable (snd (iter_pre_increment it))
         (if acc < dp_timestamp p then min (dp_timestamp p) max_writable else acc))"

definition buffer_max_timestamp :: "write_op \<Rightarrow> int \<Rightarrow> int res" where
  "buffer_max_timestamp w mx =
     (if wo_cursor w \<le> db_size (wo_buffer w)
      then max_timestamp_loop (db_size (wo_buffer w) - wo_cursor w) (db_value_at (wo_buffer w))
             (wo_max_writable_timestamp w) (wo_cursor w) mx
      else Inl OutOfBounds)"

text \<open>\<open>FileIsTooBig\<close> with \<open>StorageOptimizer::SparseFileTooBig\<close>, which queues the file.\<close>

definition sparse_file_too_big :: "string \<Rightarrow> sparse_file \<Rightarrow> (unit, 'a world_scheme) prog" where
  "sparse_file_too_big dir f s =
     (if w_queue_limit s \<le> w_queue s then (Inl WorkerThreadTooBusy, s)
      else (Inr (), s\<lparr>w_queue := w_queue s + 1, w_too_big := w_too_big s @ [(dir, f)]\<rparr>))"

definition file_is_too_big :: "string \<Rightarrow> sparse_file \<Rightarrow> 'a world_scheme \<Rightarrow> (unit res \<times> sparse_file) \<times> 'a world_scheme" where
  "file_is_too_big dir f s =
     (case sparse_file_too_big dir f s of
       (Inl e, s1) \<Rightarrow> ((Inl e, f), s1)
     | (Inr _, s1) \<Rightarrow>
         let f' = f\<lparr>sf_optimized := True\<rparr> in
         (case fs_rename (sparse_get_path dir f) (sparse_get_path dir f') s1 of
           (Inl e, s2) \<Rightarrow> ((Inl (IOErr ''SparseFile::FileIsTooBig rename() failed'' e), f'), s2)
         | (Inr _, s2) \<Rightarrow> ((Inr (), f'), s2)))"

definition sparse_finish_write ::
  "config \<Rightarrow> string \<Rightarrow> sparse_file \<Rightarrow> int \<Rightarrow> 'a world_scheme \<Rightarrow> (unit res \<times> sparse_file) \<times> 'a world_scheme" where
  "sparse_finish_write cfg dir f bmax s =
     (let f1 = (if max_timestamp f < bmax then f\<lparr>max_timestamp := bmax\<rparr> else f);
          renamed = (if max_timestamp f < bmax
                     then fs_rename (sparse_get_path dir f) (sparse_get_path dir f1) s
                     else (Inr (), s))
      in case renamed of
          (Inl e, s1) \<Rightarrow> ((Inl (IOErr ''SparseFile::Write rename() failed'' e), f1), s1)
        | (Inr _, s1) \<Rightarrow>
            if sf_optimized f1 then ((Inr (), f1), s1)
            else (case get_file_size (sparse_get_path dir f1) False s1 of
                Inl e \<Rightarrow> ((Inl e, f1), s1)
              | Inr sz \<Rightarrow>
                  if sparse_file_optimize_size cfg < sz then file_is_too_big dir f1 s1
                  else ((Inr (), f1), s1)))"

text \<open>The result is the number of datapoints written, the file object and the buffer.\<close>

definition sparse_write ::
  "config \<Rightarrow> string \<Rightarrow> write_op \<Rightarrow> sparse_file \<Rightarrow> 'a world_scheme \<Rightarrow>
     (nat res \<times> sparse_file \<times> dbuffer) \<times> 'a world_scheme" where
  "sparse_write cfg dir w f s =
     (case buffer_max_timestamp w (max_timestamp f) of
       Inl e \<Rightarrow> ((Inl e, f, wo_buffer w), s)
     | Inr bmax \<Rightarrow>
         (case fs_creat (sparse_get_path dir f) s of
           (Inl e, s1) \<Rightarrow> ((Inl (IOErr ''SparseFile::Write open() failed'' e), f, wo_buffer w), s1)
         | (Inr _, s1) \<Rightarrow>
             (case wo_get_iovector w of
               (Inl e, buf) \<Rightarrow> ((Inl e, f, buf), s1)
             | (Inr (iov, writable), buf) \<Rightarrow>
                 (case (if writable = 0 then Inr [] else collect_bytes (db_iov_bytes buf) iov) of
                   Inl e \<Rightarrow> ((Inl e, f, buf), s1)
                 | Inr chunks \<Rightarrow>
                     (case (if writable = 0 then (Inr (), s1)
                            else write_vector (sparse_get_path dir f) chunks s1) of
                       (Inl e, s2) \<Rightarrow> ((Inl e, f, buf), s2)
                     | (Inr _, s2) \<Rightarrow>
                         (case sparse_finish_write cfg dir f bmax s2 of
                           ((Inl e, f'), s3) \<Rightarrow> ((Inl e, f', buf), s3)
                         | ((Inr _, f'), s3) \<Rightarrow> ((Inr writable, f', buf), s3)))))))"

definition sparse_remaining_writable_datapoints ::
  "config \<Rightarrow> string \<Rightarrow> sparse_file \<Rightarrow> 'a posix_scheme \<Rightarrow> nat res" where
  "sparse_remaining_writable_datapoints cfg dir f s =
     bindE (get_file_size (sparse_get_path dir f) False s) (\<lambda>filesize.
       Inr (if filesize < sparse_file_max_size cfg
            then (sparse_file_max_size cfg - filesize) div datapoint_size else 0))"

section \<open>What a read of a sparse file returns\<close>

text \<open>The datapoints the copy loop would return, given room for all of them.\<close>

function latest_points :: "datapoint list \<Rightarrow> datapoint list" where
  "latest_points [] = []"
| "latest_points (p # ps) =
     pick_latest p (takeWhile (\<lambda>q. dp_timestamp q = dp_timestamp p) ps) #
     latest_points (dropWhile (\<lambda>q. dp_timestamp q = dp_timestamp p) ps)"
  by pat_completeness auto
termination
  by (relation "measure length") (auto simp: length_dropWhile_le le_imp_less_Suc)

text \<open>Every datapoint ends before the next later one starts, without overflow.\<close>

definition disjoint_points :: "datapoint list \<Rightarrow> bool" where
  "disjoint_points ps \<longleftrightarrow>
     list_all (\<lambda>p. i64_ok (dp_next p) \<and>
       list_all (\<lambda>q. dp_timestamp p < dp_timestamp q \<longrightarrow> dp_next p \<le> dp_timestamp q) ps) ps"

text \<open>Datapoints of one timestamp have one duration.\<close>

definition one_duration :: "datapoint list \<Rightarrow> bool" where
  "one_duration ps \<longleftrightarrow>
     list_all (\<lambda>p. list_all (\<lambda>q. dp_timestamp p = dp_timestamp q \<longrightarrow> dp_duration p = dp_duration q) ps) ps"

lemma pick_latest_in: "pick_latest p same \<in> set (p # same)"
proof -
  have "\<exists>q \<in> set (rev (p # same)). \<not> dp_duration q \<noteq> dp_duration p" by simp
  then have "dropWhile (\<lambda>q. dp_duration q \<noteq> dp_duration p) (rev (p # same)) \<noteq> []"
    by (auto simp: dropWhile_eq_Nil_conv)
  then have "pick_latest p same \<in> set (dropWhile (\<lambda>q. dp_duration q \<noteq> dp_duration p) (rev (p # same)))"
    unfolding pick_latest_def by (rule hd_in_set)
  then have "pick_latest p same \<in> set (rev (p # same))" by (rule set_dropWhileD)
  then show ?thesis by simp
qed

lemma pick_latest_duration: "dp_duration (pick_latest p same) = dp_duration p"
proof -
  have "dropWhile (\<lambda>q. dp_duration q \<noteq> dp_duration p) (rev (p # same)) \<noteq> []"
    by (auto simp: dropWhile_eq_Nil_conv)
  then show ?thesis unfolding pick_latest_def by (drule_tac hd_dropWhile) simp
qed

lemma pick_latest_last:
  "\<forall>q \<in> set same. dp_duration q = dp_duration p \<Longrightarrow> pick_latest p same = last (p # same)"
  unfolding pick_latest_def by (cases same rule: rev_cases) auto

text \<open>The head group of a list and its timestamps.\<close>

lemma pick_latest_head:
  "dp_timestamp (pick_latest p (takeWhile (\<lambda>q. dp_timestamp q = dp_timestamp p) ps)) = dp_timestamp p"
  using pick_latest_in [of p "takeWhile (\<lambda>q. dp_timestamp q = dp_timestamp p) ps"]
  by (auto dest: set_takeWhileD)

lemma sorted_rest_later:
  assumes "sorted (map dp_timestamp (p # ps))"
    and "q \<in> set (dropWhile (\<lambda>q. dp_timestamp q = dp_timestamp p) ps)"
  shows "dp_timestamp p < dp_timestamp q"
  using assms
proof (induction ps)
  case (Cons x ps)
  then show ?case by (auto split: if_splits)
qed simp

lemma sorted_map_dropWhile: "sorted (map f xs) \<Longrightarrow> sorted (map f (dropWhile P xs))"
  by (induction xs) auto

lemma disjoint_points_subset: "disjoint_points ps \<Longrightarrow> set qs \<subseteq> set ps \<Longrightarrow> disjoint_points qs"
  unfolding disjoint_points_def list_all_iff by (blast dest: subsetD)

lemma one_duration_subset: "one_duration ps \<Longrightarrow> set qs \<subseteq> set ps \<Longrightarrow> one_duration qs"
  unfolding one_duration_def list_all_iff by (blast dest: subsetD)

text \<open>Whatever the datapoints, the copy stays inside the buffer it was given.\<close>

lemma appendM_room:
  assumes "ro_ok r" and "ro_space_left r \<noteq> 0"
  obtains r' where "appendM p r = (Inr (), r')" and "ro_ok r'" and "same_request r r'"
    and "ro_contents r' = ro_contents r @ [p]" and "ro_next_time r' = wrap64 (dp_next p)"
    and "ro_space_left r' = ro_space_left r - 1"
proof -
  from assms obtain r' where r': "ro_append p r = Inr r'" "ro_ok r'"
    using ro_append_room [of r p] by auto
  have "ro_space_left r' = ro_space_left r - 1"
    using assms r' by (auto simp: ro_append_Inr)
  with r' ro_append_contents [OF r'(1)] show ?thesis
    by (intro that [of r']) (simp_all add: appendM_def)
qed

lemma sparse_copy_safe:
  "ro_ok r \<Longrightarrow> sorted (map dp_timestamp ps) \<Longrightarrow>
     \<exists>r'. sparse_copy ps r = (Inr (), r') \<and> ro_ok r' \<and> same_request r r' \<and>
     (\<exists>qs. ro_contents r' = ro_contents r @ qs \<and> set qs \<subseteq> set ps \<and>
        list_all (\<lambda>q. dp_timestamp q < ro_end_time r) qs \<and> sorted_wrt (<) (map dp_timestamp qs))"
proof (induction ps r rule: sparse_copy.induct)
  case (2 p ps r)
  let ?same = "takeWhile (\<lambda>q. dp_timestamp q = dp_timestamp p) ps"
  let ?rest = "dropWhile (\<lambda>q. dp_timestamp q = dp_timestamp p) ps"
  let ?g = "ro_next_time r \<le> dp_timestamp p \<and> dp_timestamp p < ro_end_time r \<and>
         ro_space_left r \<noteq> 0 \<and> \<not> ro_complete r"
  show ?case
  proof (cases ?g)
    case True
    then obtain r1 where r1: "appendM (pick_latest p ?same) r = (Inr (), r1)" "ro_ok r1" "same_request r r1"
      "ro_contents r1 = ro_contents r @ [pick_latest p ?same]"
      using appendM_room [OF "2.prems"(1)] True by blast
    have "sorted (map dp_timestamp ?rest)" using "2.prems"(2) by (simp add: sorted_map_dropWhile)
    from "2.IH" [OF True refl refl r1(1)[symmetric] refl r1(2) this]
    obtain r' qs where r': "sparse_copy ?rest r1 = (Inr (), r')" "ro_ok r'" "same_request r1 r'"
      "ro_contents r' = ro_contents r1 @ qs" "set qs \<subseteq> set ?rest"
      "list_all (\<lambda>q. dp_timestamp q < ro_end_time r1) qs" "sorted_wrt (<) (map dp_timestamp qs)" by blast
    have "sorted_wrt (<) (map dp_timestamp (pick_latest p ?same # qs))"
      using r'(5,7) sorted_rest_later [OF "2.prems"(2)] by (auto simp: pick_latest_head)
    moreover have "set (pick_latest p ?same # qs) \<subseteq> set (p # ps)"
      using pick_latest_in [of p ?same] r'(5) by (auto dest: set_takeWhileD set_dropWhileD)
    moreover have "list_all (\<lambda>q. dp_timestamp q < ro_end_time r) (pick_latest p ?same # qs)"
      using r'(6) r1(3) True by (simp add: pick_latest_head same_request_def)
    ultimately show ?thesis
      using True r1 r' same_request_trans [OF r1(3) r'(3)]
      by (auto simp: Let_def intro!: exI [of _ "pick_latest p ?same # qs"])
  next
    case False
    with "2.prems" show ?thesis by (intro exI [of _ r]) (auto intro: exI [of _ "[]"])
  qed
qed auto

lemma group_filter:
  fixes f :: "'a \<Rightarrow> 'k :: linorder"
  assumes "sorted (map f (p # ps))" and "f p < e"
  shows "takeWhile (\<lambda>q. f q = f p) (filter (\<lambda>q. f q < e) ps) = takeWhile (\<lambda>q. f q = f p) ps"
    and "dropWhile (\<lambda>q. f q = f p) (filter (\<lambda>q. f q < e) ps) = filter (\<lambda>q. f q < e) (dropWhile (\<lambda>q. f q = f p) ps)"
proof -
  have "takeWhile (\<lambda>q. f q = f p) (filter (\<lambda>q. f q < e) ps) = takeWhile (\<lambda>q. f q = f p) ps \<and>
     dropWhile (\<lambda>q. f q = f p) (filter (\<lambda>q. f q < e) ps) = filter (\<lambda>q. f q < e) (dropWhile (\<lambda>q. f q = f p) ps)"
    using assms
  proof (induction ps)
    case (Cons a ps)
    show ?case
    proof (cases "f a < e")
      case True
      with Cons show ?thesis by auto
    next
      case False
      with Cons.prems have "filter (\<lambda>q. f q < e) ps = []" by (auto simp: filter_empty_conv)
      with False Cons.prems show ?thesis by auto
    qed
  qed simp
  then show "takeWhile (\<lambda>q. f q = f p) (filter (\<lambda>q. f q < e) ps) = takeWhile (\<lambda>q. f q = f p) ps"
    and "dropWhile (\<lambda>q. f q = f p) (filter (\<lambda>q. f q < e) ps) = filter (\<lambda>q. f q < e) (dropWhile (\<lambda>q. f q = f p) ps)"
    by simp_all
qed

lemma sparse_copy_latest:
  assumes "ro_ok r" and "sorted (map dp_timestamp ps)" and "disjoint_points ps"
    and "list_all (\<lambda>p. ro_next_time r \<le> dp_timestamp p) ps"
  shows "\<exists>r'. sparse_copy ps r = (Inr (), r') \<and> ro_ok r' \<and> same_request r r' \<and>
     ro_contents r' = ro_contents r @
       take (ro_space_left r) (latest_points (filter (\<lambda>p. dp_timestamp p < ro_end_time r) ps))"
  using assms
proof (induction ps r rule: sparse_copy.induct)
  case (2 p ps r)
  let ?P = "\<lambda>q. dp_timestamp q = dp_timestamp p"
  let ?same = "takeWhile ?P ps" and ?rest = "dropWhile ?P ps"
  let ?before = "\<lambda>q. dp_timestamp q < ro_end_time r"
  show ?case
  proof (cases "?before p \<and> ro_space_left r \<noteq> 0")
    case True
    let ?x = "pick_latest p ?same"
    have x: "?x \<in> set (p # ps)" "dp_timestamp ?x = dp_timestamp p"
      using pick_latest_in [of p ?same] pick_latest_head [of p ps] by (auto dest: set_takeWhileD)
    have g: "ro_next_time r \<le> dp_timestamp p \<and> ?before p \<and> ro_space_left r \<noteq> 0 \<and> \<not> ro_complete r"
      using True "2.prems" by (simp add: ro_complete_def)
    obtain r1 where r1: "appendM ?x r = (Inr (), r1)" "ro_ok r1" "same_request r r1"
      "ro_contents r1 = ro_contents r @ [?x]" "ro_next_time r1 = wrap64 (dp_next ?x)"
      "ro_space_left r1 = ro_space_left r - 1"
      using appendM_room [OF "2.prems"(1)] True by blast
    have sub: "set ?rest \<subseteq> set (p # ps)" by (auto dest: set_dropWhileD)
    have next1: "list_all (\<lambda>q. ro_next_time r1 \<le> dp_timestamp q) ?rest"
      unfolding list_all_iff
    proof
      fix q assume q: "q \<in> set ?rest"
      then have "dp_timestamp ?x < dp_timestamp q"
        using sorted_rest_later [OF "2.prems"(2)] x(2) by simp
      with q sub x(1) "2.prems"(3) show "ro_next_time r1 \<le> dp_timestamp q"
        by (auto simp: disjoint_points_def list_all_iff r1(5) wrap64_id)
    qed
    have "sorted (map dp_timestamp ?rest)" using "2.prems"(2) by (simp add: sorted_map_dropWhile)
    from "2.IH" [OF g refl refl r1(1)[symmetric] refl r1(2) this disjoint_points_subset [OF "2.prems"(3) sub] next1]
    obtain r' where r': "sparse_copy ?rest r1 = (Inr (), r')" "ro_ok r'" "same_request r1 r'"
      "ro_contents r' = ro_contents r1 @ take (ro_space_left r1)
         (latest_points (filter (\<lambda>p. dp_timestamp p < ro_end_time r1) ?rest))" by blast
    have tw: "takeWhile ?P (filter ?before ps) = ?same" "dropWhile ?P (filter ?before ps) = filter ?before ?rest"
      using group_filter [OF "2.prems"(2)] True by simp_all
    show ?thesis
      using g r1 r' tw same_request_trans [OF r1(3) r'(3)]
      by (cases "ro_space_left r") (auto simp: Let_def same_request_def)
  next
    case False
    have "filter ?before (p # ps) = [] \<or> ro_space_left r = 0"
    proof (cases "?before p")
      case True
      with False show ?thesis by simp
    next
      case False
      with "2.prems"(2) have "\<forall>q \<in> set (p # ps). \<not> ?before q" by auto
      then show ?thesis by (auto simp: filter_empty_conv)
    qed
    then have "take (ro_space_left r) (latest_points (filter ?before (p # ps))) = []" by auto
    with False "2.prems"(1) show ?thesis by auto
  qed
qed auto

lemma group_first:
  fixes f :: "'a \<Rightarrow> 'k :: linorder"
  assumes ps: "ps = same @ rest" and same: "\<forall>q \<in> set same. f q = f p" and later: "\<forall>q \<in> set rest. f p < f q"
  shows "filter (\<lambda>q. f q = f p) (p # ps) = p # same"
    and "sorted_list_of_set (f ` set (p # ps)) = f p # sorted_list_of_set (f ` set rest)"
    and "t \<in> f ` set rest \<Longrightarrow> filter (\<lambda>q. f q = t) (p # ps) = filter (\<lambda>q. f q = t) rest"
proof -
  have "filter (\<lambda>q. f q = f p) same = same" "filter (\<lambda>q. f q = f p) rest = []"
    using same later by (auto simp: filter_empty_conv)
  with ps show "filter (\<lambda>q. f q = f p) (p # ps) = p # same" by simp
  have set: "f ` set (p # ps) = insert (f p) (f ` set rest)" using ps same by auto
  have fresh: "f p \<notin> f ` set rest" using later by auto
  have "insort (f p) (sorted_list_of_set (f ` set rest)) = f p # sorted_list_of_set (f ` set rest)"
    using later by (intro insort_is_Cons) (auto simp: less_imp_le)
  with fresh show "sorted_list_of_set (f ` set (p # ps)) = f p # sorted_list_of_set (f ` set rest)"
    unfolding set by (simp add: sorted_list_of_set.sorted_key_list_of_set_insert)
  show "filter (\<lambda>q. f q = t) (p # ps) = filter (\<lambda>q. f q = t) rest" if "t \<in> f ` set rest"
  proof -
    from that later have t: "f p \<noteq> t" by auto
    with same have "\<forall>q \<in> set same. f q \<noteq> t" by metis
    then have "filter (\<lambda>q. f q = t) same = []" by (simp add: filter_empty_conv)
    with t ps show ?thesis by simp
  qed
qed

lemma latest_points_sorted:
  assumes "sorted (map dp_timestamp ps)" and "one_duration ps"
  shows "latest_points ps =
     map (\<lambda>t. last (filter (\<lambda>q. dp_timestamp q = t) ps)) (sorted_list_of_set (dp_timestamp ` set ps))"
  using assms
proof (induction ps rule: latest_points.induct)
  case (2 p ps)
  define same where "same = takeWhile (\<lambda>q. dp_timestamp q = dp_timestamp p) ps"
  define rest where "rest = dropWhile (\<lambda>q. dp_timestamp q = dp_timestamp p) ps"
  have ps: "ps = same @ rest" by (simp add: same_def rest_def)
  have same: "\<forall>q \<in> set same. dp_timestamp q = dp_timestamp p"
    unfolding same_def by (blast dest: set_takeWhileD)
  have later: "\<forall>q \<in> set rest. dp_timestamp p < dp_timestamp q"
    unfolding rest_def using sorted_rest_later [OF "2.prems"(1)] by blast
  note split = group_first [OF ps same later]
  have "one_duration rest" using ps by (intro one_duration_subset [OF "2.prems"(2)]) auto
  moreover have "sorted (map dp_timestamp rest)" using "2.prems"(1) ps by (simp add: sorted_append)
  ultimately have IH: "latest_points rest = map (\<lambda>t. last (filter (\<lambda>q. dp_timestamp q = t) rest))
      (sorted_list_of_set (dp_timestamp ` set rest))"
    using "2.IH" by (simp add: rest_def)
  have "dp_duration q = dp_duration p" if "q \<in> set same" for q
  proof -
    from that ps have "q \<in> set (p # ps)" by simp
    with "2.prems"(2) have "dp_timestamp p = dp_timestamp q \<longrightarrow> dp_duration p = dp_duration q"
      unfolding one_duration_def list_all_iff by (meson list.set_intros(1))
    moreover from same that have "dp_timestamp q = dp_timestamp p" by blast
    ultimately show ?thesis by simp
  qed
  then have "pick_latest p same = last (p # same)" by (intro pick_latest_last) blast
  then have "latest_points (p # ps) = last (p # same) # latest_points rest"
    by (simp add: same_def rest_def)
  then show ?case unfolding split(2) IH list.map split(1) using split(3) by simp
qed simp

text \<open>The specification of a read: per timestamp in range, the datapoint written last.\<close>

definition newest_in_range :: "int \<Rightarrow> int \<Rightarrow> datapoint list \<Rightarrow> datapoint list" where
  "newest_in_range from to pts =
     map (\<lambda>t. last (filter (\<lambda>p. dp_timestamp p = t) pts))
       (sorted_list_of_set (dp_timestamp ` set (filter (\<lambda>p. from \<le> dp_timestamp p \<and> dp_timestamp p < to) pts)))"

lemma latest_points_newest:
  assumes "one_duration pts"
  shows "latest_points (filter (\<lambda>p. dp_timestamp p < to)
            (filter (\<lambda>p. from \<le> dp_timestamp p) (sort_key dp_timestamp pts))) = newest_in_range from to pts"
proof -
  let ?R = "\<lambda>p. from \<le> dp_timestamp p \<and> dp_timestamp p < to"
  have "filter (\<lambda>p. dp_timestamp p < to) (filter (\<lambda>p. from \<le> dp_timestamp p) (sort_key dp_timestamp pts))
      = sort_key dp_timestamp (filter ?R pts)"
    by (simp add: filter_sort conj_commute)
  moreover have "one_duration (sort_key dp_timestamp (filter ?R pts))"
    by (rule one_duration_subset [OF assms]) auto
  moreover have "filter (\<lambda>q. dp_timestamp q = t) (sort_key dp_timestamp (filter ?R pts))
      = filter (\<lambda>q. dp_timestamp q = t) pts" if "t \<in> dp_timestamp ` set (filter ?R pts)" for t
  proof -
    have "filter (\<lambda>q. dp_timestamp q = t) (sort_key dp_timestamp (filter ?R pts))
        = filter (\<lambda>q. dp_timestamp q = t) (filter ?R pts)" by (rule sort_key_stable)
    also have "\<dots> = filter (\<lambda>q. dp_timestamp q = t) pts"
      using that by (auto intro!: filter_cong)
    finally show ?thesis .
  qed
  ultimately show ?thesis by (simp add: latest_points_sorted newest_in_range_def)
qed

section \<open>Reading a whole file\<close>

lemma fs_open_regular: "fs_stat p s = Inr (RegNode bs) \<Longrightarrow> fs_open p s = Inr bs"
  by (simp add: fs_open_def)

lemma file_size_regular: "fs_stat p s = Inr (RegNode bs) \<Longrightarrow> get_file_size p z s = Inr (length bs)"
  by (simp add: get_file_size_def)

definition sparse_contents :: "config \<Rightarrow> byte list \<Rightarrow> datapoint list" where
  "sparse_contents cfg bytes = dec_all datapoint_size dp_decode
     (min (length bytes) (sparse_file_max_size cfg) div datapoint_size) bytes"

text \<open>The limit on file sizes keeps the count of datapoints within an \<open>int\<close>.\<close>

definition config_ok :: "config \<Rightarrow> bool" where
  "config_ok cfg \<longleftrightarrow> datapoint_size \<le> sparse_file_max_size cfg \<and>
     sparse_file_max_size cfg div datapoint_size < 2147483648"

lemma sparse_read_regular:
  assumes "config_ok cfg" and "fs_stat (sparse_get_path dir f) s = Inr (RegNode bytes)"
  shows "sparse_read cfg dir f s r =
    sparse_copy (filter (\<lambda>p. ro_next_time r \<le> dp_timestamp p)
      (sort_key dp_timestamp (sparse_contents cfg bytes))) r"
proof -
  let ?n = "min (length bytes) (sparse_file_max_size cfg) div datapoint_size"
  have "?n \<le> sparse_file_max_size cfg div datapoint_size" and "?n \<le> length bytes div datapoint_size"
    by (simp_all add: div_le_mono)
  with assms(1) have "wrap32 (int ?n) = int ?n" and "min ?n (length bytes div datapoint_size) = ?n"
    by (simp_all add: wrap32_id config_ok_def)
  then show ?thesis
    by (simp add: sparse_read_def fs_open_regular [OF assms(2)] file_size_regular [OF assms(2)] Let_def
        sparse_contents_def dropWhile_less_sorted)
qed

lemma sparse_contents_encoded:
  assumes "list_all dp_ok pts" and "length pts * datapoint_size \<le> sparse_file_max_size cfg"
  shows "sparse_contents cfg (enc_all dp_encode pts) = pts"
  using assms dp.dec_all_enc_all [of pts "[]"]
  by (simp add: sparse_contents_def min_absorb1 datapoint_size_def list_all_iff)

lemma sparse_read_newest:
  assumes cfg: "config_ok cfg" and reg: "fs_stat (sparse_get_path dir f) s = Inr (RegNode bytes)"
    and r: "ro_ok r" and pts: "disjoint_points (sparse_contents cfg bytes)" "one_duration (sparse_contents cfg bytes)"
  obtains r' where "sparse_read cfg dir f s r = (Inr (), r')" and "ro_ok r'" and "same_request r r'"
    and "ro_contents r' = ro_contents r @
      take (ro_space_left r) (newest_in_range (ro_next_time r) (ro_end_time r) (sparse_contents cfg bytes))"
proof -
  let ?ps = "filter (\<lambda>p. ro_next_time r \<le> dp_timestamp p) (sort_key dp_timestamp (sparse_contents cfg bytes))"
  have "sorted (map dp_timestamp ?ps)" by (simp add: sorted_filter)
  moreover have "disjoint_points ?ps" by (rule disjoint_points_subset [OF pts(1)]) auto
  moreover have "list_all (\<lambda>p. ro_next_time r \<le> dp_timestamp p) ?ps" by (simp add: list_all_iff)
  ultimately obtain r' where "sparse_copy ?ps r = (Inr (), r')" "ro_ok r'" "same_request r r'"
    "ro_contents r' = ro_contents r @
       take (ro_space_left r) (latest_points (filter (\<lambda>p. dp_timestamp p < ro_end_time r) ?ps))"
    using sparse_copy_latest [OF r] by blast
  then show ?thesis
    using latest_points_newest [OF pts(2)] by (intro that) (simp_all add: sparse_read_regular [OF cfg reg])
qed

text \<open>
  Claim C11. A sparse file holding the encodings of valid datapoints, none of which reaches
  past the start of a later one, is read back exactly: the read succeeds, and appends to the
  buffer, in timestamp order and up to the space left, for every timestamp in the requested
  range the datapoint that was written last.
\<close>

theorem sparse_read_returns_newest:
  assumes "config_ok cfg" and "ro_ok r" and "list_all dp_ok pts"
    and "fs_stat (sparse_get_path dir f) s = Inr (RegNode (enc_all dp_encode pts))"
    and "length pts * datapoint_size \<le> sparse_file_max_size cfg"
    and "disjoint_points pts" and "one_duration pts"
  shows "\<exists>r'. sparse_read cfg dir f s r = (Inr (), r') \<and> ro_ok r' \<and> same_request r r' \<and>
    ro_contents r' = ro_contents r @
      take (ro_space_left r) (newest_in_range (ro_next_time r) (ro_end_time r) pts)"
  by (rule sparse_read_newest [OF assms(1,4,2)])
    (use assms sparse_contents_encoded [OF assms(3,5)] in auto)

lemma demo_config_ok: "config_ok demo_config"
  by (simp add: config_ok_def demo_config_def default_config_def datapoint_size_def)

theorem sparse_read_returns_newest_witness:
  "\<exists>r'. sparse_read demo_config ''d'' (SparseFile 10 20 False)
      (demo_posix ''d/10-20'' (enc_all dp_encode [Datapoint 20 1 5, Datapoint 10 2 5, Datapoint 20 3 5]))
      (demo_read 0 100 8) = (Inr (), r') \<and>
    ro_contents r' = [Datapoint 10 2 5, Datapoint 20 3 5]"
proof -
  let ?pts = "[Datapoint 20 1 5, Datapoint 10 2 5, Datapoint 20 3 5]"
  let ?s = "demo_posix ''d/10-20'' (enc_all dp_encode ?pts)"
  have path: "sparse_get_path ''d'' (SparseFile 10 20 False) = ''d/10-20''" by code_simp
  have "fs_stat ''d/10-20'' ?s = Inr (RegNode (enc_all dp_encode ?pts))"
    by (simp add: fs_stat_def demo_posix_def strip_slashes_def is_dir_def)
  moreover have "list_all dp_ok ?pts" by code_simp
  moreover have "disjoint_points ?pts" by code_simp
  moreover have "one_duration ?pts" by code_simp
  moreover have "length ?pts * datapoint_size \<le> sparse_file_max_size demo_config"
    by (simp add: datapoint_size_def demo_config_def default_config_def)
  moreover have "newest_in_range 0 100 ?pts = [Datapoint 10 2 5, Datapoint 20 3 5]" by code_simp
  ultimately show ?thesis
    using sparse_read_returns_newest [of demo_config "demo_read 0 100 8" ?pts "''d''" "SparseFile 10 20 False" ?s]
    by (auto simp: path demo_config_ok demo_read_simps)
qed

lemma sparse_read_contents:
  assumes "config_ok cfg" and "ro_ok r"
    and "fs_stat (sparse_get_path dir f) s = Inr (RegNode bytes)"
  shows "\<exists>r' qs. sparse_read cfg dir f s r = (Inr (), r') \<and> ro_ok r' \<and>
    ro_contents r' = ro_contents r @ qs \<and> set qs \<subseteq> set (sparse_contents cfg bytes) \<and>
    list_all (\<lambda>q. ro_next_time r \<le> dp_timestamp q \<and> dp_timestamp q < ro_end_time r) qs \<and>
    sorted_wrt (<) (map dp_timestamp qs)"
proof -
  let ?ps = "filter (\<lambda>p. ro_next_time r \<le> dp_timestamp p) (sort_key dp_timestamp (sparse_contents cfg bytes))"
  have "sorted (map dp_timestamp ?ps)" by (simp add: sorted_filter)
  from sparse_copy_safe [OF assms(2) this] show ?thesis
    by (fastforce simp: sparse_read_regular [OF assms(1,3)] list_all_iff)
qed

text \<open>
  Claim C37. Whatever bytes a sparse file holds, reading it raises no error and stays inside
  the caller's buffer, and what it appends are datapoints of the file within the requested
  range, in strictly increasing timestamp order.
\<close>

theorem sparse_read_safe:
  assumes "config_ok cfg" and "ro_ok r"
    and "fs_stat (sparse_get_path dir f) s = Inr (RegNode bytes)"
  shows "\<exists>r' qs. sparse_read cfg dir f s r = (Inr (), r') \<and> ro_ok r' \<and>
    ro_contents r' = ro_contents r @ qs \<and> set qs \<subseteq> set (sparse_contents cfg bytes) \<and>
    list_all (\<lambda>q. ro_next_time r \<le> dp_timestamp q \<and> dp_timestamp q < ro_end_time r) qs \<and>
    sorted_wrt (<) (map dp_timestamp qs)"
  by (rule sparse_read_contents [OF assms])

theorem sparse_read_safe_witness:
  "\<exists>r' qs. sparse_read demo_config ''d'' (SparseFile 10 20 False)
      (demo_posix ''d/10-20'' (replicate 100 255)) (demo_read 0 100 2) = (Inr (), r') \<and>
    ro_contents r' = qs \<and> sorted_wrt (<) (map dp_timestamp qs)"
proof -
  have path: "sparse_get_path ''d'' (SparseFile 10 20 False) = ''d/10-20''" by code_simp
  let ?s = "demo_posix ''d/10-20'' (replicate 100 255)"
  have "fs_stat (sparse_get_path ''d'' (SparseFile 10 20 False)) ?s = Inr (RegNode (replicate 100 255))"
    by (simp add: path fs_stat_def demo_posix_def strip_slashes_def is_dir_def)
  from sparse_read_safe [OF demo_config_ok demo_read_simps(1) this, of 0 100 2] show ?thesis
    unfolding demo_read_simps(4) append_Nil by blast
qed

text \<open>
  A datapoint that starts before an earlier one ends makes the read stop: of two
  overlapping datapoints in range only the first is returned, although there is room, and
  the read is left at the end of the first, where no later datapoint of the file is sought
  by this call.
\<close>

theorem sparse_read_drops_overlap:
  assumes "config_ok cfg" and "ro_ok r" and "2 \<le> ro_space_left r"
    and "fs_stat (sparse_get_path dir f) s = Inr (RegNode (enc_all dp_encode [Datapoint t v d, Datapoint u w e]))"
    and "dp_ok (Datapoint t v d)" and "dp_ok (Datapoint u w e)" and "48 \<le> sparse_file_max_size cfg"
    and "t < u" and "u < t + d" and "i64_ok (t + d)"
    and "ro_next_time r \<le> t" and "u < ro_end_time r"
  shows "\<exists>r'. sparse_read cfg dir f s r = (Inr (), r') \<and> ro_contents r' = ro_contents r @ [Datapoint t v d] \<and>
    ro_next_time r' = t + d \<and> 1 \<le> ro_space_left r'"
proof -
  let ?p = "Datapoint t v d" and ?q = "Datapoint u w e"
  have "sparse_contents cfg (enc_all dp_encode [?p, ?q]) = [?p, ?q]"
    using assms by (intro sparse_contents_encoded) (simp_all add: datapoint_size_def)
  then have run: "sparse_read cfg dir f s r = sparse_copy [?p, ?q] r"
    using assms by (simp only: sparse_read_regular [OF assms(1,4)]) (simp add: Datapoint_def)
  obtain r' where r': "appendM ?p r = (Inr (), r')" "ro_ok r'" "same_request r r'"
    "ro_contents r' = ro_contents r @ [?p]" "ro_next_time r' = wrap64 (dp_next ?p)"
    "ro_space_left r' = ro_space_left r - 1"
    using appendM_room [OF assms(2), of ?p] assms(3) by auto
  have next1: "ro_next_time r' = t + d"
    using assms r'(5) by (simp add: dp_next_def Datapoint_def wrap64_id)
  have "sparse_copy [?p, ?q] r = (Inr (), r')"
    using assms r' next1 by (simp add: Datapoint_def pick_latest_def ro_complete_def)
  with run next1 r' assms(3) show ?thesis by simp
qed

theorem sparse_read_drops_overlap_witness:
  "\<exists>r'. sparse_read demo_config ''d'' (SparseFile 10 15 False)
      (demo_posix ''d/10-15'' (enc_all dp_encode [Datapoint 10 1 10, Datapoint 15 2 10]))
      (demo_read 0 100 8) = (Inr (), r') \<and> ro_contents r' = [Datapoint 10 1 10]"
proof -
  have path: "sparse_get_path ''d'' (SparseFile 10 15 False) = ''d/10-15''" by code_simp
  have "fs_stat ''d/10-15'' (demo_posix ''d/10-15'' bs) = Inr (RegNode bs)" for bs
    by (simp add: fs_stat_def demo_posix_def strip_slashes_def is_dir_def)
  moreover have "dp_ok (Datapoint 10 1 10)" "dp_ok (Datapoint 15 2 10)" by code_simp+
  moreover have "48 \<le> sparse_file_max_size demo_config" by (simp add: demo_config_def default_config_def)
  moreover have "i64_ok (10 + 10)" by code_simp
  ultimately show ?thesis
    using sparse_read_drops_overlap [of demo_config "demo_read 0 100 8" "''d''" "SparseFile 10 15 False" _ 10 1 10 15 2 10]
    by (fastforce simp: path demo_config_ok demo_read_simps)
qed

section \<open>Writing\<close>

text \<open>No directory below \<open>dir\<close>.\<close>

definition leaf_dir :: "string \<Rightarrow> 'a posix_scheme \<Rightarrow> bool" where
  "leaf_dir dir s \<longleftrightarrow> list_all (\<lambda>d. \<not> prefix (dir @ ''/'') d) (fs_dirs s)"

lemma to_string_last: "\<exists>ds c. to_string n = ds @ [c] \<and> c \<noteq> CHR ''/''"
proof -
  obtain ys c where ys: "string_of_nat (nat \<bar>n\<bar>) = ys @ [c]"
    by (cases "string_of_nat (nat \<bar>n\<bar>)" rule: rev_cases) auto
  with string_of_nat_digits [of "nat \<bar>n\<bar>"] have "c \<noteq> CHR ''/''" by (auto simp: is_digit_def)
  with ys show ?thesis by (cases "n < 0") (auto simp: to_string_def)
qed

lemma sparse_path_last: "\<exists>p c. sparse_get_path dir f = p @ [c] \<and> c \<noteq> CHR ''/''"
proof (cases "sf_optimized f")
  case True
  then show ?thesis
    by (intro exI [of _ "dir @ ''/'' @ to_string (min_timestamp f) @ ''-'' @ to_string (max_timestamp f) @ ''.op''"])
      (simp add: sparse_get_path_def sparse_basename_def SPARSE_OPT_SUFFIX_def)
next
  case False
  obtain ds c where "to_string (max_timestamp f) = ds @ [c]" "c \<noteq> CHR ''/''"
    using to_string_last by blast
  then show ?thesis using False
    by (intro exI [of _ "dir @ ''/'' @ to_string (min_timestamp f) @ ''-'' @ ds"])
      (auto simp: sparse_get_path_def sparse_basename_def)
qed

lemma sparse_path_not_dir: "leaf_dir dir s \<Longrightarrow> \<not> is_dir (strip_slashes (sparse_get_path dir f)) s"
proof -
  assume leaf: "leaf_dir dir s"
  have "strip_slashes (sparse_get_path dir f) = sparse_get_path dir f"
    using sparse_path_last [of dir f] by (auto simp: strip_slashes_def)
  with leaf show ?thesis
    by (auto simp: is_dir_def leaf_dir_def list_all_iff sparse_get_path_def)
qed

lemma fs_stat_sparse: "leaf_dir dir s \<Longrightarrow> file_at (sparse_get_path dir f) s = Some bs \<Longrightarrow>
   fs_stat (sparse_get_path dir f) s = Inr (RegNode bs)"
  using sparse_path_not_dir [of dir s f] by (auto simp: fs_stat_def file_at_def sparse_get_path_def)

text \<open>The new maximum is at least every timestamp of the buffer, cut off at the limit.\<close>

lemma max_timestamp_loop_bound:
  "max_timestamp_loop d va lim it acc = Inr m \<Longrightarrow>
     min acc lim \<le> m \<and> (\<forall>i < d. \<exists>p. va (it + i) = Inr p \<and> min (dp_timestamp p) lim \<le> m)"
proof (induction d arbitrary: it acc)
  case (Suc d)
  then obtain p where p: "va it = Inr p"
    and "max_timestamp_loop d va lim (Suc it) (if acc < dp_timestamp p then min (dp_timestamp p) lim else acc) = Inr m"
    by (auto simp: bindE_eq_Inr iter_pre_increment_def)
  from Suc.IH [OF this(2)] have IH:
    "min (if acc < dp_timestamp p then min (dp_timestamp p) lim else acc) lim \<le> m"
    "\<forall>i < d. \<exists>p. va (Suc it + i) = Inr p \<and> min (dp_timestamp p) lim \<le> m" by blast+
  have "\<exists>p. va (it + i) = Inr p \<and> min (dp_timestamp p) lim \<le> m" if "i < Suc d" for i
    using that IH p by (cases i) (auto simp: min_def split: if_splits)
  with IH(1) show ?case by (auto simp: min_def split: if_splits)
qed simp

lemma max_timestamp_loop_le:
  "max_timestamp_loop d va lim it acc = Inr m \<Longrightarrow> m \<le> max acc lim"
proof (induction d arbitrary: it acc)
  case (Suc d)
  from Suc.prems obtain p where "va it = Inr p" and "max_timestamp_loop d va lim (Suc it) (if acc < dp_timestamp p then min (dp_timestamp p) lim else acc) = Inr m"
    by (auto simp: bindE_eq_Inr iter_pre_increment_def)
  from Suc.IH [OF this(2)] show ?case by (auto split: if_splits)
qed simp

lemma max_timestamp_loop_returns:
  "(\<And>i. i < d \<Longrightarrow> \<exists>p. va (it + i) = Inr p) \<Longrightarrow> \<exists>m. max_timestamp_loop d va lim it acc = Inr m"
proof (induction d arbitrary: it acc)
  case (Suc d)
  from Suc.prems [of 0] obtain p where "va it = Inr p" by auto
  moreover have "\<exists>m. max_timestamp_loop d va lim (Suc it) acc' = Inr m" for acc'
    using Suc.prems [of "Suc i" for i] by (intro Suc.IH) simp
  ultimately show ?case by (simp add: iter_pre_increment_def)
qed simp

lemma buffer_max_timestamp_rest:
  assumes "wo_ok w"
  obtains m where "buffer_max_timestamp w mx = Inr m"
    and "\<forall>p \<in> set (wo_rest w). min (dp_timestamp p) (wo_max_writable_timestamp w) \<le> m"
proof -
  let ?b = "wo_buffer w" and ?c = "wo_cursor w" and ?lim = "wo_max_writable_timestamp w"
  from assms have ok: "db_ok ?b" "?c \<le> db_size ?b" by (simp_all add: wo_ok_def)
  have va: "db_value_at ?b (?c + i) = Inr (wo_rest w ! i)" if "i < db_size ?b - ?c" for i
    using that ok any_buf.value_at_points [OF ok(1), of "?c + i"] any_buf.buf_size_points [OF ok(1)]
    by (simp add: wo_rest_def)
  then obtain m where m: "max_timestamp_loop (db_size ?b - ?c) (db_value_at ?b) ?lim ?c mx = Inr m"
    using max_timestamp_loop_returns [of "db_size ?b - ?c" "db_value_at ?b" ?c] by blast
  have "\<forall>p \<in> set (wo_rest w). min (dp_timestamp p) ?lim \<le> m"
  proof
    fix p assume "p \<in> set (wo_rest w)"
    then obtain i where i: "i < length (wo_rest w)" "p = wo_rest w ! i" by (auto simp: in_set_conv_nth)
    then have "i < db_size ?b - ?c" using any_buf.buf_size_points [OF ok(1)] by (simp add: wo_rest_def)
    with max_timestamp_loop_bound [OF m] va [OF this] i(2) show "min (dp_timestamp p) ?lim \<le> m" by auto
  qed
  with m ok show ?thesis by (intro that) (simp_all add: buffer_max_timestamp_def)
qed

lemma buffer_max_timestamp_le: "buffer_max_timestamp w mx = Inr m \<Longrightarrow> m \<le> max mx (wo_max_writable_timestamp w)"
  by (auto simp: buffer_max_timestamp_def dest: max_timestamp_loop_le split: if_splits)

text \<open>A file the optimiser has not been given, whose name the scan of a directory can read.\<close>

definition plain_sparse :: "sparse_file \<Rightarrow> bool" where
  "plain_sparse f \<longleftrightarrow> i64_ok (min_timestamp f) \<and> i64_ok (max_timestamp f) \<and> \<not> sf_optimized f"

lemma files_distinct_queue [simp]:
  "files_distinct (s\<lparr>w_queue := n, w_too_big := fs\<rparr>) = files_distinct s"
  by (simp add: files_distinct_def)

lemma files_distinct_finish_write [files_distinct]:
  "sparse_finish_write cfg dir f bmax s = (x, s') \<Longrightarrow> files_distinct s \<Longrightarrow> files_distinct s'"
  by (auto simp: sparse_finish_write_def file_is_too_big_def sparse_file_too_big_def Let_def
      split: if_splits sum.splits prod.splits dest!: files_distinct_calls(3))

lemma files_distinct_sparse_write [files_distinct]:
  assumes "sparse_write cfg dir w f s = (x, s')" and "files_distinct s"
  shows "files_distinct s'"
  using assms by (auto simp: sparse_write_def Let_def split: sum.splits prod.splits if_splits
      dest!: files_distinct_finish_write intro: files_distinct_calls)

text \<open>The rename, and what remains to be decided after it.\<close>

lemma sparse_finish_write_cases:
  assumes "leaf_dir dir s" and "file_at (sparse_get_path dir f) s = Some c"
  obtains f' s' where "sparse_finish_write cfg dir f bmax s =
      (if sf_optimized f \<or> length c \<le> sparse_file_optimize_size cfg then ((Inr (), f'), s')
       else file_is_too_big dir f' s')"
    and "f' = f\<lparr>max_timestamp := max (max_timestamp f) bmax\<rparr>"
    and "file_at (sparse_get_path dir f') s' = Some c"
    and "\<And>q. q \<noteq> sparse_get_path dir f' \<Longrightarrow>
           file_at q s' = (if q = sparse_get_path dir f then None else file_at q s)"
    and "fs_dirs s' = fs_dirs s" and "w_queue s' = w_queue s" and "w_queue_limit s' = w_queue_limit s"
    and "fs_writes s' = fs_writes s"
proof (cases "max_timestamp f < bmax")
  case True
  let ?f' = "f\<lparr>max_timestamp := bmax\<rparr>"
  obtain s' where s': "fs_rename (sparse_get_path dir f) (sparse_get_path dir ?f') s = (Inr (), s')"
    using fs_rename_Inr [of "sparse_get_path dir f"] assms(2) by auto
  then have q: "w_queue s' = w_queue s" "w_queue_limit s' = w_queue_limit s"
    by (auto simp: fs_rename_def split: option.splits if_splits)
  note at = file_at_rename [OF s']
  have "fs_stat (sparse_get_path dir ?f') s' = Inr (RegNode c)"
    using assms(1,2) at [of "sparse_get_path dir ?f'"] same_dirs(2) [OF s']
    by (intro fs_stat_sparse) (simp_all add: leaf_dir_def)
  from file_size_regular [OF this] True s' at assms(2) same_dirs(2) [OF s'] q writes_calls(1) [OF s'] show ?thesis
    by (intro that [of ?f' s']) (auto simp: sparse_finish_write_def Let_def)
next
  case False
  have "fs_stat (sparse_get_path dir f) s = Inr (RegNode c)" using assms by (intro fs_stat_sparse)
  from file_size_regular [OF this] False assms(2) show ?thesis
    by (intro that [of f s]) (auto simp: sparse_finish_write_def)
qed

text \<open>What a write from the start of a write buffer puts into the file.\<close>

definition writable_sorted :: "write_op \<Rightarrow> datapoint list" where
  "writable_sorted w = take (wo_max_writable_datapoints w)
     (filter (\<lambda>p. dp_timestamp p \<le> wo_max_writable_timestamp w)
       (sort_key dp_timestamp (db_points (wo_buffer w))))"

text \<open>
  A write operation at the start of a well-formed write buffer whose flag is right, with
  counts that fit an \<open>int\<close>.
\<close>

definition flush_ok :: "write_op \<Rightarrow> bool" where
  "flush_ok w \<longleftrightarrow> wo_cursor w = 0 \<and> (case wo_buffer w of RawBuf _ \<Rightarrow> False | WBuf b \<Rightarrow>
     wb_ok b \<and> wb_sorted_ok b \<and>
     wo_max_writable_datapoints w div wb_datapoints_per_alloc b < 2147483647 \<and>
     wb_num_datapoints b div wb_datapoints_per_alloc b < 2147483647)"

lemma db_iov_bytes_WBuf: "db_iov_bytes (WBuf b) = wb_iov_bytes b"
  by (rule ext) (simp add: db_iov_bytes_def)

lemma flush_iovector:
  assumes "flush_ok w"
  obtains iov buf chunks where "wo_get_iovector w = (Inr (iov, length (writable_sorted w)), buf)"
    and "writable_sorted w \<noteq> [] \<Longrightarrow> collect_bytes (db_iov_bytes buf) iov = Inr chunks"
    and "concat chunks = enc_all dp_encode (writable_sorted w)"
proof -
  from assms obtain b where b: "wo_buffer w = WBuf b" and ok: "wb_ok b" "wb_sorted_ok b"
    "wo_max_writable_datapoints w div wb_datapoints_per_alloc b < 2147483647"
    "wb_num_datapoints b div wb_datapoints_per_alloc b < 2147483647" and c: "wo_cursor w = 0"
    by (auto simp: flush_ok_def split: dbuffer.splits)
  let ?m = "wo_max_writable_datapoints w" and ?t = "wo_max_writable_timestamp w"
  let ?P = "\<lambda>p. dp_timestamp p \<le> ?t"
  let ?k = "min ?m (length (filter ?P (wb_points b)))"
  obtain iov chunks where r: "wb_get_iovector 0 ?m ?t b = (Inr (iov, ?k), if wb_num_datapoints b = 0 then b else wb_ordered b)"
    "collect_bytes (wb_iov_bytes (wb_ordered b)) iov = Inr chunks"
    "concat chunks = enc_all dp_encode (take ?k (sort_key dp_timestamp (wb_points b)))"
    using wb_get_iovector_start [OF ok(1,2) refl ok(3,4) refl] by blast
  have w: "writable_sorted w = take ?k (sort_key dp_timestamp (wb_points b))"
  proof -
    have "filter ?P (sort_key dp_timestamp (wb_points b)) = takeWhile ?P (sort_key dp_timestamp (wb_points b))"
      by (simp add: takeWhile_le_sorted)
    also have "\<dots> = take (length (takeWhile ?P (sort_key dp_timestamp (wb_points b)))) (sort_key dp_timestamp (wb_points b))"
      by (rule takeWhile_eq_take)
    also have "length (takeWhile ?P (sort_key dp_timestamp (wb_points b))) = length (filter ?P (wb_points b))"
      by (simp add: takeWhile_le_sorted length_filter_sort_key)
    finally show ?thesis by (simp add: writable_sorted_def b db_points_def)
  qed
  have "length (filter ?P (wb_points b)) \<le> length (wb_points b)" by (rule length_filter_le)
  then have len: "length (writable_sorted w) = ?k" unfolding w length_take length_sort by linarith
  let ?buf = "WBuf (if wb_num_datapoints b = 0 then b else wb_ordered b)"
  have empty: "writable_sorted w = []" if "wb_num_datapoints b = 0"
    using that by (simp add: writable_sorted_def b db_points_def wb_points_def)
  show ?thesis
  proof (rule that [of iov ?buf chunks])
    show "wo_get_iovector w = (Inr (iov, length (writable_sorted w)), ?buf)"
      by (simp add: wo_get_iovector_def b c db_get_iovector_def r(1) len)
    show "collect_bytes (db_iov_bytes ?buf) iov = Inr chunks" if "writable_sorted w \<noteq> []"
      using that empty r(2) by (auto simp: db_iov_bytes_WBuf )
    show "concat chunks = enc_all dp_encode (writable_sorted w)" by (simp add: r(3) w)
  qed
qed

lemma flush_wo_ok: "flush_ok w \<Longrightarrow> wo_ok w"
  by (auto simp: flush_ok_def wo_ok_def db_ok_def split: dbuffer.splits)

text \<open>
  The file before and after the datapoints are written to it: either all of them are there, or a
  prefix of them and the write has failed.
\<close>

lemma sparse_write_flush_cases:
  assumes w: "flush_ok w" and leaf: "leaf_dir dir s"
    and creat: "fs_creat (sparse_get_path dir f) s = (Inr (), s1)"
    and old: "old = (case file_at (sparse_get_path dir f) s of None \<Rightarrow> [] | Some bs \<Rightarrow> bs)"
    and new: "new = old @ enc_all dp_encode (writable_sorted w)"
  obtains f' buf s' bmax where "sparse_write cfg dir w f s =
      (if sf_optimized f \<or> length new \<le> sparse_file_optimize_size cfg
       then ((Inr (length (writable_sorted w)), f', buf), s')
       else (case file_is_too_big dir f' s' of
           ((Inl e, g), t) \<Rightarrow> ((Inl e, g, buf), t)
         | ((Inr _, g), t) \<Rightarrow> ((Inr (length (writable_sorted w)), g, buf), t)))"
    and "buffer_max_timestamp w (max_timestamp f) = Inr bmax"
    and "f' = f\<lparr>max_timestamp := max (max_timestamp f) bmax\<rparr>"
    and "\<forall>p \<in> set (writable_sorted w). dp_timestamp p \<le> max_timestamp f'"
    and "file_at (sparse_get_path dir f') s' = Some new"
    and "\<And>q. q \<noteq> sparse_get_path dir f' \<Longrightarrow>
           file_at q s' = (if q = sparse_get_path dir f then None else file_at q s)"
    and "fs_dirs s' = fs_dirs s" and "w_queue s' = w_queue s" and "w_queue_limit s' = w_queue_limit s"
    and "writes_ok s \<Longrightarrow> writes_ok s'"
  | buf s' err n where "sparse_write cfg dir w f s = ((Inl (IOErr ''WriteVector writev() failed'' err), f, buf), s')"
    and "Failed err \<in> set (fs_writes s)" and "\<not> writes_ok s"
    and "file_at (sparse_get_path dir f) s' = Some (old @ take n (enc_all dp_encode (writable_sorted w)))"
    and "\<And>q. q \<noteq> sparse_get_path dir f \<Longrightarrow> file_at q s' = file_at q s"
proof -
  note outcome = that
  let ?path = "sparse_get_path dir f" and ?ws = "writable_sorted w"
  obtain bmax where bmax: "buffer_max_timestamp w (max_timestamp f) = Inr bmax"
    "\<forall>p \<in> set (wo_rest w). min (dp_timestamp p) (wo_max_writable_timestamp w) \<le> bmax"
    using buffer_max_timestamp_rest [OF flush_wo_ok [OF w]] by blast
  obtain iov buf chunks where iov: "wo_get_iovector w = (Inr (iov, length ?ws), buf)"
    "?ws \<noteq> [] \<Longrightarrow> collect_bytes (db_iov_bytes buf) iov = Inr chunks"
    "concat chunks = enc_all dp_encode ?ws" using flush_iovector [OF w] by blast
  have at1: "file_at q s1 = (if q = ?path then Some old else file_at q s)" for q
    using file_at_creat [OF creat, of q] old by (auto split: option.splits)
  have queue1: "w_queue s1 = w_queue s" "w_queue_limit s1 = w_queue_limit s"
    using creat by (auto simp: fs_creat_def split: option.splits if_splits)
  have writes1: "fs_writes s1 = fs_writes s" by (rule writes_calls(2) [OF creat])
  have dirs1: "fs_dirs s1 = fs_dirs s" by (rule same_dirs(3) [OF creat])
  have keeps: "w_queue s2 = w_queue s1" "w_queue_limit s2 = w_queue_limit s1"
    if "write_vector ?path chunks s1 = (r, s2)" for r s2
    using that by (auto simp: write_vector_def fs_append_def split: option.splits prod.splits)
  have written: thesis
    if run: "(if ?ws = [] then (Inr (), s1) else write_vector ?path chunks s1) = (Inr (), s2)"
      and at: "file_at ?path s2 = Some new" "\<And>q. q \<noteq> ?path \<Longrightarrow> file_at q s2 = file_at q s1"
      and dirs: "fs_dirs s2 = fs_dirs s1" and ok: "writes_ok s1 \<Longrightarrow> writes_ok s2" for s2
  proof -
    have leaf2: "leaf_dir dir s2" using leaf dirs dirs1 by (simp add: leaf_dir_def)
    have queue2: "w_queue s2 = w_queue s" "w_queue_limit s2 = w_queue_limit s"
      using run keeps queue1 by (auto split: if_splits)
    from leaf2 at(1) show thesis
    proof (rule sparse_finish_write_cases [where cfg = cfg and bmax = bmax], goal_cases)
      case (1 f' s')
      have "dp_timestamp p \<le> max_timestamp f'" if "p \<in> set ?ws" for p
      proof -
        from that have "p \<in> set (wo_rest w)" "dp_timestamp p \<le> wo_max_writable_timestamp w"
          using w by (auto simp: writable_sorted_def wo_rest_def flush_ok_def dest!: in_set_takeD)
        with bmax(2) 1(2) show ?thesis by auto
      qed
      moreover have "sparse_write cfg dir w f s =
        (case sparse_finish_write cfg dir f bmax s2 of
             ((Inl e, g), t) \<Rightarrow> ((Inl e, g, buf), t)
           | ((Inr _, g), t) \<Rightarrow> ((Inr (length ?ws), g, buf), t))"
        using creat bmax(1) iov(1,2) run
        by (cases "?ws = []") (auto simp: sparse_write_def split: prod.splits sum.splits)
      moreover have "writes_ok s \<Longrightarrow> writes_ok s'" using ok 1(8) writes1 by (simp add: writes_ok_def)
      ultimately show ?case using 1(2-) bmax(1) dirs dirs1 at at1 queue2 unfolding 1(1)
        by (intro outcome(1) [of f' buf s' bmax]) auto
    qed
  qed
  show ?thesis
  proof (cases "?ws = []")
    case True
    with at1 new show ?thesis by (intro written [of s1]) simp_all
  next
    case False
    have "file_at ?path s1 = Some old" using at1 by simp
    then show ?thesis
    proof (cases rule: write_vector_cases [where iov = chunks])
      case (1 s2)
      with False new iov(3) show ?thesis by (intro written [of s2]) simp_all
    next
      case (2 s2 err n)
      have "sparse_write cfg dir w f s = ((Inl (IOErr ''WriteVector writev() failed'' err), f, buf), s2)"
        using creat bmax(1) iov(1,2) 2(1) False by (simp add: sparse_write_def)
      with 2 writes1 at1 iov(3) show ?thesis by (intro outcome(2) [where buf = buf and s' = s2 and err = err and n = n]) (simp_all add: writes_ok_def)
    qed
  qed
qed

lemma sparse_write_flush:
  assumes w: "flush_ok w" and leaf: "leaf_dir dir s" and granted: "writes_ok s"
    and creat: "fs_creat (sparse_get_path dir f) s = (Inr (), s1)"
    and old: "old = (case file_at (sparse_get_path dir f) s of None \<Rightarrow> [] | Some bs \<Rightarrow> bs)"
    and new: "new = old @ enc_all dp_encode (writable_sorted w)"
    and small: "sf_optimized f \<or> length new \<le> sparse_file_optimize_size cfg"
  obtains f' buf s' bmax where "sparse_write cfg dir w f s = ((Inr (length (writable_sorted w)), f', buf), s')"
    and "buffer_max_timestamp w (max_timestamp f) = Inr bmax"
    and "f' = f\<lparr>max_timestamp := max (max_timestamp f) bmax\<rparr>"
    and "\<forall>p \<in> set (writable_sorted w). dp_timestamp p \<le> max_timestamp f'"
    and "file_at (sparse_get_path dir f') s' = Some new"
    and "\<And>q. q \<noteq> sparse_get_path dir f' \<Longrightarrow>
           file_at q s' = (if q = sparse_get_path dir f then None else file_at q s)"
    and "fs_dirs s' = fs_dirs s" and "w_queue s' = w_queue s" and "w_queue_limit s' = w_queue_limit s"
    and "writes_ok s'"
proof (rule sparse_write_flush_cases [OF w leaf creat old new, where cfg = cfg], goal_cases)
  case (1 f' buf s' bmax)
  from 1(2) small have "sparse_write cfg dir w f s = ((Inr (length (writable_sorted w)), f', buf), s')"
    by auto
  from 1(1) [OF this 1(3-10) 1(11) [OF granted]] show ?case .
next
  case (2 buf s' err n)
  with granted show ?case by blast
qed

text \<open>
  Claim C12. Writing a well-formed buffer from its start to a sparse file that stays below the
  optimiser's threshold: it reports how many datapoints are within the limits, appends exactly
  their encodings in timestamp order, renames the file so that its name covers them, and leaves
  every other file alone, except that a file that already has the new name is replaced.  Where the
  kernel fails a \<open>writev\<close> (interruptions and partial writes are no failures), it reports that
  error instead, a prefix of the encodings has been appended, the file keeps its name and the file
  object its range, and every other file is left alone.
\<close>

theorem sparse_write_appends:
  assumes "flush_ok w" and "leaf_dir dir s"
    and "fs_creat (sparse_get_path dir f) s = (Inr (), s1)"
    and "old = (case file_at (sparse_get_path dir f) s of None \<Rightarrow> [] | Some bs \<Rightarrow> bs)"
    and "sf_optimized f \<or>
      length old + length (writable_sorted w) * datapoint_size \<le> sparse_file_optimize_size cfg"
  shows "\<exists>r f' buf s'. sparse_write cfg dir w f s = ((r, f', buf), s') \<and>
    (r = Inr (length (writable_sorted w)) \<and>
     min_timestamp f' = min_timestamp f \<and> max_timestamp f \<le> max_timestamp f' \<and>
     list_all (\<lambda>p. dp_timestamp p \<le> max_timestamp f') (writable_sorted w) \<and>
     file_at (sparse_get_path dir f') s' = Some (old @ enc_all dp_encode (writable_sorted w)) \<and>
     (\<forall>q. q \<noteq> sparse_get_path dir f' \<longrightarrow>
       file_at q s' = (if q = sparse_get_path dir f then None else file_at q s)) \<or>
     (\<exists>err n. r = Inl (IOErr ''WriteVector writev() failed'' err) \<and> Failed err \<in> set (fs_writes s) \<and> f' = f \<and>
       file_at (sparse_get_path dir f) s' = Some (old @ take n (enc_all dp_encode (writable_sorted w))) \<and>
       (\<forall>q. q \<noteq> sparse_get_path dir f \<longrightarrow> file_at q s' = file_at q s)))"
proof (rule sparse_write_flush_cases [OF assms(1-4) refl, where cfg = cfg], goal_cases)
  case (1 f' buf s' bmax)
  have "sf_optimized f \<or> length (old @ enc_all dp_encode (writable_sorted w)) \<le> sparse_file_optimize_size cfg"
    using assms(5) by simp
  with 1(1) have "sparse_write cfg dir w f s = ((Inr (length (writable_sorted w)), f', buf), s')" by auto
  with 1(3-6) show ?case
    by (intro exI [of _ "Inr (length (writable_sorted w))"] exI [of _ f'] exI [of _ buf] exI [of _ s']) (simp add: list_all_iff)
next
  case (2 buf s' err n)
  then show ?case
    by (intro exI [of _ "Inl (IOErr ''WriteVector writev() failed'' err)"] exI [of _ f] exI [of _ buf] exI [of _ s']) auto
qed

definition demo_world :: "(string \<times> byte list) list \<Rightarrow> world" where
  "demo_world files = \<lparr>fs_files = files, fs_dirs = [''d''], fs_dir_size = 4096, fs_dirent_tail = '''', fs_writes = [],
     w_queue = 0, w_queue_limit = 16, w_too_big = []\<rparr>"

text \<open>One allocation of two datapoints, both used.\<close>

definition demo_flush :: write_op where
  "demo_flush = \<lparr>wo_buffer = WBuf \<lparr>wb_alloc_size = 48, wb_allocs = [[Datapoint 10 1 5, Datapoint 20 2 5]],
       wb_datapoints_per_alloc = 2, wb_num_datapoints = 2, wb_sorted = True, wb_junk = Datapoint 0 0 0, wb_heap = []\<rparr>,
     wo_cursor = 0, wo_max_writable_datapoints = 100, wo_max_writable_timestamp = INT64_MAX\<rparr>"

lemma demo_flush_ok: "flush_ok demo_flush"
  by (simp add: flush_ok_def demo_flush_def wb_ok_def wb_sorted_ok_def wb_points_def Datapoint_def)

lemma demo_flush_sorted: "writable_sorted demo_flush = [Datapoint 10 1 5, Datapoint 20 2 5]"
  by (simp add: writable_sorted_def demo_flush_def db_points_def wb_points_def Datapoint_def INT64_MAX_def)

lemma demo_flush_max: "buffer_max_timestamp demo_flush 10 = Inr 20"
  by (simp add: buffer_max_timestamp_def demo_flush_def db_size_def wb_size_def db_value_at_def
      wb_value_at_def iter_pre_increment_def Datapoint_def INT64_MAX_def numeral_2_eq_2)

lemma demo_leaf: "leaf_dir ''d'' (demo_world files)"
  by (simp add: leaf_dir_def demo_world_def)

lemma demo_writes [simp]: "fs_writes (demo_world files) = []" "writes_ok (demo_world files)"
  by (simp_all add: writes_ok_def demo_world_def)

lemma demo_creat: "map_of files ''d/10-10'' = None \<Longrightarrow>
  \<exists>s1. fs_creat ''d/10-10'' (demo_world files) = (Inr (), s1)"
  by (simp add: fs_creat_def demo_world_def strip_slashes_def is_dir_def before_last_slash_def)

lemma demo_path: "sparse_get_path ''d'' (SparseFile 10 10 False) = ''d/10-10''"
  "sparse_get_path ''d'' (SparseFile 10 20 False) = ''d/10-20''"
  by code_simp+

theorem sparse_write_appends_witness:
  "\<exists>f' buf s'. sparse_write demo_config ''d'' demo_flush (SparseFile 10 10 False) (demo_world []) =
      ((Inr 2, f', buf), s') \<and>
    file_at (sparse_get_path ''d'' f') s' = Some (enc_all dp_encode [Datapoint 10 1 5, Datapoint 20 2 5])"
proof -
  obtain s1 where c: "fs_creat (sparse_get_path ''d'' (SparseFile 10 10 False)) (demo_world []) = (Inr (), s1)"
    using demo_creat [of "[]"] by (auto simp: demo_path)
  have "file_at (sparse_get_path ''d'' (SparseFile 10 10 False)) (demo_world []) = None"
    by (simp add: file_at_def demo_world_def)
  then show ?thesis
    using sparse_write_appends [OF demo_flush_ok demo_leaf c refl, of demo_config]
    by (fastforce simp: demo_flush_sorted demo_config_def default_config_def datapoint_size_def)
qed

text \<open>
  The rename at the end of a write is not checked against other files of the
  directory: if a file of the same minimum already carries the new name, that file's contents
  are replaced and its datapoints are lost.
\<close>

theorem sparse_write_clobbers_namesake:
  assumes "flush_ok w" and "leaf_dir dir s" and "writes_ok s"
    and "fs_creat (sparse_get_path dir f) s = (Inr (), s1)" and "file_at (sparse_get_path dir f) s = None"
    and "sf_optimized f \<or> length (writable_sorted w) * datapoint_size \<le> sparse_file_optimize_size cfg"
    and "buffer_max_timestamp w (max_timestamp f) = Inr bmax" and "max_timestamp f < bmax"
    and "file_at (sparse_get_path dir (f\<lparr>max_timestamp := bmax\<rparr>)) s = Some other"
  shows "\<exists>r s'. sparse_write cfg dir w f s = (r, s') \<and> fst r = Inr (length (writable_sorted w)) \<and>
    file_at (sparse_get_path dir (f\<lparr>max_timestamp := bmax\<rparr>)) s' =
      Some (enc_all dp_encode (writable_sorted w)) \<and>
    (\<forall>q. q \<noteq> sparse_get_path dir (f\<lparr>max_timestamp := bmax\<rparr>) \<longrightarrow> file_at q s' = file_at q s)"
proof -
  have small: "sf_optimized f \<or> length ([] @ enc_all dp_encode (writable_sorted w)) \<le> sparse_file_optimize_size cfg"
    using assms(6) by simp
  have empty: "[] = (case file_at (sparse_get_path dir f) s of None \<Rightarrow> [] | Some bs \<Rightarrow> bs)"
    using assms(5) by simp
  show ?thesis
  proof (rule sparse_write_flush [OF assms(1-4) empty refl small], goal_cases)
    case (1 f' buf s' m)
    then have f': "f' = f\<lparr>max_timestamp := bmax\<rparr>" using assms(7,8) by simp
    with 1 assms(5) show ?case
      by (intro exI [of _ "(Inr (length (writable_sorted w)), f', buf)"] exI [of _ s']) simp
  qed
qed

theorem sparse_write_clobbers_namesake_witness:
  "\<exists>r s'. sparse_write demo_config ''d'' demo_flush (SparseFile 10 10 False)
      (demo_world [(''d/10-20'', [1, 2, 3])]) = (r, s') \<and> fst r = Inr 2 \<and>
    file_at ''d/10-20'' s' = Some (enc_all dp_encode [Datapoint 10 1 5, Datapoint 20 2 5])"
proof -
  let ?s = "demo_world [(''d/10-20'', [1, 2, 3])]"
  obtain s1 where c: "fs_creat (sparse_get_path ''d'' (SparseFile 10 10 False)) ?s = (Inr (), s1)"
    using demo_creat [of "[(''d/10-20'', [1, 2, 3])]"] by (auto simp: demo_path)
  have p: "(SparseFile 10 10 False)\<lparr>max_timestamp := 20\<rparr> = SparseFile 10 20 False"
    "max_timestamp (SparseFile 10 10 False) = 10" by (simp_all add: SparseFile_def)
  have "file_at (sparse_get_path ''d'' (SparseFile 10 10 False)) ?s = None"
    "file_at (sparse_get_path ''d'' (SparseFile 10 20 False)) ?s = Some [1, 2, 3]"
    by (simp_all add: file_at_def demo_world_def demo_path)
  then show ?thesis
    using sparse_write_clobbers_namesake [OF demo_flush_ok demo_leaf demo_writes(2) c, of demo_config 20 "[1, 2, 3]"]
    by (auto simp: demo_flush_sorted demo_flush_max p demo_path demo_config_def default_config_def datapoint_size_def)
qed

text \<open>
  A flush can fail after it has written: when the file crosses the optimiser's
  threshold while the worker's task queue is full, the write raises
  \<open>WorkerThreadTooBusy\<close> although every datapoint has already been appended to the file.
\<close>

theorem busy_optimizer_fails_after_append:
  assumes "flush_ok w" and "leaf_dir dir s"
    and "fs_creat (sparse_get_path dir f) s = (Inr (), s1)"
    and "old = (case file_at (sparse_get_path dir f) s of None \<Rightarrow> [] | Some bs \<Rightarrow> bs)"
    and "writes_ok s" and "\<not> sf_optimized f" and "w_queue_limit s \<le> w_queue s"
    and "sparse_file_optimize_size cfg < length old + length (writable_sorted w) * datapoint_size"
  shows "\<exists>f' buf s'. sparse_write cfg dir w f s = ((Inl WorkerThreadTooBusy, f', buf), s') \<and>
    file_at (sparse_get_path dir f') s' = Some (old @ enc_all dp_encode (writable_sorted w))"
proof (rule sparse_write_flush_cases [OF assms(1-4) refl, where cfg = cfg], goal_cases)
  case (1 f' buf s' bmax)
  have "\<not> (sf_optimized f \<or> length (old @ enc_all dp_encode (writable_sorted w)) \<le> sparse_file_optimize_size cfg)"
    using assms(6,8) by simp
  moreover have "file_is_too_big dir f' s' = ((Inl WorkerThreadTooBusy, f'), s')"
    using 1(8,9) assms(7) by (simp add: file_is_too_big_def sparse_file_too_big_def)
  ultimately show ?case using 1(1,5) by (intro exI [of _ f'] exI [of _ buf] exI [of _ s']) simp
qed (use assms(5) in simp)

definition busy_world :: world where
  "busy_world = (demo_world [])\<lparr>w_queue := 16\<rparr>"

theorem busy_optimizer_fails_after_append_witness:
  "\<exists>f' buf s'. sparse_write (demo_config\<lparr>sparse_file_optimize_size := 40\<rparr>) ''d'' demo_flush
      (SparseFile 10 10 False) busy_world = ((Inl WorkerThreadTooBusy, f', buf), s') \<and>
    file_at (sparse_get_path ''d'' f') s' = Some (enc_all dp_encode [Datapoint 10 1 5, Datapoint 20 2 5])"
proof -
  obtain s1 where c: "fs_creat (sparse_get_path ''d'' (SparseFile 10 10 False)) busy_world = (Inr (), s1)"
    by (simp add: demo_path fs_creat_def busy_world_def demo_world_def strip_slashes_def is_dir_def
        before_last_slash_def)
  have "file_at (sparse_get_path ''d'' (SparseFile 10 10 False)) busy_world = None"
    by (simp add: file_at_def busy_world_def demo_world_def)
  moreover have "leaf_dir ''d'' busy_world" "writes_ok busy_world"
    by (simp_all add: leaf_dir_def writes_ok_def busy_world_def demo_world_def)
  ultimately show ?thesis
    using busy_optimizer_fails_after_append [OF demo_flush_ok _ c refl _, of "demo_config\<lparr>sparse_file_optimize_size := 40\<rparr>"]
    by (auto simp: demo_flush_sorted datapoint_size_def busy_world_def demo_world_def SparseFile_def)
qed

lemma newest_in_range_sorted:
  "newest_in_range from to (sort_key dp_timestamp pts) = newest_in_range from to pts"
  by (simp add: newest_in_range_def sort_key_stable)

text \<open>
  What is flushed is what is read: after writing a whole well-formed buffer of
  valid datapoints, none reaching past the start of a later one, to a new sparse file,
  reading that file appends to the reader's buffer, per timestamp in range and up to the
  space left, the datapoint that was buffered last.
\<close>

theorem flush_then_read:
  assumes "flush_ok w" and "leaf_dir dir s" and "writes_ok s" and "file_at (sparse_get_path dir f) s = None"
    and "fs_creat (sparse_get_path dir f) s = (Inr (), s1)"
    and "pts = db_points (wo_buffer w)" and "length pts \<le> wo_max_writable_datapoints w"
    and "list_all (\<lambda>p. dp_timestamp p \<le> wo_max_writable_timestamp w) pts"
    and "length pts * datapoint_size \<le> min (sparse_file_optimize_size cfg) (sparse_file_max_size cfg)"
    and "list_all dp_ok pts" and "disjoint_points pts" and "one_duration pts"
    and "config_ok cfg" and "ro_ok r"
  shows "\<exists>f' buf s' r'. sparse_write cfg dir w f s = ((Inr (length pts), f', buf), s') \<and>
    sparse_read cfg dir f' s' r = (Inr (), r') \<and> ro_ok r' \<and>
    ro_contents r' = ro_contents r @
      take (ro_space_left r) (newest_in_range (ro_next_time r) (ro_end_time r) pts)"
proof -
  let ?sorted = "sort_key dp_timestamp pts"
  have ws: "writable_sorted w = ?sorted"
    using assms(7,8) by (simp add: writable_sorted_def assms(6) [symmetric] filter_id_conv list_all_iff)
  have old: "[] = (case file_at (sparse_get_path dir f) s of None \<Rightarrow> [] | Some bs \<Rightarrow> bs)"
    using assms(4) by simp
  have small: "sf_optimized f \<or> length (enc_all dp_encode ?sorted) \<le> sparse_file_optimize_size cfg"
    using assms(9) by simp
  have new: "enc_all dp_encode ?sorted = [] @ enc_all dp_encode (writable_sorted w)" by (simp add: ws)
  show ?thesis
  proof (rule sparse_write_flush [OF assms(1,2,3,5) old new small], goal_cases)
    case (1 f' buf s' bmax)
    have "leaf_dir dir s'" using assms(2) 1(7) by (simp add: leaf_dir_def)
    then have "fs_stat (sparse_get_path dir f') s' = Inr (RegNode (enc_all dp_encode ?sorted))"
      using 1(5) by (rule fs_stat_sparse)
    moreover have "sparse_contents cfg (enc_all dp_encode ?sorted) = ?sorted"
      using assms(9,10) by (intro sparse_contents_encoded) (auto simp: list_all_iff)
    moreover have "disjoint_points ?sorted" "one_duration ?sorted"
      using disjoint_points_subset [OF assms(11)] one_duration_subset [OF assms(12)] by simp_all
    ultimately obtain r' where "sparse_read cfg dir f' s' r = (Inr (), r')" "ro_ok r'"
      "ro_contents r' = ro_contents r @
        take (ro_space_left r) (newest_in_range (ro_next_time r) (ro_end_time r) pts)"
      using sparse_read_newest [OF assms(13) _ assms(14), of dir f' s' "enc_all dp_encode ?sorted"]
      by (metis newest_in_range_sorted)
    with 1(1) ws show ?case by auto
  qed
qed

theorem flush_then_read_witness:
  "\<exists>f' buf s' r'. sparse_write demo_config ''d'' demo_flush (SparseFile 10 10 False) (demo_world []) =
      ((Inr 2, f', buf), s') \<and>
    sparse_read demo_config ''d'' f' s' (demo_read 0 100 8) = (Inr (), r') \<and>
    ro_contents r' = [Datapoint 10 1 5, Datapoint 20 2 5]"
proof -
  let ?pts = "[Datapoint 10 1 5, Datapoint 20 2 5]"
  obtain s1 where c: "fs_creat (sparse_get_path ''d'' (SparseFile 10 10 False)) (demo_world []) = (Inr (), s1)"
    using demo_creat [of "[]"] by (auto simp: demo_path)
  have none: "file_at (sparse_get_path ''d'' (SparseFile 10 10 False)) (demo_world []) = None"
    by (simp add: file_at_def demo_world_def)
  have pts: "?pts = db_points (wo_buffer demo_flush)"
    by (simp add: demo_flush_def db_points_def wb_points_def)
  have "length ?pts \<le> wo_max_writable_datapoints demo_flush"
    "list_all (\<lambda>p. dp_timestamp p \<le> wo_max_writable_timestamp demo_flush) ?pts"
    by (simp_all add: demo_flush_def Datapoint_def INT64_MAX_def)
  moreover have "length ?pts * datapoint_size \<le>
      min (sparse_file_optimize_size demo_config) (sparse_file_max_size demo_config)"
    by (simp add: demo_config_def default_config_def datapoint_size_def)
  moreover have "list_all dp_ok ?pts" "disjoint_points ?pts" "one_duration ?pts"
    "newest_in_range 0 100 ?pts = ?pts" by code_simp+
  ultimately show ?thesis
    using flush_then_read [OF demo_flush_ok demo_leaf demo_writes(2) none c pts, of demo_config "demo_read 0 100 8"]
    by (fastforce simp: demo_config_ok demo_read_simps)
qed

end
