(* ===== verification/DenseStore.thy ===== *)
theory DenseStore
  imports World
begin

text \<open>
  \<open>dense_file.h/.cc\<close>: files of bare doubles on a regular grid.
\<close>

section \<open>Dense files\<close>

text \<open>The loop over the values read: a NaN is skipped without moving \<open>next_time\<close>.\<close>

primrec dense_copy :: "int \<Rightarrow> double list \<Rightarrow> (unit, read_op) prog" where
  "dense_copy dur [] r = (Inr (), r)"
| "dense_copy dur (v # vs) r =
     (if isnan v then dense_copy dur vs r
      else (case appendM (Datapoint (ro_next_time r) v dur) r of
          (Inl e, r') \<Rightarrow> (Inl e, r')
        | (Inr _, r') \<Rightarrow> dense_copy dur vs r'))"

definition dense_read :: "string \<Rightarrow> dense_file \<Rightarrow> 'a posix_scheme \<Rightarrow> (unit, read_op) prog" where
  "dense_read dir f s r =
     (case align_next_time (ro_next_time r) (de_duration f) of
       Inl e \<Rightarrow> (Inl e, r)
     | Inr next \<Rightarrow>
         let r1 = r\<lparr>ro_next_time := next\<rparr> in
         if max_timestamp f < next then (Inr (), r1)
         else (case fs_open (dense_get_path dir f) s of
           Inl e \<Rightarrow> (Inl (IOErr ''DenseFile::Read open() failed'' e), r1)
         | Inr bytes \<Rightarrow>
             (case div64 (wrap64 (next - min_timestamp f)) (de_duration f) of
               Inl e \<Rightarrow> (Inl e, r1)
             | Inr q \<Rightarrow>
                 let offset = wrap64 (q * int dense_datapoint_size) in
                 if offset < 0 then (Inl (IOErr ''DenseFile::Read lseek() failed'' EINVAL), r1)
                 else
                   let read_end_time = min (max_timestamp f) (ro_end_time r) in
                   (case div64 (wrap64 (read_end_time - next)) (de_duration f) of
                     Inl e \<Rightarrow> (Inl e, r1)
                   | Inr n \<Rightarrow>
                       let len = wrap32 n; rest = drop (nat offset) bytes in
                       if len < 0 then (Inl BadAlloc, r1)
                       else dense_copy (de_duration f)
                              (dec_all dense_datapoint_size dbl_decode
                                (min (nat len) (length rest div dense_datapoint_size)) rest) r1))))"

text \<open>\<open>values[i] = (it++)->value\<close>: the post-increment yields the advanced iterator.\<close>

primrec gather_values :: "nat \<Rightarrow> (nat \<Rightarrow> datapoint res) \<Rightarrow> nat \<Rightarrow> double list res" where
  "gather_values 0 value_at it = Inr []"
| "gather_values (Suc n) value_at it =
     (case iter_post_increment it of (at, it') \<Rightarrow>
       bindE (value_at at) (\<lambda>p. bindE (gather_values n value_at it') (\<lambda>vs. Inr (dp_value p # vs))))"

text \<open>The padding: truncated to \<open>unsigned int\<close>, zero unless the cursor is past the end.\<close>

definition dense_num_nans :: "dense_file \<Rightarrow> int \<Rightarrow> nat res" where
  "dense_num_nans f ts =
     (if max_timestamp f < ts
      then bindE (div64 (wrap64 (ts - max_timestamp f)) (de_duration f))
             (\<lambda>q. Inr (nat (q mod 4294967296)))
      else Inr 0)"

definition dense_write ::
  "config \<Rightarrow> string \<Rightarrow> write_op \<Rightarrow> dense_file \<Rightarrow> 'a posix_scheme \<Rightarrow> (nat res \<times> dense_file) \<times> 'a posix_scheme" where
  "dense_write cfg dir w f s =
     (case bindE (writable_datapoints w) (\<lambda>n.
             if n = 0 then Inr None
             else bindE (db_value_at (wo_buffer w) (wo_cursor w)) (\<lambda>p.
               bindE (dense_num_nans f (dp_timestamp p)) (\<lambda>num_nans.
               if max_dense_nan_gap cfg < num_nans then Inr None
               else bindE (gather_values n (db_value_at (wo_buffer w)) (wo_cursor w)) (\<lambda>vs.
                 Inr (Some (dp_timestamp p, num_nans, replicate num_nans double_nan @ vs)))))) of
       Inl e \<Rightarrow> ((Inl e, f), s)
     | Inr None \<Rightarrow> ((Inr 0, f), s)
     | Inr (Some (ts, num_nans, values)) \<Rightarrow>
         (case fs_creat (dense_get_path dir f) s of
           (Inl e, s1) \<Rightarrow> ((Inl (IOErr ''DenseFile::Write open() failed'' e), f), s1)
         | (Inr _, s1) \<Rightarrow>
             (case div64 (min ts (max_timestamp f)) (de_duration f) of
               Inl e \<Rightarrow> ((Inl e, f), s1)
             | Inr q \<Rightarrow>
                 let offset = wrap64 (q * int dense_datapoint_size) in
                 if offset < 0 then ((Inl (IOErr ''DenseFile::Write lseek() failed'' EINVAL), f), s1)
                 else (case write_values dbl_encode (dense_get_path dir f) (nat offset) values s1 of
                   (Inl e, s2) \<Rightarrow> ((Inl e, f), s2)
                 | (Inr _, s2) \<Rightarrow>
                     ((Inr (length values - num_nans),
                       f\<lparr>max_timestamp := wrap64 (max_timestamp f + int (length values) * de_duration f)\<rparr>), s2)))))"

section \<open>What a read of a dense file returns\<close>

text \<open>Consecutive timestamps \<open>dur\<close> apart.\<close>

primrec stamp :: "int \<Rightarrow> int \<Rightarrow> double list \<Rightarrow> datapoint list" where
  "stamp t dur [] = []"
| "stamp t dur (v # vs) = Datapoint t v dur # stamp (t + dur) dur vs"

definition present :: "double list \<Rightarrow> double list" where
  "present vs = filter (\<lambda>v. \<not> isnan v) vs"

lemma smod_dvd: "b dvd a \<Longrightarrow> (a :: int) smod b = 0"
  by (auto simp: signed_modulo_int_def signed_divide_int_def elim!: dvdE simp: abs_mult sgn_mult)

lemma align_next_time_aligned: "0 < d \<Longrightarrow> d dvd t \<Longrightarrow> align_next_time t d = Inr t"
  by (simp add: align_next_time_def mod64_pos smod_dvd)

text \<open>
  The copy loop does not ask for \<open>SpaceLeft\<close>: it succeeds exactly when the allocation has
  room for all values that are not NaN, which get consecutive timestamps.
\<close>

lemma dense_copy_room:
  assumes "0 < dur" and "i64_ok (ro_next_time r)" and "i64_ok (ro_next_time r + int (length (present vs)) * dur)"
    and "ro_cursor r + length (present vs) \<le> length (ro_buffer r)"
  shows "\<exists>r'. dense_copy dur vs r = (Inr (), r') \<and>
    ro_contents r' = ro_contents r @ stamp (ro_next_time r) dur (present vs) \<and>
    same_request r r' \<and> ro_cursor r' = ro_cursor r + length (present vs) \<and>
    ro_next_time r' = ro_next_time r + int (length (present vs)) * dur"
  using assms(2-)
proof (induction vs arbitrary: r)
  case (Cons v vs)
  show ?case
  proof (cases "isnan v")
    case True
    with Cons show ?thesis by (simp add: present_def)
  next
    case False
    let ?p = "Datapoint (ro_next_time r) v dur"
    from False have len: "length (present (v # vs)) = Suc (length (present vs))" by (simp add: present_def)
    with Cons.prems(3) obtain r1 where r1: "ro_append ?p r = Inr r1" by (auto simp: ro_append_Inr)
    note a = ro_append_contents [OF r1]
    have "0 \<le> int (length (present vs)) * dur" using assms(1) by simp
    then have ok: "i64_ok (ro_next_time r + dur)"
      using assms(1) len by (rule_tac i64_ok_between [OF Cons.prems(1,2)]) (simp_all add: algebra_simps)
    with a(2) assms(1) have next1: "ro_next_time r1 = ro_next_time r + dur"
      by (simp add: dp_next_def Datapoint_def wrap64_id)
    have "length (ro_buffer r1) = length (ro_buffer r)" using a(3) by (simp add: same_request_def)
    moreover have end1: "ro_next_time r + int (length (present (v # vs))) * dur
        = ro_next_time r1 + int (length (present vs)) * dur"
      unfolding len next1 by (simp add: distrib_right)
    moreover have "i64_ok (ro_next_time r1)" using ok next1 by simp
    moreover have "i64_ok (ro_next_time r1 + int (length (present vs)) * dur)"
      using Cons.prems(2) end1 by (rule back_subst)
    moreover have "ro_cursor r1 + length (present vs) \<le> length (ro_buffer r1)"
      using Cons.prems(3) len a(4) calculation(1) by simp
    ultimately obtain r' where r': "dense_copy dur vs r1 = (Inr (), r')"
      "ro_contents r' = ro_contents r1 @ stamp (ro_next_time r1) dur (present vs)"
      "same_request r1 r'" "ro_cursor r' = ro_cursor r1 + length (present vs)"
      "ro_next_time r' = ro_next_time r1 + int (length (present vs)) * dur"
      using Cons.IH [of r1] by blast
    have "present (v # vs) = v # present vs" using False by (simp add: present_def)
    moreover have "dense_copy dur (v # vs) r = (Inr (), r')"
      using False r1 r'(1) by (simp add: appendM_def)
    ultimately show ?thesis
      using r'(2-5) a(1,4) next1 end1 same_request_trans [OF a(3) r'(3)]
      by (intro exI [of _ r']) simp
  qed
qed (auto simp: present_def)

lemma dense_copy_overrun:
  "ro_cursor r \<le> length (ro_buffer r) \<Longrightarrow> length (ro_buffer r) < ro_cursor r + length (present vs) \<Longrightarrow>
     fst (dense_copy dur vs r) = Inl OutOfBounds"
proof (induction vs arbitrary: r)
  case (Cons v vs)
  show ?case
  proof (cases "isnan v")
    case True
    with Cons show ?thesis by (simp add: present_def)
  next
    case False
    let ?p = "Datapoint (ro_next_time r) v dur"
    show ?thesis
    proof (cases "ro_append ?p r")
      case (Inl e)
      then have "e = OutOfBounds" by (simp add: ro_append_Inl)
      with Inl False show ?thesis by (simp add: appendM_def)
    next
      case (Inr r1)
      note a = ro_append_contents [OF Inr]
      have "ro_cursor r < length (ro_buffer r)" using Inr by (simp add: ro_append_Inr)
      with Cons.IH [of r1] Cons.prems a(3,4) False Inr show ?thesis
        by (simp add: appendM_def present_def same_request_def)
    qed
  qed
qed (simp add: present_def)

text \<open>The slots a read of a regular dense file covers.\<close>

definition dense_slots :: "dense_file \<Rightarrow> read_op \<Rightarrow> double list \<Rightarrow> double list" where
  "dense_slots f r vs =
     take (nat ((min (max_timestamp f) (ro_end_time r) - ro_next_time r) div de_duration f))
       (drop (nat ((ro_next_time r - min_timestamp f) div de_duration f)) vs)"

text \<open>A file on a grid through zero, read from a grid point within its range.\<close>

definition dense_read_ok :: "dense_file \<Rightarrow> read_op \<Rightarrow> double list \<Rightarrow> bool" where
  "dense_read_ok f r vs \<longleftrightarrow> 0 < de_duration f \<and> de_duration f dvd min_timestamp f \<and>
     de_duration f dvd ro_next_time r \<and> min_timestamp f \<le> ro_next_time r \<and>
     ro_next_time r \<le> max_timestamp f \<and> ro_next_time r \<le> ro_end_time r \<and>
     max_timestamp f = min_timestamp f + int (length vs) * de_duration f \<and>
     i64_ok (min_timestamp f) \<and> i64_ok (max_timestamp f) \<and> i64_ok (max_timestamp f - min_timestamp f) \<and>
     i64_ok (ro_end_time r) \<and> length vs < 268435456"

lemma dense_read_regular:
  assumes ok: "dense_read_ok f r vs" and reg: "fs_open (dense_get_path dir f) s = Inr (enc_all dbl_encode vs)"
  shows "dense_read dir f s r = dense_copy (de_duration f) (dense_slots f r vs) r"
    and "i64_ok (ro_next_time r + int (length (dense_slots f r vs)) * de_duration f)" and "i64_ok (ro_next_time r)"
proof -
  let ?d = "de_duration f" and ?next = "ro_next_time r"
  let ?q = "(?next - min_timestamp f) div ?d"
  let ?e = "min (max_timestamp f) (ro_end_time r)"
  let ?n = "(?e - ?next) div ?d"
  have d: "0 < ?d" and le: "min_timestamp f \<le> ?next" "?next \<le> max_timestamp f" "?next \<le> ?e"
    using ok by (auto simp: dense_read_ok_def)
  have mx: "max_timestamp f = min_timestamp f + int (length vs) * ?d" using ok by (simp add: dense_read_ok_def)
  have mnok: "i64_ok (min_timestamp f)" and mxok: "i64_ok (max_timestamp f)"
    using ok by (auto simp: dense_read_ok_def)
  from le(1,2) show nx: "i64_ok ?next" by (rule i64_ok_between [OF mnok mxok])
  have "0 \<le> ?next - min_timestamp f" "?next - min_timestamp f \<le> max_timestamp f - min_timestamp f" using le by simp_all
  with ok have w1: "wrap64 (?next - min_timestamp f) = ?next - min_timestamp f"
    by (intro wrap64_id) (auto simp: dense_read_ok_def i64_ok_def INT64_MIN_def)
  have "0 \<le> ?e - ?next" "?e - ?next \<le> max_timestamp f - min_timestamp f" using le by simp_all
  with ok have w2: "wrap64 (?e - ?next) = ?e - ?next"
    by (intro wrap64_id) (auto simp: dense_read_ok_def i64_ok_def INT64_MIN_def)
  have q: "0 \<le> ?q" "?q \<le> int (length vs)"
  proof -
    show "0 \<le> ?q" using le d by (simp add: pos_imp_zdiv_nonneg_iff)
    have "?q \<le> (int (length vs) * ?d) div ?d" using le mx d by (intro zdiv_mono1) simp_all
    then show "?q \<le> int (length vs)" using d by simp
  qed
  have n: "0 \<le> ?n" "?n \<le> int (length vs)"
  proof -
    show "0 \<le> ?n" using le d by (simp add: pos_imp_zdiv_nonneg_iff)
    have "?n \<le> (int (length vs) * ?d) div ?d" using le mx d by (intro zdiv_mono1) simp_all
    then show "?n \<le> int (length vs)" using d by simp
  qed
  have small: "int (length vs) < 268435456" using ok by (simp add: dense_read_ok_def)
  have off: "wrap64 (?q * int dense_datapoint_size) = ?q * 8"
    using q small by (simp add: dense_datapoint_size_def wrap64_id i64_ok_def INT64_MIN_def INT64_MAX_def)
  have len: "wrap32 ?n = ?n" using n small by (intro wrap32_id) simp_all
  have "nat (?q * 8) = nat ?q * dense_datapoint_size" by (simp add: dense_datapoint_size_def nat_mult_distrib mult.commute)
  then have dropq: "drop (nat (?q * 8)) (enc_all dbl_encode vs) = enc_all dbl_encode (drop (nat ?q) vs)"
    by (simp add: dbl.drop_enc_all)
  have size: "length (enc_all dbl_encode (drop (nat ?q) vs)) div dense_datapoint_size = length vs - nat ?q"
    by (simp add: dbl.length_enc_all dense_datapoint_size_def)
  have dec: "dec_all dense_datapoint_size dbl_decode (min (nat ?n) (length vs - nat ?q))
      (enc_all dbl_encode (drop (nat ?q) vs)) = dense_slots f r vs"
  proof -
    have "dec_all dense_datapoint_size dbl_decode (length (drop (nat ?q) vs)) (enc_all dbl_encode (drop (nat ?q) vs))
        = drop (nat ?q) vs"
      using dbl.dec_all_enc_all [of "drop (nat ?q) vs" "[]"] by simp
    then have "take (nat ?n) (dec_all dense_datapoint_size dbl_decode (length vs - nat ?q)
        (enc_all dbl_encode (drop (nat ?q) vs))) = dense_slots f r vs"
      by (simp add: dense_slots_def)
    then show ?thesis by (simp add: take_dec_all)
  qed
  have pos: "dense_datapoint_size \<noteq> 0" by (simp add: dense_datapoint_size_def)
  have al: "align_next_time ?next ?d = Inr ?next"
    using ok by (intro align_next_time_aligned) (simp_all add: dense_read_ok_def)
  show "dense_read dir f s r = dense_copy ?d (dense_slots f r vs) r"
    using al le reg d q n dec pos by (simp add: dense_read_def Let_def w1 w2 div64_pos sdiv_nonneg off len dropq size)
  have "int (length (dense_slots f r vs)) * ?d \<le> ?n * ?d"
    using d n by (intro mult_right_mono) (auto simp: dense_slots_def)
  also have "\<dots> = (?e - ?next) - (?e - ?next) mod ?d" by (simp add: minus_mod_eq_div_mult)
  also have "\<dots> \<le> ?e - ?next" using d by simp
  finally have "?next + int (length (dense_slots f r vs)) * ?d \<le> max_timestamp f" by simp
  then show "i64_ok (?next + int (length (dense_slots f r vs)) * ?d)"
    using d by (rule_tac i64_ok_between [OF nx mxok]) simp_all
qed

text \<open>
  Claim C26. Reading a dense file without gaps: from a grid point within its range, a read
  with enough room returns the value of every slot up to the end of the request, stamped with
  that slot's time, and leaves \<open>next_time\<close> behind the last of them.
\<close>

theorem dense_read_returns_slots:
  assumes "dense_read_ok f r vs" and "fs_open (dense_get_path dir f) s = Inr (enc_all dbl_encode vs)"
    and "list_all (\<lambda>v. \<not> isnan v) vs" and "ro_ok r" and "length (dense_slots f r vs) \<le> ro_space_left r"
  shows "\<exists>r'. dense_read dir f s r = (Inr (), r') \<and> ro_ok r' \<and>
    ro_contents r' = ro_contents r @ stamp (ro_next_time r) (de_duration f) (dense_slots f r vs) \<and>
    ro_next_time r' = ro_next_time r + int (length (dense_slots f r vs)) * de_duration f"
proof -
  note read = dense_read_regular [OF assms(1,2)]
  have "set (dense_slots f r vs) \<subseteq> set vs" by (auto simp: dense_slots_def dest: in_set_takeD in_set_dropD)
  with assms(3) have all: "present (dense_slots f r vs) = dense_slots f r vs"
    by (auto simp: present_def list_all_iff filter_id_conv)
  have room: "ro_cursor r + length (present (dense_slots f r vs)) \<le> length (ro_buffer r)"
    using assms(4,5) by (simp add: all ro_ok_def, linarith)
  have "0 < de_duration f" using assms(1) by (simp add: dense_read_ok_def)
  from dense_copy_room [OF this read(3) _ room] read(2) all
  obtain r' where r': "dense_copy (de_duration f) (dense_slots f r vs) r = (Inr (), r')"
    "ro_contents r' = ro_contents r @ stamp (ro_next_time r) (de_duration f) (dense_slots f r vs)"
    "same_request r r'" "ro_cursor r' = ro_cursor r + length (dense_slots f r vs)"
    "ro_next_time r' = ro_next_time r + int (length (dense_slots f r vs)) * de_duration f" by auto
  moreover have "ro_ok r'" using assms(4,5) r'(3,4) by (auto simp: ro_ok_def same_request_def)
  ultimately show ?thesis by (simp add: read(1))
qed

definition demo_dense :: dense_file where
  "demo_dense = \<lparr>min_timestamp = 10, max_timestamp = 30, de_duration = 5\<rparr>"

lemma demo_dense_open: "fs_open (dense_get_path ''d'' demo_dense) (demo_posix ''d/10@5'' (enc_all dbl_encode vs)) = Inr (enc_all dbl_encode vs)"
proof -
  have "dense_get_path ''d'' demo_dense = ''d/10@5''" by code_simp
  then show ?thesis by (simp add: fs_open_def fs_stat_def demo_posix_def strip_slashes_def is_dir_def)
qed

lemma demo_dense_read_ok: "length vs = 4 \<Longrightarrow> dense_read_ok demo_dense (demo_read 15 100 m) vs"
  by (simp add: dense_read_ok_def demo_dense_def demo_read_def ReadOperation_def i64_ok_def
      INT64_MIN_def INT64_MAX_def)

lemma demo_dense_slots: "dense_slots demo_dense (demo_read 15 100 m) [a, b, c, d] = [b, c, d]"
  by (simp add: dense_slots_def demo_dense_def demo_read_simps numeral_eq_Suc)

lemma demo_values_not_nan: "\<not> isnan 0" "\<not> isnan 1" "\<not> isnan 2" "\<not> isnan 3"
  by (simp_all add: isnan_def dbl_exp_def dbl_frac_def) 

theorem dense_read_returns_slots_witness:
  "\<exists>r'. dense_read ''d'' demo_dense (demo_posix ''d/10@5'' (enc_all dbl_encode [0, 1, 2, 3])) (demo_read 15 100 8) = (Inr (), r') \<and>
    ro_contents r' = [Datapoint 15 1 5, Datapoint 20 2 5, Datapoint 25 3 5]"
proof -
  have ok: "dense_read_ok demo_dense (demo_read 15 100 8) [0, 1, 2, 3]" by (rule demo_dense_read_ok) simp_all
  have d: "de_duration demo_dense = 5" by (simp add: demo_dense_def)
  show ?thesis
    using dense_read_returns_slots [OF ok demo_dense_open]
    by (fastforce simp: demo_read_simps demo_dense_slots demo_values_not_nan d)
qed

text \<open>
  A gap moves everything behind it: a slot that holds NaN is skipped without
  advancing \<open>next_time\<close>, so when the first slot read is a gap the value after it is returned
  with the time of the gap.
\<close>

theorem dense_read_gap_shifts_time:
  assumes "dense_read_ok f r vs" and "fs_open (dense_get_path dir f) s = Inr (enc_all dbl_encode vs)"
    and "dense_slots f r vs = gap # v # rest" and "isnan gap" and "\<not> isnan v"
    and "ro_ok r" and "length (dense_slots f r vs) \<le> ro_space_left r"
  shows "\<exists>r' qs. dense_read dir f s r = (Inr (), r') \<and>
    ro_contents r' = ro_contents r @ Datapoint (ro_next_time r) v (de_duration f) # qs"
proof -
  note read = dense_read_regular [OF assms(1,2)]
  let ?vs = "dense_slots f r vs" and ?d = "de_duration f"
  have p: "present ?vs = v # present rest" using assms(3-5) by (simp add: present_def)
  have len: "length (present ?vs) \<le> length ?vs" by (simp add: present_def length_filter_le)
  have room: "ro_cursor r + length (present ?vs) \<le> length (ro_buffer r)"
    using assms(6,7) len by (simp add: ro_ok_def, linarith)
  have d: "0 < ?d" using assms(1) by (simp add: dense_read_ok_def)
  have "int (length (present ?vs)) * ?d \<le> int (length ?vs) * ?d" using len d by (intro mult_right_mono) simp_all
  then have "i64_ok (ro_next_time r + int (length (present ?vs)) * ?d)"
    using d by (rule_tac i64_ok_between [OF read(3) read(2)]) simp_all
  from dense_copy_room [OF d read(3) this room] p show ?thesis by (auto simp: read(1))
qed

theorem dense_read_gap_shifts_time_witness:
  "\<exists>r' qs. dense_read ''d'' demo_dense (demo_posix ''d/10@5'' (enc_all dbl_encode [0, double_nan, 2, 3]))
      (demo_read 15 100 8) = (Inr (), r') \<and> ro_contents r' = Datapoint 15 2 5 # qs"
proof -
  have ok: "dense_read_ok demo_dense (demo_read 15 100 8) [0, double_nan, 2, 3]"
    by (rule demo_dense_read_ok) simp
  have d: "de_duration demo_dense = 5" by (simp add: demo_dense_def)
  show ?thesis
    using dense_read_gap_shifts_time [OF ok demo_dense_open, of double_nan 2 "[3]"]
    by (simp add: demo_read_simps demo_dense_slots demo_values_not_nan d)
qed

text \<open>
  Reading a dense file never asks how much room is left: when the requested slots
  hold more values than the caller's allocation has room for, the copy writes past its end.
\<close>

theorem dense_read_overruns_buffer:
  assumes "dense_read_ok f r vs" and "fs_open (dense_get_path dir f) s = Inr (enc_all dbl_encode vs)"
    and "ro_cursor r \<le> length (ro_buffer r)"
    and "length (ro_buffer r) < ro_cursor r + length (filter (\<lambda>v. \<not> isnan v) (dense_slots f r vs))"
  shows "fst (dense_read dir f s r) = Inl OutOfBounds"
  using dense_copy_overrun [of r "dense_slots f r vs"] assms(3,4)
  by (simp add: dense_read_regular(1) [OF assms(1,2)] present_def)

theorem dense_read_overruns_buffer_witness:
  "fst (dense_read ''d'' demo_dense (demo_posix ''d/10@5'' (enc_all dbl_encode [0, 1, 2, 3]))
     (demo_read 15 100 2)) = Inl OutOfBounds"
proof -
  have ok: "dense_read_ok demo_dense (demo_read 15 100 2) [0, 1, 2, 3]"
    by (rule demo_dense_read_ok) simp
  show ?thesis
    using dense_read_overruns_buffer [OF ok demo_dense_open]
    by (simp add: demo_read_simps demo_dense_slots demo_values_not_nan)
qed

section \<open>What a write to a dense file does\<close>

lemma gather_values_shifted:
  "(\<And>i. i < n \<Longrightarrow> va (it + Suc i) = Inr (ps ! i)) \<Longrightarrow> length ps = n \<Longrightarrow>
     gather_values n va it = Inr (map dp_value ps)"
proof (induction n arbitrary: it ps)
  case (Suc n)
  then obtain p qs where ps: "ps = p # qs" by (cases ps) auto
  from Suc.prems(1) [of 0] ps have "va (Suc it) = Inr p" by simp
  moreover have "gather_values n va (Suc it) = Inr (map dp_value qs)"
    using Suc.prems(1) [of "Suc i" for i] Suc.prems(2) ps by (intro Suc.IH) simp_all
  ultimately show ?case using ps by (simp add: iter_post_increment_def)
qed simp

lemma gather_values_overread:
  "(\<And>i. i < n \<Longrightarrow> \<exists>p. va (it + Suc i) = Inr p) \<Longrightarrow> va (it + Suc n) = Inl e \<Longrightarrow>
     gather_values (Suc n) va it = Inl e"
proof (induction n arbitrary: it)
  case 0
  then show ?case by (simp add: iter_post_increment_def)
next
  case (Suc n)
  from Suc.prems(1) [of 0] obtain p where "va (Suc it) = Inr p" by auto
  moreover have "gather_values (Suc n) va (Suc it) = Inl e"
    using Suc.prems(1) [of "Suc i" for i] Suc.prems(2) by (intro Suc.IH) simp_all
  ultimately show ?case by (subst gather_values.simps) (simp add: iter_post_increment_def)
qed

text \<open>
  Writing the rest of a raw buffer to a dense file reads one datapoint past the end
  of the buffer, because \<open>(it++)->value\<close> yields the datapoint after the cursor; nothing
  is written.
\<close>

theorem dense_write_overreads:
  assumes "wo_buffer w = RawBuf b" and "length (rb_mem b) = rb_len b" and "wo_cursor w < rb_len b"
    and "writable_datapoints w = Inr (rb_len b - wo_cursor w)"
    and "dense_num_nans f (dp_timestamp (rb_mem b ! wo_cursor w)) = Inr k" and "k \<le> max_dense_nan_gap cfg"
  shows "dense_write cfg dir w f s = ((Inl OutOfBounds, f), s)"
proof -
  obtain n where n: "rb_len b - wo_cursor w = Suc n" using assms(3) by (cases "rb_len b - wo_cursor w") auto
  have "gather_values (Suc n) (db_value_at (RawBuf b)) (wo_cursor w) = Inl OutOfBounds"
    using n assms(2,3) by (intro gather_values_overread) (auto simp: db_value_at_def raw_value_at_def)
  moreover have "db_value_at (RawBuf b) (wo_cursor w) = Inr (rb_mem b ! wo_cursor w)"
    using assms(2,3) by (simp add: db_value_at_def raw_value_at_def)
  ultimately show ?thesis
    using assms(1,4-6) n by (simp add: dense_write_def del: gather_values.simps)
qed

definition demo_raw :: "nat \<Rightarrow> write_op" where
  "demo_raw n = \<lparr>wo_buffer = RawBuf \<lparr>rb_mem = [Datapoint 15 1 5, Datapoint 20 2 5], rb_len = 2\<rparr>, wo_cursor = 0,
     wo_max_writable_datapoints = n, wo_max_writable_timestamp = INT64_MAX\<rparr>"

lemma demo_raw_writable: "writable_datapoints (demo_raw n) = Inr (min 2 n)"
  by (simp add: writable_datapoints_def demo_raw_def db_size_def raw_size_def db_value_at_def raw_value_at_def
      Datapoint_def INT64_MAX_def iter_post_increment_def numeral_2_eq_2 min_def)

theorem dense_write_overreads_witness:
  "dense_write demo_config ''d'' (demo_raw 9) demo_dense (demo_posix ''d/10@5'' []) =
     ((Inl OutOfBounds, demo_dense), demo_posix ''d/10@5'' [])"
  using dense_write_overreads [of "demo_raw 9" "\<lparr>rb_mem = [Datapoint 15 1 5, Datapoint 20 2 5], rb_len = 2\<rparr>" demo_dense 0 demo_config]
  by (simp add: demo_raw_writable) (simp add: demo_raw_def dense_num_nans_def demo_dense_def Datapoint_def)

text \<open>
  A write into the range of an existing dense file stores the wrong values in the
  wrong place: it writes the values of the datapoints after the cursor instead of those from
  it on, and at the slot of the absolute time, whereas a read looks a time up relative to the
  file's minimum.
\<close>

theorem dense_write_misplaces_values:
  assumes "writable_datapoints w = Inr n" and "0 < n" and "length ps = Suc n"
    and "\<forall>i \<le> n. db_value_at (wo_buffer w) (wo_cursor w + i) = Inr (ps ! i)"
    and "0 \<le> dp_timestamp (ps ! 0)" and "dp_timestamp (ps ! 0) \<le> max_timestamp f" and "0 < de_duration f"
    and "i64_ok (dp_timestamp (ps ! 0) div de_duration f * 8)"
    and "file_at (dense_get_path dir f) s = Some old" and "\<not> is_dir (strip_slashes (dense_get_path dir f)) s"
    and "writes_ok s"
  shows "\<exists>f' s'. dense_write cfg dir w f s = ((Inr n, f'), s') \<and>
    file_at (dense_get_path dir f) s' =
      Some (splice (nat (dp_timestamp (ps ! 0) div de_duration f) * dense_datapoint_size)
              (enc_all dbl_encode (map dp_value (tl ps))) old)"
proof -
  let ?ts = "dp_timestamp (ps ! 0)" and ?path = "dense_get_path dir f"
  let ?vals = "map dp_value (tl ps)"
  have gather: "gather_values n (db_value_at (wo_buffer w)) (wo_cursor w) = Inr ?vals"
  proof (rule gather_values_shifted)
    show "db_value_at (wo_buffer w) (wo_cursor w + Suc i) = Inr (tl ps ! i)" if "i < n" for i
      using that assms(3) assms(4) [rule_format, of "Suc i"] by (simp add: nth_tl)
  qed (use assms(3) in simp)
  have at: "db_value_at (wo_buffer w) (wo_cursor w) = Inr (ps ! 0)" using assms(4) by (metis add.right_neutral le0)
  have nans: "dense_num_nans f ?ts = Inr 0" using assms(6) by (simp add: dense_num_nans_def)
  have creat: "fs_creat ?path s = (Inr (), s)" using assms(9,10) by (intro fs_creat_existing) simp_all
  have q: "div64 (min ?ts (max_timestamp f)) (de_duration f) = Inr (?ts div de_duration f)"
    using assms(5-7) by (simp add: div64_pos sdiv_nonneg)
  have q0: "0 \<le> ?ts div de_duration f" using assms(5,7) by (simp add: pos_imp_zdiv_nonneg_iff)
  have off: "wrap64 (?ts div de_duration f * int dense_datapoint_size) = ?ts div de_duration f * 8"
    using assms(8) by (simp add: dense_datapoint_size_def wrap64_id)
  obtain os where wr: "write_values dbl_encode ?path (nat (?ts div de_duration f * 8)) ?vals s =
      (Inr (), fs_write_at ?path (nat (?ts div de_duration f * 8)) (enc_all dbl_encode ?vals) (s\<lparr>fs_writes := os\<rparr>))"
    by (rule write_values_granted [OF assms(11)])
  let ?s' = "fs_write_at ?path (nat (?ts div de_duration f * 8)) (enc_all dbl_encode ?vals) (s\<lparr>fs_writes := os\<rparr>)"
  have "dense_write cfg dir w f s = ((Inr n, f\<lparr>max_timestamp := wrap64 (max_timestamp f + int n * de_duration f)\<rparr>), ?s')"
    using assms(1,2,3) gather at nans creat q q0 off wr by (simp add: dense_write_def Let_def)
  moreover have "enc_all dbl_encode ?vals \<noteq> []"
  proof -
    have "length (enc_all dbl_encode ?vals) = n * 8" using assms(3) by (simp add: dense_datapoint_size_def)
    with assms(2) show ?thesis by (metis length_0_conv mult_is_0 not_gr0 numeral_neq_zero)
  qed
  moreover have "nat (?ts div de_duration f * 8) = nat (?ts div de_duration f) * dense_datapoint_size"
    by (simp add: nat_mult_distrib q0 dense_datapoint_size_def)
  ultimately show ?thesis using assms(9) by (auto simp: file_at_write_at)
qed

theorem dense_write_misplaces_values_witness:
  "\<exists>f' s'. dense_write demo_config ''d'' (demo_raw 1) demo_dense (demo_posix ''d/10@5'' []) = ((Inr 1, f'), s') \<and>
     file_at ''d/10@5'' s' = Some (splice (3 * 8) (enc_all dbl_encode [2]) [])"
proof -
  have path: "dense_get_path ''d'' demo_dense = ''d/10@5''" by code_simp
  let ?ps = "[Datapoint 15 1 5, Datapoint 20 2 5]"
  have "\<forall>i \<le> (1 :: nat). db_value_at (wo_buffer (demo_raw 1)) (wo_cursor (demo_raw 1) + i) = Inr (?ps ! i)"
    by (auto simp: demo_raw_def db_value_at_def raw_value_at_def less_Suc_eq)
  moreover have "i64_ok (15 div 5 * 8)" by code_simp
  moreover have fields: "max_timestamp demo_dense = 30" "de_duration demo_dense = 5" by (simp_all add: demo_dense_def)
  ultimately show ?thesis
    using dense_write_misplaces_values [of "demo_raw 1" 1 ?ps demo_dense "''d''" "demo_posix ''d/10@5'' []" "[]" demo_config]
    by (auto simp: demo_raw_writable path fields Datapoint_def file_at_def demo_posix_def is_dir_def
        strip_slashes_def dense_datapoint_size_def writes_ok_def)
qed

end
