(* ===== verification/ConstantStore.thy ===== *)
theory ConstantStore
  imports DenseStore
begin

text \<open>
  \<open>constant_file.h/.cc\<close>: files whose name is their whole content.
\<close>

section \<open>Constant files\<close>

primrec constant_copy :: "nat \<Rightarrow> constant_file \<Rightarrow> (unit, read_op) prog" where
  "constant_copy 0 f r = (Inr (), r)"
| "constant_copy (Suc n) f r =
     (case appendM (Datapoint (ro_next_time r) (cf_value f) (cf_duration f)) r of
        (Inl e, r') \<Rightarrow> (Inl e, r')
      | (Inr _, r') \<Rightarrow> constant_copy n f r')"

text \<open>
  \<open>while (datapoints_to_read--)\<close>: a negative count runs through the whole range of
  \<open>int64_t\<close> before it reaches zero.
\<close>

definition constant_read :: "constant_file \<Rightarrow> (unit, read_op) prog" where
  "constant_read f r =
     (case align_next_time (ro_next_time r) (cf_duration f) of
       Inl e \<Rightarrow> (Inl e, r)
     | Inr next \<Rightarrow>
         let r1 = r\<lparr>ro_next_time := next\<rparr> in
         if max_timestamp f < next then (Inr (), r1)
         else
           let read_end_time = min (max_timestamp f) (ro_end_time r) in
           (case div64 (wrap64 (read_end_time - next)) (cf_duration f) of
             Inl e \<Rightarrow> (Inl e, r1)
           | Inr n \<Rightarrow> constant_copy (u64_of_i64 n) f r1))"

definition constant_write ::
  "string \<Rightarrow> write_op \<Rightarrow> constant_file \<Rightarrow> 'a posix_scheme \<Rightarrow> (nat res \<times> constant_file) \<times> 'a posix_scheme" where
  "constant_write dir w f s =
     (case writable_datapoints w of
       Inl e \<Rightarrow> ((Inl e, f), s)
     | Inr n \<Rightarrow>
         if n = 0 then ((Inr 0, f), s)
         else
           let count = wrap64 (cf_count f + int n);
               f' = f\<lparr>cf_count := count, max_timestamp := wrap64 (min_timestamp f + count * cf_duration f)\<rparr>
           in (case fs_rename (constant_get_path dir f) (constant_get_path dir f') s of
               (Inl e, s1) \<Rightarrow> ((Inl (IOErr ''ConstantFile::Write rename() failed'' e), f'), s1)
             | (Inr _, s1) \<Rightarrow> ((Inr n, f'), s1)))"

section \<open>What a read of a constant file returns\<close>

lemma constant_copy_dense:
  "\<not> isnan (cf_value f) \<Longrightarrow> constant_copy n f r = dense_copy (cf_duration f) (replicate n (cf_value f)) r"
  by (induction n arbitrary: r) (auto split: prod.splits sum.splits)

text \<open>How many datapoints a read of a constant file produces.\<close>

definition constant_count :: "constant_file \<Rightarrow> read_op \<Rightarrow> nat" where
  "constant_count f r = nat ((min (max_timestamp f) (ro_end_time r) - ro_next_time r) div cf_duration f)"

text \<open>
  Claim C27. Reading a constant file: from a grid point not after the file's end, a read with
  enough room returns the constant at every grid point up to the end of the request or of the
  file, whichever comes first; the file's minimum plays no part.
\<close>

theorem constant_read_returns_values:
  assumes "0 < cf_duration f" and "cf_duration f dvd ro_next_time r" and "\<not> isnan (cf_value f)"
    and "ro_next_time r \<le> max_timestamp f" and "ro_next_time r \<le> ro_end_time r"
    and "i64_ok (ro_next_time r)" and "i64_ok (max_timestamp f)" and "i64_ok (max_timestamp f - ro_next_time r)"
    and "ro_ok r" and "constant_count f r \<le> ro_space_left r"
  shows "\<exists>r'. constant_read f r = (Inr (), r') \<and> ro_ok r' \<and>
    ro_contents r' = ro_contents r @
      stamp (ro_next_time r) (cf_duration f) (replicate (constant_count f r) (cf_value f))"
proof -
  let ?d = "cf_duration f" and ?next = "ro_next_time r"
  let ?w = "min (max_timestamp f) (ro_end_time r) - ?next" and ?vs = "replicate (constant_count f r) (cf_value f)"
  have w: "0 \<le> ?w" "?w \<le> max_timestamp f - ?next" using assms(4,5) by simp_all
  have z: "i64_ok 0" by (simp add: i64_ok_def INT64_MIN_def INT64_MAX_def)
  have w64: "wrap64 ?w = ?w" by (rule wrap64_id [OF i64_ok_between [OF z assms(8) w]])
  have n: "0 \<le> ?w div ?d" using w assms(1) by (simp add: pos_imp_zdiv_nonneg_iff)
  have "?w div ?d \<le> ?w div 1" using w(1) assms(1) by (intro zdiv_mono2) simp_all
  with w(2) have "?w div ?d \<le> max_timestamp f - ?next" unfolding div_by_1 by (rule order_trans [rotated])
  with assms(8) have "?w div ?d \<le> INT64_MAX" by (simp add: i64_ok_def)
  with n have count: "u64_of_i64 (?w div ?d) = constant_count f r"
    by (simp add: u64_of_i64_def constant_count_def INT64_MAX_def)
  have run: "constant_read f r = dense_copy ?d ?vs r"
    using assms(1-4) w w64 count
    by (simp add: constant_read_def align_next_time_aligned Let_def div64_pos sdiv_nonneg constant_copy_dense)
  have vs: "present ?vs = ?vs" using assms(3) by (simp add: present_def)
  have "int (constant_count f r) * ?d = ?w - ?w mod ?d"
    using n by (simp add: constant_count_def minus_mod_eq_div_mult)
  also have "\<dots> \<le> max_timestamp f - ?next" using assms(1) w(2) pos_mod_sign [of ?d ?w] by linarith
  finally have "?next + int (constant_count f r) * ?d \<le> max_timestamp f" by simp
  then have "i64_ok (?next + int (constant_count f r) * ?d)"
    using assms(1) by (rule_tac i64_ok_between [OF assms(6,7)]) simp_all
  then have e: "i64_ok (?next + int (length (present ?vs)) * ?d)" by (simp add: vs)
  have "ro_cursor r + length (present ?vs) \<le> length (ro_buffer r)"
    using assms(9,10) by (simp add: vs ro_ok_def, linarith)
  from dense_copy_room [OF assms(1,6) e this] obtain r' where r': "dense_copy ?d ?vs r = (Inr (), r')"
    "ro_contents r' = ro_contents r @ stamp ?next ?d ?vs" "same_request r r'"
    "ro_cursor r' = ro_cursor r + constant_count f r" by (auto simp: vs)
  moreover have "ro_ok r'" using assms(9,10) r'(3,4) by (auto simp: ro_ok_def same_request_def)
  ultimately show ?thesis by (simp add: run)
qed

theorem constant_read_returns_values_witness:
  "\<exists>r'. constant_read (ConstantFile 10 5 4 1) (demo_read 20 100 8) = (Inr (), r') \<and>
     ro_contents r' = [Datapoint 20 1 5, Datapoint 25 1 5]"
proof -
  have f: "ConstantFile 10 5 4 1 = \<lparr>min_timestamp = 10, max_timestamp = 30, cf_duration = 5, cf_count = 4, cf_value = 1\<rparr>"
    by code_simp
  have c: "constant_count \<lparr>min_timestamp = 10, max_timestamp = 30, cf_duration = 5, cf_count = 4, cf_value = 1\<rparr>
      (demo_read 20 100 8) = 2"
    by (simp add: constant_count_def demo_read_simps)
  show ?thesis unfolding f
    using constant_read_returns_values [where r = "demo_read 20 100 8" and
      f = "\<lparr>min_timestamp = 10, max_timestamp = 30, cf_duration = 5, cf_count = 4, cf_value = 1\<rparr>"]
    unfolding c by (auto simp: demo_read_simps demo_values_not_nan i64_ok_def INT64_MIN_def INT64_MAX_def numeral_2_eq_2)
qed

end
