(* ===== verification/Directory.thy ===== *)
theory Directory
  imports SparseStore ConstantStore
begin

text \<open>
  \<open>datapoint_directory.h/.cc\<close>: the ordered set of datapoint files of one series, the
  search for the first file that can hold a timestamp, reading across files and
  distributing a write over them.

  \<open>FindFirstPotentialFile\<close> is a \<open>partial_function\<close>: \<open>None\<close> means that its loop does not
  end.  The loop of \<open>Write\<close> is one too; its body is the function \<open>dir_write_step\<close>.
\<close>

section \<open>Dispatch on the file class\<close>

datatype any_file = Sparse sparse_file | Dense dense_file | Constant constant_file

definition af_min :: "any_file \<Rightarrow> int" where
  "af_min f = (case f of Sparse g \<Rightarrow> min_timestamp g | Dense g \<Rightarrow> min_timestamp g | Constant g \<Rightarrow> min_timestamp g)"

definition af_max :: "any_file \<Rightarrow> int" where
  "af_max f = (case f of Sparse g \<Rightarrow> max_timestamp g | Dense g \<Rightarrow> max_timestamp g | Constant g \<Rightarrow> max_timestamp g)"

definition af_read :: "config \<Rightarrow> string \<Rightarrow> any_file \<Rightarrow> 'a posix_scheme \<Rightarrow> (unit, read_op) prog" where
  "af_read cfg dir f s = (case f of
       Sparse g \<Rightarrow> sparse_read cfg dir g s | Dense g \<Rightarrow> dense_read dir g s | Constant g \<Rightarrow> constant_read g)"

definition af_write ::
  "config \<Rightarrow> string \<Rightarrow> write_op \<Rightarrow> any_file \<Rightarrow> 'a world_scheme \<Rightarrow>
     (nat res \<times> any_file \<times> dbuffer) \<times> 'a world_scheme" where
  "af_write cfg dir w f s = (case f of
       Sparse g \<Rightarrow> (case sparse_write cfg dir w g s of ((r, g', buf), s') \<Rightarrow> ((r, Sparse g', buf), s'))
     | Dense g \<Rightarrow> (case dense_write cfg dir w g s of ((r, g'), s') \<Rightarrow> ((r, Dense g', wo_buffer w), s'))
     | Constant g \<Rightarrow> (case constant_write dir w g s of ((r, g'), s') \<Rightarrow> ((r, Constant g', wo_buffer w), s')))"

definition af_remaining :: "config \<Rightarrow> string \<Rightarrow> any_file \<Rightarrow> 'a posix_scheme \<Rightarrow> nat res" where
  "af_remaining cfg dir f s = (case f of
       Sparse g \<Rightarrow> sparse_remaining_writable_datapoints cfg dir g s
     | Dense _ \<Rightarrow> Inr SIZE_MAX | Constant _ \<Rightarrow> Inr SIZE_MAX)"

section \<open>The directory object\<close>

record directory =
  dir_path :: string
  dir_filenames_read :: bool
  dir_files :: "any_file list"

definition DatapointDirectory :: "string \<Rightarrow> directory res" where
  "DatapointDirectory p =
     (let path = strip_slashes p in
      if path = '''' then Inl (LogicError ''DatapointDirectory path cannot be empty..'')
      else Inr \<lparr>dir_path = path, dir_filenames_read = False, dir_files = []\<rparr>)"

text \<open>The names of the regular files in a directory, in the order \<open>readdir\<close> gives them.\<close>

definition dir_entries :: "string \<Rightarrow> 'a posix_scheme \<Rightarrow> string list" where
  "dir_entries path s =
     (let pre = path @ ''/'' in
      map (\<lambda>f. drop (length pre) (fst f))
        (filter (\<lambda>f. prefix pre (fst f) \<and> CHR ''/'' \<notin> set (drop (length pre) (fst f))) (fs_files s)))"

text \<open>One regular directory entry: all three classes are tried in turn.\<close>

definition files_of_entry ::
  "config \<Rightarrow> string \<Rightarrow> string \<Rightarrow> 'a posix_scheme \<Rightarrow> any_file list res" where
  "files_of_entry cfg path d_name s =
     bindE (constant_from_filename (c_strtod cfg) d_name) (\<lambda>c.
     bindE (dense_from_filename path d_name s) (\<lambda>d.
       let found = (case c of None \<Rightarrow> [] | Some f \<Rightarrow> [Constant f]) in
       case d of
         Some f \<Rightarrow> Inr (found @ [Dense f])
       | None \<Rightarrow> bindE (sparse_from_filename d_name) (\<lambda>sp.
           Inr (found @ (case sp of None \<Rightarrow> [] | Some f \<Rightarrow> [Sparse f])))))"

primrec files_of_entries ::
  "config \<Rightarrow> string \<Rightarrow> string list \<Rightarrow> 'a posix_scheme \<Rightarrow> any_file list res" where
  "files_of_entries cfg path [] s = Inr []"
| "files_of_entries cfg path (n # ns) s =
     bindE (files_of_entry cfg path (n @ NUL # fs_dirent_tail s) s) (\<lambda>fs.
     bindE (files_of_entries cfg path ns s) (\<lambda>fss. Inr (fs @ fss)))"

definition read_filenames :: "config \<Rightarrow> 'a posix_scheme \<Rightarrow> directory \<Rightarrow> directory res" where
  "read_filenames cfg s d =
     (if is_dir (strip_slashes (dir_path d)) s then
        bindE (files_of_entries cfg (dir_path d) (dir_entries (dir_path d) s) s) (\<lambda>new_files.
          Inr (d\<lparr>dir_files := sort_key af_min new_files, dir_filenames_read := True\<rparr>))
      else Inl (IOErr (''ReadFilenames opendir() failed path='' @ dir_path d) ENOENT))"

section \<open>The search\<close>

partial_function (option) find_loop :: "any_file list \<Rightarrow> int \<Rightarrow> nat \<Rightarrow> nat \<Rightarrow> nat \<Rightarrow> nat option" where
  "find_loop files timestamp left middle right =
     (if left < right then
        (let middle = (right - left) div 2 in
         if timestamp < af_min (files ! middle) then find_loop files timestamp left middle middle
         else if af_min (files ! middle) < timestamp then find_loop files timestamp (middle + 1) middle right
         else Some middle)
      else Some middle)"

definition find_first_potential_file :: "any_file list \<Rightarrow> int \<Rightarrow> nat option" where
  "find_first_potential_file files timestamp = find_loop files timestamp 0 0 (length files)"

section \<open>Reading\<close>

primrec dir_read_loop ::
  "config \<Rightarrow> string \<Rightarrow> 'a posix_scheme \<Rightarrow> any_file list \<Rightarrow> (unit, read_op) prog" where
  "dir_read_loop cfg path s [] r = (Inr (), r)"
| "dir_read_loop cfg path s (f # fs) r =
     (if ro_space_left r \<noteq> 0 \<and> \<not> ro_complete r then
        (if af_max f < ro_next_time r then dir_read_loop cfg path s fs r
         else if ro_end_time r \<le> af_min f then (Inr (), r)
         else (case af_read cfg path f s r of
             (Inl e, r') \<Rightarrow> (Inl e, r')
           | (Inr _, r') \<Rightarrow> dir_read_loop cfg path s fs r'))
      else (Inr (), r))"

definition is_io_error :: "error \<Rightarrow> bool" where
  "is_io_error e = (case e of IOErr _ _ \<Rightarrow> True | IOErrMsg _ \<Rightarrow> True | _ \<Rightarrow> False)"

definition dir_read ::
  "config \<Rightarrow> 'a posix_scheme \<Rightarrow> directory \<Rightarrow> read_op \<Rightarrow> ((unit res \<times> directory) \<times> read_op) option" where
  "dir_read cfg s d r =
     (case (if dir_filenames_read d then Inr d else read_filenames cfg s d) of
       Inl e \<Rightarrow> Some ((if is_io_error e then Inr () else Inl e, d), r)
     | Inr d' \<Rightarrow>
         (case find_first_potential_file (dir_files d') (ro_next_time r) of
           None \<Rightarrow> None
         | Some i \<Rightarrow> (case dir_read_loop cfg (dir_path d') s (drop i (dir_files d')) r of
             (res, r') \<Rightarrow> Some ((res, d'), r'))))"

section \<open>Writing\<close>

text \<open>The files before and from \<open>file_it\<close> on, the write operation and the world.\<close>

record 'a dw_state =
  dw_before :: "any_file list"
  dw_after :: "any_file list"
  dw_op :: write_op
  dw_world :: "'a world_scheme"

definition dw_skip :: "'a dw_state \<Rightarrow> 'a dw_state" where
  "dw_skip st = (case dw_after st of [] \<Rightarrow> st
     | f # fs \<Rightarrow> st\<lparr>dw_before := dw_before st @ [f], dw_after := fs\<rparr>)"

definition limit_of_next :: "any_file list \<Rightarrow> int" where
  "limit_of_next fs = (case fs of [] \<Rightarrow> INT64_MAX | g # _ \<Rightarrow> wrap64 (af_min g - 1))"

definition wo_timestamp :: "write_op \<Rightarrow> int res" where
  "wo_timestamp w = bindE (db_value_at (wo_buffer w) (wo_cursor w)) (\<lambda>p. Inr (dp_timestamp p))"

text \<open>The second half of the loop body: a new sparse file before \<open>file_it\<close>.\<close>

definition dw_create :: "config \<Rightarrow> string \<Rightarrow> 'a dw_state \<Rightarrow> unit res \<times> 'a dw_state" where
  "dw_create cfg path st =
     (let w = (dw_op st)\<lparr>wo_max_writable_timestamp := limit_of_next (dw_after st),
                wo_max_writable_datapoints := sparse_file_max_size cfg div datapoint_size\<rparr>
      in case wo_timestamp w of
        Inl e \<Rightarrow> (Inl e, st\<lparr>dw_op := w\<rparr>)
      | Inr ts \<Rightarrow>
          (case sparse_write cfg path w (SparseFile ts ts False) (dw_world st) of
            ((Inl e, f, buf), s') \<Rightarrow> (Inl e, st\<lparr>dw_op := w\<lparr>wo_buffer := buf\<rparr>, dw_world := s'\<rparr>)
          | ((Inr n, f, buf), s') \<Rightarrow>
              (Inr (), st\<lparr>dw_op := w\<lparr>wo_buffer := buf, wo_cursor := wo_cursor w + n\<rparr>,
                 dw_before := dw_before st @ [Sparse f], dw_world := s'\<rparr>)))"

definition dir_write_step :: "config \<Rightarrow> string \<Rightarrow> 'a dw_state \<Rightarrow> unit res \<times> 'a dw_state" where
  "dir_write_step cfg path st =
     (case dw_after st of
       [] \<Rightarrow> dw_create cfg path st
     | f # fs \<Rightarrow>
         (case af_remaining cfg path f (dw_world st) of
           Inl e \<Rightarrow> (Inl e, st)
         | Inr remaining \<Rightarrow>
             let w1 = (dw_op st)\<lparr>wo_max_writable_datapoints := remaining\<rparr> in
             if remaining = 0 then (Inr (), dw_skip (st\<lparr>dw_op := w1\<rparr>))
             else
               let w2 = w1\<lparr>wo_max_writable_timestamp := limit_of_next fs\<rparr> in
               (case wo_timestamp w2 of
                 Inl e \<Rightarrow> (Inl e, st\<lparr>dw_op := w2\<rparr>)
               | Inr ts \<Rightarrow>
                   if limit_of_next fs < ts then (Inr (), dw_skip (st\<lparr>dw_op := w2\<rparr>))
                   else if af_min f \<le> ts then
                     (case af_write cfg path w2 f (dw_world st) of
                       ((Inl e, f', buf), s') \<Rightarrow>
                         (Inl e, st\<lparr>dw_after := f' # fs, dw_op := w2\<lparr>wo_buffer := buf\<rparr>, dw_world := s'\<rparr>)
                     | ((Inr n, f', buf), s') \<Rightarrow>
                         let st' = st\<lparr>dw_before := dw_before st @ [f'], dw_after := fs,
                               dw_op := w2\<lparr>wo_buffer := buf, wo_cursor := wo_cursor w2 + n\<rparr>,
                               dw_world := s'\<rparr>
                         in if n \<noteq> 0 then (Inr (), st') else dw_create cfg path st')
                   else dw_create cfg path (st\<lparr>dw_op := w2\<rparr>))))"

partial_function (option) dir_write_loop ::
  "config \<Rightarrow> string \<Rightarrow> 'a dw_state \<Rightarrow> (unit res \<times> 'a dw_state) option" where
  "dir_write_loop cfg path st =
     (if wo_complete (dw_op st) then Some (Inr (), st)
      else (case dir_write_step cfg path st of
          (Inl e, st') \<Rightarrow> Some (Inl e, st')
        | (Inr _, st') \<Rightarrow> dir_write_loop cfg path st'))"

definition dir_write ::
  "config \<Rightarrow> directory \<Rightarrow> write_op \<Rightarrow> 'a world_scheme \<Rightarrow>
     ((unit res \<times> directory \<times> write_op) \<times> 'a world_scheme) option" where
  "dir_write cfg d w s =
     (case create_directory (dir_path d) s of
       (Inl e, s1) \<Rightarrow> Some ((Inl e, d, w), s1)
     | (Inr _, s1) \<Rightarrow>
         (case (if dir_filenames_read d then Inr d else read_filenames cfg s1 d) of
           Inl e \<Rightarrow> Some ((Inl e, d, w), s1)
         | Inr d1 \<Rightarrow>
             (case wo_timestamp w of
               Inl e \<Rightarrow> Some ((Inl e, d1, w), s1)
             | Inr ts \<Rightarrow>
                 (case find_first_potential_file (dir_files d1) ts of
                   None \<Rightarrow> None
                 | Some i \<Rightarrow>
                     (case dir_write_loop cfg (dir_path d1)
                        \<lparr>dw_before = take i (dir_files d1), dw_after = drop i (dir_files d1),
                         dw_op = w, dw_world = s1\<rparr> of
                       None \<Rightarrow> None
                     | Some (res, st) \<Rightarrow>
                         Some ((res, d1\<lparr>dir_files := dw_before st @ dw_after st\<rparr>, dw_op st), dw_world st))))))"

section \<open>File names and their classes\<close>

text \<open>
  The name a sparse file gets is read back by \<open>ReadFilenames\<close> as exactly that file
  and as nothing else, whatever memory follows the name in the directory entry.
\<close>

theorem sparse_name_read_back:
  assumes "i64_ok (min_timestamp f)" and "i64_ok (max_timestamp f)" and "\<not> sf_optimized f"
  shows "files_of_entry cfg path (sparse_basename f @ NUL # tail) s = Inr [Sparse f]"
  by (simp add: files_of_entry_def sparse_name_not_dense [OF assms(1)] sparse_name_back [OF assms])

theorem sparse_name_read_back_witness:
  "files_of_entry demo_config ''d'' (sparse_basename (SparseFile (-5) 20 False) @ NUL # ''tail'') (demo_posix ''d/x'' []) =
     Inr [Sparse (SparseFile (-5) 20 False)]"
  by (rule sparse_name_read_back) (simp_all add: SparseFile_def i64_ok_def INT64_MIN_def INT64_MAX_def)

text \<open>
  The name of an optimised sparse file is only recognised by accident: the suffix
  length is the size of a pointer, so the parser skips three characters past the end of the
  name and accepts it exactly if the memory there happens to hold a NUL.
\<close>

theorem optimized_name_depends_on_junk:
  assumes "i64_ok (min_timestamp f)" and "i64_ok (max_timestamp f)" and "sf_optimized f"
    and "3 < length tail"
  shows "files_of_entry cfg path (sparse_basename f @ NUL # tail) s =
    Inr (if tail ! 3 = NUL then [Sparse f] else [])"
  using assms(4)
  by (simp add: files_of_entry_def sparse_name_not_dense [OF assms(1)] sparse_opt_name_back [OF assms(1-3)]
      deref_def Cons_nth_drop_Suc [symmetric])

theorem optimized_name_depends_on_junk_witness:
  "files_of_entry demo_config ''d'' (sparse_basename (SparseFile 0 20 True) @ NUL # ''abcd'') (demo_posix ''d/x'' []) = Inr [] \<and>
   files_of_entry demo_config ''d'' (sparse_basename (SparseFile 0 20 True) @ NUL # [NUL, NUL, NUL, NUL]) (demo_posix ''d/x'' []) =
     Inr [Sparse (SparseFile 0 20 True)]"
proof -
  have f: "i64_ok (min_timestamp (SparseFile 0 20 True))" "i64_ok (max_timestamp (SparseFile 0 20 True))"
    "sf_optimized (SparseFile 0 20 True)"
    by (simp_all add: SparseFile_def i64_ok_def INT64_MIN_def INT64_MAX_def)
  have "CHR ''d'' \<noteq> NUL" by code_simp
  then show ?thesis by (simp add: optimized_name_depends_on_junk [OF f])
qed

text \<open>
  A constant file is lost at the next directory scan: the name \<open>GetPath\<close> gives it
  lacks the value that \<open>FromFilename\<close> requires, and no class accepts it.
\<close>

theorem constant_file_not_found_again:
  assumes "i64_ok (min_timestamp f)" and "i64_ok (cf_duration f)" and "i64_ok (cf_count f)"
  shows "files_of_entry cfg path (constant_basename f @ NUL # tail) s = Inr []"
  by (simp add: files_of_entry_def constant_name_lost [OF assms])

theorem constant_file_not_found_again_witness:
  "files_of_entry demo_config ''d'' (constant_basename (ConstantFile 0 5 100 0) @ NUL # ''tail'') (demo_posix ''d/x'' []) = Inr []"
  by (rule constant_file_not_found_again)
    (simp_all add: ConstantFile_def i64_ok_def INT64_MIN_def INT64_MAX_def)

section \<open>The search for the first file\<close>

text \<open>
  What the loop amounts to: \<open>left\<close> never leaves zero for good, so the search only halves
  \<open>right\<close>, and a file that starts before the timestamp ends it only among the first two.
\<close>

function find_halving :: "any_file list \<Rightarrow> int \<Rightarrow> nat \<Rightarrow> nat option" where
  "find_halving files t r =
     (if r = 0 then Some 0
      else if t < af_min (files ! (r div 2)) then find_halving files t (r div 2)
      else if af_min (files ! (r div 2)) = t \<or> r \<le> 2 then Some (r div 2)
      else None)"
  by pat_completeness auto
termination by (relation "measure (\<lambda>(files, t, r). r)") auto

declare find_halving.simps [simp del]

text \<open>The states that are never left: three files or more, and a middle one that starts too early.\<close>

definition find_stuck :: "any_file list \<Rightarrow> int \<Rightarrow> nat \<Rightarrow> nat \<Rightarrow> bool" where
  "find_stuck files t left right \<longleftrightarrow> 3 \<le> right \<and> left \<le> right div 2 + 1 \<and>
     (\<forall>i \<le> right div 2. af_min (files ! i) < t)"

lemma find_loop_stuck:
  assumes "find_loop files t left middle right = Some y"
  shows "\<not> find_stuck files t left right"
proof (rule find_loop.raw_induct [OF _ assms, where P = "\<lambda>files t left middle right y. \<not> find_stuck files t left right"])
  fix loop files t left middle right y
  assume IH: "\<And>files t left middle right y. loop files t left middle right = Some y \<Longrightarrow> \<not> find_stuck files t left right"
    and step: "(if left < right
      then let middle = (right - left) div 2
           in if t < af_min (files ! middle) then loop files t left middle middle
              else if af_min (files ! middle) < t then loop files t (middle + 1) middle right
              else Some middle
      else Some middle) = Some y"
  show "\<not> find_stuck files t left right"
  proof
    assume stuck: "find_stuck files t left right"
    let ?m = "(right - left) div 2"
    from stuck have lr: "left < right" and m: "?m \<le> right div 2"
      by (auto simp: find_stuck_def div_le_mono)
    with stuck have "af_min (files ! ?m) < t" by (simp add: find_stuck_def)
    with step lr have "loop files t (?m + 1) ?m right = Some y" by (simp add: Let_def)
    from IH [OF this] stuck m show False by (auto simp: find_stuck_def)
  qed
qed

lemma find_loop_halving:
  assumes "sorted (map af_min files)" and "right \<le> length files" and "right = 0 \<longrightarrow> middle = 0"
  shows "find_loop files t 0 middle right = find_halving files t right"
  using assms(2,3)
proof (induction right arbitrary: middle rule: less_induct)
  case (less r)
  let ?m = "r div 2"
  show ?case
  proof (cases "r = 0")
    case True
    with less.prems show ?thesis by (simp add: find_loop.simps find_halving.simps)
  next
    case r: False
    then have m: "?m < r" by simp
    consider "t < af_min (files ! ?m)" | "af_min (files ! ?m) = t"
      | "af_min (files ! ?m) < t" "r \<le> 2" | "af_min (files ! ?m) < t" "3 \<le> r" by linarith
    then show ?thesis
    proof cases
      case 1
      have "find_loop files t 0 middle r = find_loop files t 0 ?m ?m"
        using r 1 by (subst find_loop.simps) (simp add: Let_def)
      moreover have "find_halving files t r = find_halving files t ?m"
        using r 1 by (subst find_halving.simps) simp
      ultimately show ?thesis using less.IH [OF m, of ?m] less.prems(1) by simp
    next
      case 2
      with r show ?thesis by (subst find_loop.simps, subst find_halving.simps) (simp add: Let_def)
    next
      case 3
      then have "find_loop files t 0 middle r = find_loop files t (?m + 1) ?m r"
        using r by (subst find_loop.simps) (simp add: Let_def)
      also have "\<dots> = Some ?m" using 3 r by (subst find_loop.simps) (auto simp: le_Suc_eq numeral_2_eq_2)
      finally show ?thesis using 3 r by (subst find_halving.simps) simp
    next
      case 4
      have "af_min (files ! i) < t" if "i \<le> ?m" for i
      proof -
        from that m less.prems(1) have "map af_min files ! i \<le> map af_min files ! ?m"
          by (intro sorted_nth_mono [OF assms(1)]) simp_all
        with 4 that m less.prems(1) show ?thesis by simp
      qed
      with 4 have "find_stuck files t 0 r" by (simp add: find_stuck_def)
      then have "find_loop files t 0 middle r = None"
        using find_loop_stuck [of files t 0 middle r] by (cases "find_loop files t 0 middle r") auto
      with 4 show ?thesis by (subst find_halving.simps) simp
    qed
  qed
qed

text \<open>How many files start at or before the timestamp.\<close>

definition starts_by :: "any_file list \<Rightarrow> int \<Rightarrow> nat" where
  "starts_by files t = length (filter (\<lambda>f. af_min f \<le> t) files)"

lemma starts_by_prefix:
  assumes "sorted_wrt (<) (map af_min files)" and "m < length files" and "af_min (files ! m) \<le> t"
    and "\<forall>i. m < i \<and> i < length files \<longrightarrow> t < af_min (files ! i)"
  shows "starts_by files t = Suc m"
proof -
  have "filter (\<lambda>f. af_min f \<le> t) files = filter (\<lambda>f. af_min f \<le> t) (take (Suc m) files)
      @ filter (\<lambda>f. af_min f \<le> t) (drop (Suc m) files)"
    by (simp flip: filter_append)
  also have "filter (\<lambda>f. af_min f \<le> t) (drop (Suc m) files) = []"
    using assms(4) by (auto simp: filter_empty_conv in_set_conv_nth not_le)
  also have "filter (\<lambda>f. af_min f \<le> t) (take (Suc m) files) = take (Suc m) files"
  proof (rule filter_True, rule ballI)
    fix f assume "f \<in> set (take (Suc m) files)"
    then obtain i where i: "i \<le> m" "f = files ! i"
      by (auto simp: in_set_conv_nth less_Suc_eq_le)
    with assms(2) have "map af_min files ! i \<le> map af_min files ! m"
      by (intro sorted_nth_mono [OF strict_sorted_imp_sorted [OF assms(1)]]) simp_all
    with i assms(2,3) show "af_min f \<le> t" by simp
  qed
  finally show ?thesis using assms(2) by (simp add: starts_by_def)
qed

lemma starts_by_none: "\<forall>i < length files. t < af_min (files ! i) \<Longrightarrow> starts_by files t = 0"
  by (auto simp: starts_by_def filter_empty_conv in_set_conv_nth not_le)

lemma find_halving_right:
  assumes "sorted_wrt (<) (map af_min files)" and "r \<le> length files"
    and "\<forall>i. r \<le> i \<and> i < length files \<longrightarrow> t < af_min (files ! i)"
    and "find_halving files t r = Some i"
  shows "i = starts_by files t - 1"
  using assms(2-4)
proof (induction r rule: less_induct)
  case (less r)
  let ?m = "r div 2"
  have mono: "af_min (files ! j) < af_min (files ! k)" if "j < k" "k < length files" for j k
    using sorted_wrt_nth_less [OF assms(1), of j k] that by simp
  show ?case
  proof (cases "r = 0")
    case True
    with less.prems starts_by_none [of files t] show ?thesis by (simp add: find_halving.simps)
  next
    case r: False
    then have m: "?m < r" "?m < length files" using less.prems(1) by simp_all
    show ?thesis
    proof (cases "t < af_min (files ! ?m)")
      case True
      with r less.prems(3) have "find_halving files t ?m = Some i" by (subst (asm) find_halving.simps) simp
      moreover have "t < af_min (files ! j)" if "?m \<le> j" "j < length files" for j
        using True mono [of ?m j] that by (cases "j = ?m") auto
      ultimately show ?thesis using less.IH [OF m(1)] m(2) by simp
    next
      case False
      with r less.prems(3) have i: "i = ?m" and c: "af_min (files ! ?m) = t \<or> r \<le> 2"
        by (subst (asm) find_halving.simps, simp split: if_splits)+
      have "t < af_min (files ! j)" if "?m < j" "j < length files" for j
      proof (cases "af_min (files ! ?m) = t")
        case True
        with mono [OF that] show ?thesis by simp
      next
        case False
        with c have "r \<le> 2" by simp
        with r that(1) have "r \<le> j" by (cases "r = 1") auto
        with less.prems(2) that(2) show ?thesis by simp
      qed
      with starts_by_prefix [OF assms(1) m(2)] False i show ?thesis by simp
    qed
  qed
qed

lemma find_first_halving:
  "sorted (map af_min files) \<Longrightarrow> find_first_potential_file files t = find_halving files t (length files)"
  by (simp add: find_first_potential_file_def find_loop_halving)

text \<open>
  Claim C23. Where the search for the first file returns on files with increasing minimums, it
  returns the last file that starts at or before the timestamp, and the first file when none
  does.
\<close>

theorem search_finds_last_start:
  assumes "sorted_wrt (<) (map af_min files)" and "find_first_potential_file files t = Some i"
  shows "i = length (filter (\<lambda>f. af_min f \<le> t) files) - 1"
  using find_halving_right [OF assms(1), of "length files" t i] assms
  by (simp add: find_first_halving strict_sorted_imp_sorted starts_by_def)

definition demo_files :: "any_file list" where
  "demo_files = [Sparse (SparseFile 10 15 False), Sparse (SparseFile 20 25 False), Sparse (SparseFile 30 35 False)]"

theorem search_finds_last_start_witness:
  "find_first_potential_file demo_files 20 = Some 1 \<and> length (filter (\<lambda>f. af_min f \<le> 20) demo_files) - 1 = 1"
proof -
  have strict: "sorted_wrt (<) (map af_min demo_files)"
    by (simp add: demo_files_def af_min_def SparseFile_def)
  have found: "find_first_potential_file demo_files 20 = Some 1"
    by (simp add: find_first_potential_file_def demo_files_def find_loop.simps [of _ _ 0 0] af_min_def SparseFile_def)
  from search_finds_last_start [OF strict found] found show ?thesis by simp
qed

text \<open>
  Claim C24. The search does not return on three or more sorted files when the timestamp lies
  after the start of the middle one: the midpoint is computed as half the width of the range
  instead of half the sum of its ends, so the loop examines the same files for ever.
\<close>

theorem search_hangs_past_the_middle:
  assumes "sorted (map af_min files)" and "3 \<le> length files"
    and "af_min (files ! (length files div 2)) < t"
  shows "find_first_potential_file files t = None"
  using assms by (simp add: find_first_halving) (subst find_halving.simps, auto)

theorem search_hangs_past_the_middle_witness: "find_first_potential_file demo_files 40 = None"
  by (rule search_hangs_past_the_middle) (simp_all add: demo_files_def af_min_def SparseFile_def)

lemma find_halving_two: "r \<le> 2 \<Longrightarrow> \<exists>i. find_halving files t r = Some i"
proof (induction r rule: less_induct)
  case (less r)
  then show ?case by (subst find_halving.simps) simp
qed

text \<open>
  With at most two files the search always returns.
\<close>

theorem search_returns_on_two_files:
  assumes "sorted (map af_min files)" and "length files \<le> 2"
  shows "\<exists>i. find_first_potential_file files t = Some i"
  using assms find_halving_two [of "length files"] by (simp add: find_first_halving)

theorem search_returns_on_two_files_witness:
  "\<exists>i. find_first_potential_file (take 2 demo_files) 40 = Some i"
  by (rule search_returns_on_two_files) (simp_all add: demo_files_def af_min_def SparseFile_def)

end
