(* ===== verification/DirectoryWrite.thy ===== *)
theory DirectoryWrite
  imports Directory
begin

text \<open>
  \<open>DatapointDirectory::Write\<close>: distributing an ordered buffer over the files of a series.
  Every round of the loop either moves to the next file or writes at least one datapoint, so
  the loop ends; and the files stay sorted by minimum, with every file before the insertion
  point starting no later than the datapoint at the cursor.
\<close>

section \<open>What one write to a file may do\<close>

text \<open>A buffer whose datapoints are in order and whose flag says so: sorting leaves it alone.\<close>

definition db_ordered :: "dbuffer \<Rightarrow> bool" where
  "db_ordered d \<longleftrightarrow> sorted (map dp_timestamp (db_points d)) \<and>
     (case d of RawBuf _ \<Rightarrow> True | WBuf b \<Rightarrow> wb_is_sorted b)"

lemma wb_iov_loop_progress:
  "wb_iov_loop b e i m iov = Inr (iov', j) \<Longrightarrow>
     i \<le> j \<and> j \<le> max i e \<and> (i < e \<and> 0 < m \<longrightarrow> i < j)"
proof (induction b e i m iov rule: wb_iov_loop.induct)
  case (1 b e i m iov)
  let ?n = "wb_datapoints_per_alloc b"
  let ?u = "min (e - i) (min (?n - i mod ?n) m)"
  show ?case
  proof (cases "i < e \<and> 0 < m")
    case False
    with "1.prems" show ?thesis by (simp add: wb_iov_loop_stop)
  next
    case True
    show ?thesis
    proof (cases "?n = 0")
      case True
      with \<open>i < e \<and> 0 < m\<close> "1.prems" show ?thesis by (subst (asm) wb_iov_loop.simps) simp
    next
      case n: False
      then have u: "0 < ?u" using True by simp
      show ?thesis
      proof (cases "i div ?n < length iov \<and> i div ?n < length (wb_allocs b)")
        case ok: True
        have "wb_iov_loop b e (i + ?u) (m - ?u)
            (iov[i div ?n := Some \<lparr>iov_base = (i div ?n, i mod ?n), iov_len = ?u * datapoint_size\<rparr>]) = Inr (iov', j)"
          using True n ok "1.prems" by (subst (asm) wb_iov_loop.simps) (simp add: Let_def)
        from "1.IH" [OF refl True n refl refl refl ok this] u True show ?thesis by auto
      next
        case False
        with True n "1.prems" show ?thesis by (subst (asm) wb_iov_loop.simps) (auto simp: Let_def)
      qed
    qed
  qed
qed

lemma raw_shrink_le: "raw_shrink buf pos t w \<le> w"
  by (induction w) auto

lemma raw_shrink_pos: "0 < w \<Longrightarrow> dp_timestamp (buf ! pos) \<le> t \<Longrightarrow> 0 < raw_shrink buf pos t w"
proof (induction w)
  case (Suc w)
  then show ?case by (cases w) auto
qed simp

lemma length_takeWhile_ge:
  "k \<le> length xs \<Longrightarrow> (\<And>j. j < k \<Longrightarrow> P (xs ! j)) \<Longrightarrow> k \<le> length (takeWhile P xs)"
proof (induction xs arbitrary: k)
  case (Cons x xs)
  show ?case
  proof (cases k)
    case (Suc m)
    have "P x" using Cons.prems(2) [of 0] Suc by simp
    moreover have "m \<le> length (takeWhile P xs)"
      using Cons.prems(1) Cons.prems(2) [of "Suc j" for j] Suc by (intro Cons.IH) simp_all
    ultimately show ?thesis using Suc by simp
  qed simp
qed simp

text \<open>
  \<open>GetIOVector\<close> on an ordered buffer leaves it as it is, never counts past its end, and
  counts at least the datapoint at the cursor when that is within the limits.
\<close>

lemma wo_get_iovector_progress:
  assumes "wo_ok w" and "db_ordered (wo_buffer w)" and "wo_get_iovector w = (r, buf)"
  shows "buf = wo_buffer w"
    and "r = Inr (iov, n) \<Longrightarrow> wo_cursor w + n \<le> db_size (wo_buffer w)"
    and "r = Inr (iov, n) \<Longrightarrow> wo_rest w \<noteq> [] \<Longrightarrow> dp_timestamp (hd (wo_rest w)) \<le> wo_max_writable_timestamp w \<Longrightarrow>
      0 < wo_max_writable_datapoints w \<Longrightarrow> 0 < n"
proof -
  let ?c = "wo_cursor w" and ?t = "wo_max_writable_timestamp w" and ?m = "wo_max_writable_datapoints w"
  have size: "db_size (wo_buffer w) = length (db_points (wo_buffer w))" and c: "?c \<le> length (db_points (wo_buffer w))"
    using assms(1) any_buf.buf_size_points by (auto simp: wo_ok_def)
  have "buf = wo_buffer w \<and> (r = Inr (iov, n) \<longrightarrow> ?c + n \<le> length (db_points (wo_buffer w)) \<and>
     (wo_rest w \<noteq> [] \<and> dp_timestamp (hd (wo_rest w)) \<le> ?t \<and> 0 < ?m \<longrightarrow> 0 < n))"
  proof (cases "wo_buffer w")
    case (RawBuf b)
    have ok: "rb_len b \<le> length (rb_mem b)" using assms(1) RawBuf by (simp add: wo_ok_def db_ok_def raw_ok_def)
    have pts: "db_points (wo_buffer w) = take (rb_len b) (rb_mem b)" using RawBuf by (simp add: db_points_def raw_points_def)
    let ?k = "raw_shrink (rb_mem b) ?c ?t (min (if ?c < rb_len b then rb_len b - ?c else 0) ?m)"
    have "?k \<le> rb_len b - ?c" using raw_shrink_le [of "rb_mem b" ?c ?t "min (if ?c < rb_len b then rb_len b - ?c else 0) ?m"]
      by (auto split: if_splits)
    moreover have "0 < ?k" if "wo_rest w \<noteq> []" "dp_timestamp (hd (wo_rest w)) \<le> ?t" "0 < ?m"
    proof -
      from that(1) pts ok have lt: "?c < rb_len b" by (simp add: wo_rest_def)
      then have "hd (wo_rest w) = rb_mem b ! ?c" using pts ok by (simp add: wo_rest_def hd_drop_conv_nth)
      with that lt show ?thesis by (intro raw_shrink_pos) simp_all
    qed
    ultimately show ?thesis
      using assms(3) RawBuf c pts ok
      by (auto simp: wo_get_iovector_def db_get_iovector_def raw_get_iovector_def Let_def split: if_splits)
  next
    case (WBuf b)
    have ok: "wb_ok b" "wb_is_sorted b" "sorted (map dp_timestamp (wb_points b))"
      using assms(1,2) WBuf by (auto simp: wo_ok_def db_ok_def db_ordered_def db_points_def)
    have n: "0 < wb_datapoints_per_alloc b" using ok(1) by (simp add: wb_ok_def)
    have pts: "db_points (wo_buffer w) = wb_points b" using WBuf by (simp add: db_points_def)
    define e where "e = length (takeWhile (\<lambda>p. dp_timestamp p \<le> ?t) (wb_points b))"
    have e: "e \<le> length (wb_points b)" unfolding e_def by (rule length_takeWhile_le)
    have ce: "?c < e" if "wo_rest w \<noteq> []" "dp_timestamp (hd (wo_rest w)) \<le> ?t"
    proof -
      from that(1) pts have lt: "?c < length (wb_points b)" by (simp add: wo_rest_def)
      then have "dp_timestamp (wb_points b ! ?c) \<le> ?t" using that(2) pts by (simp add: wo_rest_def hd_drop_conv_nth)
      have "\<forall>j \<le> ?c. dp_timestamp (wb_points b ! j) \<le> ?t"
      proof (intro allI impI)
        fix j assume "j \<le> ?c"
        with lt have "map dp_timestamp (wb_points b) ! j \<le> map dp_timestamp (wb_points b) ! ?c"
          by (intro sorted_nth_mono [OF ok(3)]) simp_all
        with lt \<open>j \<le> ?c\<close> \<open>dp_timestamp (wb_points b ! ?c) \<le> ?t\<close> show "dp_timestamp (wb_points b ! j) \<le> ?t" by simp
      qed
      then have "Suc ?c \<le> e" unfolding e_def using lt by (intro length_takeWhile_ge) simp_all
      then show ?thesis by simp
    qed
    show ?thesis
    proof (cases "wb_num_datapoints b = 0 \<or> e \<le> ?c")
      case True
      then have "\<not> (wo_rest w \<noteq> [] \<and> dp_timestamp (hd (wo_rest w)) \<le> ?t)"
        using ce length_wb_points [OF ok(1)] pts by (auto simp: wo_rest_def)
      moreover have "r = Inr ([], 0) \<and> buf = WBuf b"
        using True assms(3) WBuf ok(2)
        by (auto simp: wo_get_iovector_def db_get_iovector_def wb_get_iovector_def Let_def e_def split: if_splits)
      ultimately show ?thesis using WBuf c by auto
    next
      case False
      have "\<exists>R. wb_get_iovector ?c ?m ?t b = (R, b) \<and>
          ((\<exists>x. R = Inl x) \<or> (\<exists>iov0. R = bindE (wb_iov_loop b e ?c ?m iov0) (\<lambda>(iov, i). Inr (iov, i - ?c))))"
        using False ok(2) n by (auto simp: wb_get_iovector_def Let_def simp flip: e_def)
      then obtain R where R: "wb_get_iovector ?c ?m ?t b = (R, b)"
        "(\<exists>x. R = Inl x) \<or> (\<exists>iov0. R = bindE (wb_iov_loop b e ?c ?m iov0) (\<lambda>(iov, i). Inr (iov, i - ?c)))"
        by blast
      have rb: "r = R" "buf = WBuf b"
        using R(1) assms(3) WBuf by (auto simp: wo_get_iovector_def db_get_iovector_def)
      have a: "\<exists>iov0 j. wb_iov_loop b e ?c ?m iov0 = Inr (iov, j) \<and> n = j - ?c" if "r = Inr (iov, n)"
        using R(2) that [unfolded rb(1)] by (auto simp: bindE_eq_Inr eq_commute [of "Inr _" "bindE _ _"])
      have b: "?c + (j - ?c) \<le> length (wb_points b) \<and> (0 < ?m \<longrightarrow> 0 < j - ?c)"
        if "wb_iov_loop b e ?c ?m iov0 = Inr (iov', j)" for iov0 iov' j
        using wb_iov_loop_progress [OF that] False e by auto
      have "?c + n \<le> length (wb_points b) \<and> (0 < ?m \<longrightarrow> 0 < n)" if "r = Inr (iov, n)"
        using a [OF that] b by blast
      then show ?thesis using rb(2) WBuf unfolding pts by simp
    qed
  qed
  then show "buf = wo_buffer w"
    and "r = Inr (iov, n) \<Longrightarrow> wo_cursor w + n \<le> db_size (wo_buffer w)"
    and "r = Inr (iov, n) \<Longrightarrow> wo_rest w \<noteq> [] \<Longrightarrow> dp_timestamp (hd (wo_rest w)) \<le> wo_max_writable_timestamp w \<Longrightarrow>
      0 < wo_max_writable_datapoints w \<Longrightarrow> 0 < n"
    by (auto simp: size)
qed

text \<open>What a write returns for the file and the buffer, whatever happens.\<close>

lemma file_is_too_big_min:
  "file_is_too_big dir f s = ((r, f'), s') \<Longrightarrow> min_timestamp f' = min_timestamp f"
  by (auto simp: file_is_too_big_def Let_def split: prod.splits sum.splits)

lemma sparse_finish_write_min:
  "sparse_finish_write cfg dir f bmax s = ((r, f'), s') \<Longrightarrow> min_timestamp f' = min_timestamp f"
  by (auto simp: sparse_finish_write_def Let_def split: if_splits prod.splits sum.splits dest!: file_is_too_big_min)

lemma sparse_write_result:
  assumes "sparse_write cfg dir w f s = ((r, f', buf), s')"
  shows "min_timestamp f' = min_timestamp f"
    and "buf = wo_buffer w \<or> buf = snd (wo_get_iovector w)"
    and "r = Inr n \<Longrightarrow> \<exists>iov. wo_get_iovector w = (Inr (iov, n), buf)"
  using assms
  by (auto simp: sparse_write_def Let_def split: if_splits prod.splits sum.splits dest!: sparse_finish_write_min)

lemma length_gather_values: "gather_values n va it = Inr vs \<Longrightarrow> length vs = n"
  by (induction n arbitrary: it vs) (auto simp: bindE_eq_Inr split: prod.splits)

lemma dense_write_result:
  assumes "dense_write cfg dir w f s = ((r, f'), s')"
  shows "min_timestamp f' = min_timestamp f"
    and "r = Inr n \<Longrightarrow> n = 0 \<or> writable_datapoints w = Inr n"
  using assms
  by (auto simp: dense_write_def Let_def bindE_eq_Inr split: if_splits prod.splits sum.splits option.splits
      dest!: length_gather_values)

lemma constant_write_result:
  assumes "constant_write dir w f s = ((r, f'), s')"
  shows "min_timestamp f' = min_timestamp f" and "r = Inr n \<Longrightarrow> writable_datapoints w = Inr n"
  using assms by (auto simp: constant_write_def Let_def split: if_splits prod.splits sum.splits)

lemma writable_datapoints_le: "wo_ok w \<Longrightarrow> writable_datapoints w = Inr n \<Longrightarrow> wo_cursor w + n \<le> db_size (wo_buffer w)"
proof -
  assume ok: "wo_ok w" and n: "writable_datapoints w = Inr n"
  have "n \<le> length (wo_rest w)"
    using n length_takeWhile_le [of "\<lambda>p. dp_timestamp p < wo_max_writable_timestamp w" "wo_rest w"]
    by (simp add: writable_datapoints_rest [OF ok])
  moreover have "wo_cursor w \<le> length (db_points (wo_buffer w))" "db_size (wo_buffer w) = length (db_points (wo_buffer w))"
    using ok by (auto simp: wo_ok_def any_buf.buf_size_points)
  ultimately show ?thesis by (simp add: wo_rest_def)
qed

lemma af_write_result:
  assumes "af_write cfg dir w f s = ((r, f', buf), s')" and "wo_ok w" and "db_ordered (wo_buffer w)"
  shows "af_min f' = af_min f" and "buf = wo_buffer w"
    and "r = Inr n \<Longrightarrow> wo_cursor w + n \<le> db_size (wo_buffer w)"
proof -
  have "af_min f' = af_min f \<and> buf = wo_buffer w \<and> (r = Inr n \<longrightarrow> wo_cursor w + n \<le> db_size (wo_buffer w))"
  proof (cases f)
    case (Sparse g)
    with assms(1) obtain g' where g: "sparse_write cfg dir w g s = ((r, g', buf), s')" "f' = Sparse g'"
      by (auto simp: af_write_def split: prod.splits)
    note res = sparse_write_result [OF g(1)]
    have same: "buf = wo_buffer w"
      using res(2) wo_get_iovector_progress(1) [OF assms(2,3) prod.collapse [symmetric]] by metis
    moreover have "wo_cursor w + n \<le> db_size (wo_buffer w)" if "r = Inr n"
      using res(3) [OF that] wo_get_iovector_progress(2) [OF assms(2,3)] by blast
    ultimately show ?thesis using res(1) Sparse g(2) by (simp add: af_min_def)
  next
    case (Dense g)
    with assms(1) obtain g' where g: "dense_write cfg dir w g s = ((r, g'), s')" "f' = Dense g'" "buf = wo_buffer w"
      by (auto simp: af_write_def split: prod.splits)
    have "wo_cursor w + n \<le> db_size (wo_buffer w)" if "r = Inr n"
      using dense_write_result(2) [OF g(1) that] writable_datapoints_le [OF assms(2), of n] assms(2)
      by (cases "n = 0") (simp_all add: wo_ok_def)
    then show ?thesis using dense_write_result(1) [OF g(1)] Dense g(2,3) by (simp add: af_min_def)
  next
    case (Constant g)
    with assms(1) obtain g' where g: "constant_write dir w g s = ((r, g'), s')" "f' = Constant g'" "buf = wo_buffer w"
      by (auto simp: af_write_def split: prod.splits)
    then show ?thesis using constant_write_result [OF g(1)] Constant writable_datapoints_le [OF assms(2), of n]
      by (auto simp: af_min_def)
  qed
  then show "af_min f' = af_min f" and "buf = wo_buffer w"
    and "r = Inr n \<Longrightarrow> wo_cursor w + n \<le> db_size (wo_buffer w)" by blast+
qed

lemma wo_timestamp_rest:
  "wo_ok w \<Longrightarrow> wo_rest w \<noteq> [] \<Longrightarrow> wo_timestamp w = Inr (dp_timestamp (hd (wo_rest w)))"
  by (auto simp: wo_timestamp_def wo_ok_def wo_rest_def any_buf.buf_size_points any_buf.value_at_points hd_drop_conv_nth)

section \<open>The loop\<close>

text \<open>
  What holds before every round: the operation is well formed over an ordered buffer, and the
  timestamps and the starts of the files are 64-bit integers.
\<close>

definition dw_ok :: "'a dw_state \<Rightarrow> bool" where
  "dw_ok st \<longleftrightarrow> wo_ok (dw_op st) \<and> db_ordered (wo_buffer (dw_op st)) \<and>
     list_all (\<lambda>p. i64_ok (dp_timestamp p)) (db_points (wo_buffer (dw_op st))) \<and>
     list_all (\<lambda>f. i64_ok (af_min f)) (dw_before st @ dw_after st)"

text \<open>
  And what should hold: the files are sorted by minimum, and those already passed start no
  later than any datapoint still to be written.
\<close>

definition dw_sorted :: "'a dw_state \<Rightarrow> bool" where
  "dw_sorted st \<longleftrightarrow> sorted (map af_min (dw_before st @ dw_after st)) \<and>
     list_all (\<lambda>f. list_all (\<lambda>p. af_min f \<le> dp_timestamp p) (wo_rest (dw_op st))) (dw_before st)"

text \<open>Datapoints left plus files left: every round makes it smaller.\<close>

definition dw_measure :: "'a dw_state \<Rightarrow> nat" where
  "dw_measure st = (db_size (wo_buffer (dw_op st)) - wo_cursor (dw_op st)) + length (dw_after st)"

lemma wo_fields [simp]:
  "wo_ok (w\<lparr>wo_max_writable_datapoints := m\<rparr>) = wo_ok w" "wo_ok (w\<lparr>wo_max_writable_timestamp := t\<rparr>) = wo_ok w"
  "wo_rest (w\<lparr>wo_max_writable_datapoints := m\<rparr>) = wo_rest w" "wo_rest (w\<lparr>wo_max_writable_timestamp := t\<rparr>) = wo_rest w"
  "wo_timestamp (w\<lparr>wo_max_writable_datapoints := m\<rparr>) = wo_timestamp w"
  "wo_timestamp (w\<lparr>wo_max_writable_timestamp := t\<rparr>) = wo_timestamp w"
  by (simp_all add: wo_ok_def wo_rest_def wo_timestamp_def)

lemma wo_rest_sorted:
  "db_ordered (wo_buffer w) \<Longrightarrow> p \<in> set (wo_rest w) \<Longrightarrow> dp_timestamp (hd (wo_rest w)) \<le> dp_timestamp p"
proof -
  assume "db_ordered (wo_buffer w)" and p: "p \<in> set (wo_rest w)"
  then have "sorted (map dp_timestamp (wo_rest w))" by (simp add: db_ordered_def wo_rest_def sorted_wrt_drop drop_map [symmetric])
  with p show ?thesis by (cases "wo_rest w") auto
qed

text \<open>The cursor moves forward; the datapoints still to come are among those before.\<close>

lemma wo_rest_advance: "set (wo_rest (w\<lparr>wo_cursor := wo_cursor w + n\<rparr>)) \<subseteq> set (wo_rest w)"
  using set_drop_subset [of n "wo_rest w"] by (simp add: wo_rest_def drop_drop add.commute)

lemma dw_create_step:
  assumes inv: "dw_ok st" and rest: "wo_rest (dw_op st) \<noteq> []"
    and limit: "dp_timestamp (hd (wo_rest (dw_op st))) \<le> limit_of_next (dw_after st)"
    and cfg: "datapoint_size \<le> sparse_file_max_size cfg" and step: "dw_create cfg path st = (r, st')"
  shows "dw_ok st'" and "r = Inr () \<Longrightarrow> dw_measure st' < dw_measure st"
    and "dw_sorted st \<Longrightarrow> (\<And>f. f \<in> set (dw_after st) \<Longrightarrow> dp_timestamp (hd (wo_rest (dw_op st))) \<le> af_min f) \<Longrightarrow>
      dw_sorted st'"
proof -
  let ?ts = "dp_timestamp (hd (wo_rest (dw_op st)))"
  let ?w = "(dw_op st)\<lparr>wo_max_writable_timestamp := limit_of_next (dw_after st),
                wo_max_writable_datapoints := sparse_file_max_size cfg div datapoint_size\<rparr>"
  have ok: "wo_ok (dw_op st)" "db_ordered (wo_buffer (dw_op st))" using inv by (simp_all add: dw_ok_def)
  have ts: "wo_timestamp ?w = Inr ?ts" using wo_timestamp_rest [OF ok(1) rest] by simp
  obtain z s' where z: "sparse_write cfg path ?w (SparseFile ?ts ?ts False) (dw_world st) = (z, s')" by (rule prod.exhaust)
  moreover obtain q f' buf where "z = (q, f', buf)" by (rule prod_cases3)
  ultimately have sw: "sparse_write cfg path ?w (SparseFile ?ts ?ts False) (dw_world st) = ((q, f', buf), s')" by simp
  note res = sparse_write_result [OF sw]
  have wok: "wo_ok ?w" "db_ordered (wo_buffer ?w)" using ok by simp_all
  note prog = wo_get_iovector_progress [OF wok]
  have buf: "buf = wo_buffer (dw_op st)"
    using res(2) prog(1) [of "fst (wo_get_iovector ?w)" "snd (wo_get_iovector ?w)"] by auto
  have mn: "af_min (Sparse f') = ?ts" using res(1) by (simp add: af_min_def SparseFile_def)
  have "0 < sparse_file_max_size cfg div datapoint_size"
    using cfg by (simp add: div_greater_zero_iff datapoint_size_def)
  then have n: "wo_cursor (dw_op st) + n \<le> db_size (wo_buffer (dw_op st))" "0 < n" if "q = Inr n" for n
    using res(3) [OF that] prog(2,3) rest limit by fastforce+
  let ?later = "\<forall>f \<in> set (dw_after st). ?ts \<le> af_min f"
  have "dw_ok st' \<and> (r = Inr () \<longrightarrow> dw_measure st' < dw_measure st) \<and> (dw_sorted st \<and> ?later \<longrightarrow> dw_sorted st')"
  proof (cases q)
    case (Inl e)
    with step ts sw buf inv show ?thesis by (auto simp: dw_create_def Let_def dw_ok_def dw_sorted_def)
  next
    case (Inr n)
    let ?op = "?w\<lparr>wo_cursor := wo_cursor (dw_op st) + n\<rparr>"
    have st': "r = Inr ()" "dw_before st' = dw_before st @ [Sparse f']" "dw_after st' = dw_after st"
      "dw_op st' = ?op"
      using step ts sw buf Inr by (auto simp: dw_create_def Let_def)
    have pts: "hd (wo_rest (dw_op st)) \<in> set (wo_rest (dw_op st))" using rest by simp
    then have mem: "hd (wo_rest (dw_op st)) \<in> set (db_points (wo_buffer (dw_op st)))"
      unfolding wo_rest_def by (rule in_set_dropD)
    have sub: "set (wo_rest ?op) \<subseteq> set (wo_rest (dw_op st))"
      using wo_rest_advance [of "dw_op st" n] by (simp add: wo_rest_def)
    have "dw_sorted st'" if sorted: "dw_sorted st" and later: ?later
    proof -
      have "af_min f \<le> ?ts" if "f \<in> set (dw_before st)" for f
        using sorted that pts by (auto simp: dw_sorted_def list_all_iff)
      with sorted mn later have "sorted (map af_min (dw_before st' @ dw_after st'))"
        by (auto simp: dw_sorted_def st' sorted_append dest: order_trans)
      moreover have "list_all (\<lambda>f. list_all (\<lambda>p. af_min f \<le> dp_timestamp p) (wo_rest (dw_op st'))) (dw_before st')"
        using sorted sub mn wo_rest_sorted [OF ok(2)] by (force simp: dw_sorted_def st' list_all_iff)
      ultimately show ?thesis by (simp add: dw_sorted_def)
    qed
    moreover have "i64_ok (af_min (Sparse f'))" using inv mem mn by (simp add: dw_ok_def list_all_iff)
    moreover have "wo_ok ?op" using ok n(1) [OF Inr] by (simp add: wo_ok_def)
    ultimately have "dw_ok st' \<and> (dw_sorted st \<and> ?later \<longrightarrow> dw_sorted st')" using inv by (simp add: dw_ok_def st')
    moreover have "dw_measure st' < dw_measure st" using n [OF Inr] by (simp add: dw_measure_def st')
    ultimately show ?thesis by simp
  qed
  then show "dw_ok st'" and "r = Inr () \<Longrightarrow> dw_measure st' < dw_measure st"
    and "dw_sorted st \<Longrightarrow> (\<And>f. f \<in> set (dw_after st) \<Longrightarrow> ?ts \<le> af_min f) \<Longrightarrow> dw_sorted st'" by blast+
qed

text \<open>Passing a file leaves the operation and the order of the files as they are.\<close>

lemma dw_ok_op:
  "dw_ok (st\<lparr>dw_op := (dw_op st)\<lparr>wo_max_writable_datapoints := m\<rparr>\<rparr>) = dw_ok st"
  "dw_ok (st\<lparr>dw_op := (dw_op st)\<lparr>wo_max_writable_datapoints := m, wo_max_writable_timestamp := t\<rparr>\<rparr>) = dw_ok st"
  "dw_sorted (st\<lparr>dw_op := (dw_op st)\<lparr>wo_max_writable_datapoints := m\<rparr>\<rparr>) = dw_sorted st"
  "dw_sorted (st\<lparr>dw_op := (dw_op st)\<lparr>wo_max_writable_datapoints := m, wo_max_writable_timestamp := t\<rparr>\<rparr>) = dw_sorted st"
  by (simp_all add: dw_ok_def dw_sorted_def)

lemma dw_skip_step:
  assumes "dw_after st = f # fs"
  shows "dw_ok (dw_skip st) = dw_ok st" and "dw_measure (dw_skip st) < dw_measure st"
    and "dw_sorted st \<Longrightarrow> list_all (\<lambda>p. af_min f \<le> dp_timestamp p) (wo_rest (dw_op st)) \<Longrightarrow> dw_sorted (dw_skip st)"
  using assms by (simp_all add: dw_skip_def dw_ok_def dw_sorted_def dw_measure_def)

text \<open>The limit of the last file is the largest integer; that of another is just below its successor.\<close>

lemma limit_of_next_Cons:
  "i64_ok (af_min g) \<Longrightarrow> af_min g \<noteq> INT64_MIN \<Longrightarrow> limit_of_next (g # gs) = af_min g - 1"
  by (simp add: limit_of_next_def wrap64_id i64_ok_def INT64_MIN_def INT64_MAX_def)

lemma limit_of_next_ge:
  assumes "i64_ok t" and "list_all (\<lambda>f. i64_ok (af_min f)) (g # gs)" and "t < af_min g"
  shows "t \<le> limit_of_next (g # gs)"
proof -
  have "af_min g \<noteq> INT64_MIN" using assms(1,3) by (auto simp: i64_ok_def)
  with assms show ?thesis by (simp add: limit_of_next_Cons)
qed

lemma dw_first:
  assumes "dw_ok st" and "wo_rest (dw_op st) \<noteq> []"
  shows "i64_ok (dp_timestamp (hd (wo_rest (dw_op st))))"
    and "wo_timestamp (dw_op st) = Inr (dp_timestamp (hd (wo_rest (dw_op st))))"
proof -
  have "hd (wo_rest (dw_op st)) \<in> set (db_points (wo_buffer (dw_op st)))"
    using assms(2) unfolding wo_rest_def by (metis in_set_dropD list.set_sel(1))
  then show "i64_ok (dp_timestamp (hd (wo_rest (dw_op st))))" using assms(1) by (simp add: dw_ok_def list_all_iff)
  show "wo_timestamp (dw_op st) = Inr (dp_timestamp (hd (wo_rest (dw_op st))))"
    using assms by (intro wo_timestamp_rest) (simp_all add: dw_ok_def)
qed
text \<open>
  One round: it keeps the operation and the files well formed and, unless it throws, makes the
  measure smaller; it keeps the order of the files, except where it passes a full file that
  starts after the datapoint to be written.
\<close>

lemma dir_write_step_ok:
  assumes inv: "dw_ok st" and rest: "wo_rest (dw_op st) \<noteq> []"
    and cfg: "datapoint_size \<le> sparse_file_max_size cfg" and step: "dir_write_step cfg path st = (r, st')"
  shows "dw_ok st' \<and> (r = Inr () \<longrightarrow> dw_measure st' < dw_measure st) \<and>
    (dw_sorted st \<and> list_all (\<lambda>f. af_min f \<noteq> INT64_MIN) (dw_after st) \<and>
       (\<forall>f fs. dw_after st = f # fs \<longrightarrow> af_remaining cfg path f (dw_world st) = Inr 0 \<longrightarrow>
          af_min f \<le> dp_timestamp (hd (wo_rest (dw_op st)))) \<longrightarrow> dw_sorted st')"
proof -
  let ?ts = "dp_timestamp (hd (wo_rest (dw_op st)))"
  note first = dw_first [OF inv rest]
  have ok: "wo_ok (dw_op st)" "db_ordered (wo_buffer (dw_op st))" using inv by (simp_all add: dw_ok_def)
  have le: "list_all (\<lambda>p. af_min f \<le> dp_timestamp p) (wo_rest (dw_op st))" if "af_min f \<le> ?ts" for f
    using that wo_rest_sorted [OF ok(2)] by (fastforce simp: list_all_iff)
  show ?thesis
  proof (cases "dw_after st")
    case Nil
    then have "dw_create cfg path st = (r, st')" using step by (simp add: dir_write_step_def)
    from dw_create_step [OF inv rest _ cfg this] Nil first(1)
    show ?thesis by (simp add: limit_of_next_def i64_ok_def)
  next
    case (Cons f fs)
    have mins: "list_all (\<lambda>f. i64_ok (af_min f)) (f # fs)" using inv Cons by (simp add: dw_ok_def)
    show ?thesis
    proof (cases "af_remaining cfg path f (dw_world st)")
      case (Inl e)
      then show ?thesis using step Cons inv by (auto simp: dir_write_step_def)
    next
      case (Inr m)
      let ?w = "(dw_op st)\<lparr>wo_max_writable_datapoints := m, wo_max_writable_timestamp := limit_of_next fs\<rparr>"
      consider "m = 0" | "m \<noteq> 0" "limit_of_next fs < ?ts" | "m \<noteq> 0" "?ts \<le> limit_of_next fs" "af_min f \<le> ?ts"
        | "m \<noteq> 0" "?ts \<le> limit_of_next fs" "?ts < af_min f" by linarith
      then show ?thesis
      proof cases
        case 1
        let ?st = "st\<lparr>dw_op := (dw_op st)\<lparr>wo_max_writable_datapoints := m\<rparr>\<rparr>"
        have st': "r = Inr ()" "st' = dw_skip ?st"
          using step Cons Inr 1 by (simp_all add: dir_write_step_def)
        have af: "dw_after ?st = f # fs" using Cons by simp
        from dw_skip_step [OF af] le [of f] inv Cons Inr 1 show ?thesis
          by (simp add: st' dw_ok_op dw_measure_def)
      next
        case 2
        let ?st = "st\<lparr>dw_op := ?w\<rparr>"
        have st': "r = Inr ()" "st' = dw_skip ?st"
          using step Cons Inr 2 first(2) by (simp_all add: dir_write_step_def Let_def)
        have af: "dw_after ?st = f # fs" using Cons by simp
        have "af_min f \<le> ?ts" if "dw_sorted st" "list_all (\<lambda>f. af_min f \<noteq> INT64_MIN) (f # fs)"
        proof (cases fs)
          case Nil
          with 2 first(1) show ?thesis by (simp add: limit_of_next_def i64_ok_def)
        next
          case (Cons g gs)
          with mins that(2) have "limit_of_next fs = af_min g - 1" by (simp add: limit_of_next_Cons)
          moreover have "af_min f \<le> af_min g" using that(1) Cons \<open>dw_after st = f # fs\<close>
            by (simp add: dw_sorted_def sorted_append)
          ultimately show ?thesis using 2 by simp
        qed
        with dw_skip_step [OF af] le [of f] inv Cons show ?thesis
          by (simp add: st' dw_ok_op dw_measure_def)
      next
        case 3
        obtain z s' where z: "af_write cfg path ?w f (dw_world st) = (z, s')" by (rule prod.exhaust)
        moreover obtain q f' buf where "z = (q, f', buf)" by (rule prod_cases3)
        ultimately have aw: "af_write cfg path ?w f (dw_world st) = ((q, f', buf), s')" by simp
        have wok: "wo_ok ?w" "db_ordered (wo_buffer ?w)" using ok by simp_all
        note res = af_write_result [OF aw wok]
        show ?thesis
        proof (cases q)
          case (Inl e)
          then have "r = Inl e" "st' = st\<lparr>dw_after := f' # fs, dw_op := ?w\<lparr>wo_buffer := buf\<rparr>, dw_world := s'\<rparr>"
            using step Cons Inr 3 first(2) aw by (simp_all add: dir_write_step_def Let_def)
          then show ?thesis using inv res(1,2) Cons by (simp add: dw_ok_def dw_sorted_def)
        next
          case q: (Inr n)
          let ?op = "?w\<lparr>wo_buffer := buf, wo_cursor := wo_cursor ?w + n\<rparr>"
          let ?st = "st\<lparr>dw_before := dw_before st @ [f'], dw_after := fs, dw_op := ?op, dw_world := s'\<rparr>"
          have st': "(if n \<noteq> 0 then (Inr (), ?st) else dw_create cfg path ?st) = (r, st')"
            using step Cons Inr 3 first(2) aw q by (cases "n = 0") (simp_all add: dir_write_step_def Let_def)
          have sub: "set (wo_rest ?op) \<subseteq> set (wo_rest (dw_op st))"
            using wo_rest_advance [of "dw_op st" n] res(2) by (simp add: wo_rest_def)
          have ok': "dw_ok ?st" using inv res Cons q by (simp add: dw_ok_def wo_ok_def)
          have meas: "dw_measure ?st < dw_measure st" using Cons res(2) by (simp add: dw_measure_def)
          have sorted: "dw_sorted ?st" if "dw_sorted st"
            using that Cons res(1) sub le [of f] 3(3) unfolding dw_sorted_def by (simp add: list_all_iff) blast
          show ?thesis
          proof (cases "n = 0")
            case False
            then show ?thesis using st' ok' meas sorted by auto
          next
            case True
            then have cr: "dw_create cfg path ?st = (r, st')" and hd: "wo_rest (dw_op ?st) = wo_rest (dw_op st)"
              using st' res(2) by (simp_all add: wo_rest_def)
            have "?ts \<le> af_min g" if "dw_sorted st" "list_all (\<lambda>f. af_min f \<noteq> INT64_MIN) (f # fs)" "g \<in> set fs" for g
            proof (cases fs)
              case Nil
              with that(3) show ?thesis by simp
            next
              case (Cons h hs)
              with mins that(2) have "limit_of_next fs = af_min h - 1" by (simp add: limit_of_next_Cons)
              moreover have "af_min h \<le> af_min g" using that(1,3) Cons \<open>dw_after st = f # fs\<close>
                by (auto simp: dw_sorted_def sorted_append)
              ultimately show ?thesis using 3 by simp
            qed
            with dw_create_step [OF ok' _ _ cfg cr] 3 rest hd meas sorted Cons show ?thesis by auto
          qed
        qed
      next
        case 4
        let ?st = "st\<lparr>dw_op := ?w\<rparr>"
        have cr: "dw_create cfg path ?st = (r, st')"
          using step Cons Inr 4 first(2) by (simp add: dir_write_step_def Let_def)
        have limit: "?ts \<le> limit_of_next (dw_after ?st)"
          using limit_of_next_ge [OF first(1) mins 4(3)] Cons by simp
        have later: "?ts \<le> af_min g" if "dw_sorted st" "g \<in> set (f # fs)" for g
          using that 4(3) Cons by (auto simp: dw_sorted_def sorted_append)
        have ok': "dw_ok ?st" using inv by (simp add: dw_ok_op)
        from dw_create_step [OF ok' _ _ cfg cr] limit later rest Cons show ?thesis
          by (auto simp: dw_ok_op dw_measure_def)
      qed
    qed
  qed
qed

section \<open>The loop ends\<close>

lemma dir_write_loop_some:
  assumes "dw_ok st" and "datapoint_size \<le> sparse_file_max_size cfg"
  shows "\<exists>r. dir_write_loop cfg path st = Some r"
  using assms(1)
proof (induction "dw_measure st" arbitrary: st rule: less_induct)
  case less
  show ?case
  proof (cases "wo_complete (dw_op st)")
    case True
    then show ?thesis by (subst dir_write_loop.simps) simp
  next
    case False
    obtain r st' where step: "dir_write_step cfg path st = (r, st')" by (rule prod.exhaust)
    have "wo_rest (dw_op st) \<noteq> []" using False less.prems by (simp add: wo_complete_rest dw_ok_def)
    note next_round = dir_write_step_ok [OF less.prems this assms(2) step]
    show ?thesis
    proof (cases r)
      case (Inl e)
      with False step show ?thesis by (subst dir_write_loop.simps) simp
    next
      case (Inr u)
      with next_round less.hyps [of st'] have "\<exists>r. dir_write_loop cfg path st' = Some r" by simp
      with False step Inr show ?thesis by (subst dir_write_loop.simps) simp
    qed
  qed
qed


definition demo_directory :: "any_file list \<Rightarrow> directory" where
  "demo_directory files = \<lparr>dir_path = ''d'', dir_filenames_read = True, dir_files = files\<rparr>"

lemma demo_flush_points: "db_points (wo_buffer demo_flush) = [Datapoint 10 1 5, Datapoint 20 2 5]"
  by (simp add: demo_flush_def db_points_def wb_points_def)

lemma demo_flush_ordered: "db_ordered (wo_buffer demo_flush)"
  unfolding db_ordered_def demo_flush_points
  by (simp add: demo_flush_def wb_is_sorted_def Datapoint_def)


section \<open>The order of the files\<close>

text \<open>
  Claim C16. A round of the loop keeps the files of the series sorted by their minimum, with
  every file before the insertion point starting no later than any datapoint left, unless the
  file it looks at is full and starts after the datapoint to be written.
\<close>

theorem write_round_keeps_order:
  assumes "dw_ok st" and "dw_sorted st" and "\<not> wo_complete (dw_op st)"
    and "list_all (\<lambda>f. af_min f \<noteq> INT64_MIN) (dw_after st)" and "datapoint_size \<le> sparse_file_max_size cfg"
    and "\<And>f fs. dw_after st = f # fs \<Longrightarrow> af_remaining cfg path f (dw_world st) = Inr 0 \<Longrightarrow>
      af_min f \<le> dp_timestamp (hd (wo_rest (dw_op st)))"
  shows "dw_ok (snd (dir_write_step cfg path st)) \<and> dw_sorted (snd (dir_write_step cfg path st))"
proof -
  have "wo_rest (dw_op st) \<noteq> []" using assms(1,3) by (simp add: wo_complete_rest dw_ok_def)
  from dir_write_step_ok [OF assms(1) this assms(5) prod.collapse [symmetric]] assms(2,4,6)
  show ?thesis by blast
qed

definition demo_round :: "any_file list \<Rightarrow> unit dw_state" where
  "demo_round files = \<lparr>dw_before = [], dw_after = files, dw_op = demo_flush, dw_world = demo_world []\<rparr>"

lemma demo_round_ok:
  "list_all (\<lambda>f. i64_ok (af_min f)) files \<Longrightarrow> dw_ok (demo_round files)"
  "sorted (map af_min files) \<Longrightarrow> dw_sorted (demo_round files)"
  by (simp_all add: dw_ok_def dw_sorted_def demo_round_def flush_wo_ok [OF demo_flush_ok] demo_flush_ordered
      demo_flush_points Datapoint_def i64_ok_def INT64_MIN_def INT64_MAX_def)
theorem write_round_keeps_order_witness:
  "dw_ok (snd (dir_write_step demo_config ''d'' (demo_round [Sparse (SparseFile 10 15 False)]))) \<and>
   dw_sorted (snd (dir_write_step demo_config ''d'' (demo_round [Sparse (SparseFile 10 15 False)])))"
proof (rule write_round_keeps_order)
  show "\<not> wo_complete (dw_op (demo_round [Sparse (SparseFile 10 15 False)]))"
    by (simp add: wo_complete_def demo_round_def demo_flush_def db_size_def wb_size_def)
  show "dw_ok (demo_round [Sparse (SparseFile 10 15 False)])"
    by (rule demo_round_ok) (simp add: af_min_def SparseFile_def i64_ok_def INT64_MIN_def INT64_MAX_def)
  show "dw_sorted (demo_round [Sparse (SparseFile 10 15 False)])" by (rule demo_round_ok) simp
qed (auto simp: demo_round_def af_min_def SparseFile_def INT64_MIN_def demo_config_def default_config_def
    datapoint_size_def wo_rest_def demo_flush_points demo_flush_def db_points_def wb_points_def Datapoint_def)

lemma dw_create_file:
  assumes "dw_create cfg path st = (Inr (), st')" and "wo_timestamp (dw_op st) = Inr ts"
  shows "\<exists>g. dw_before st' = dw_before st @ [Sparse g] \<and> dw_after st' = dw_after st \<and> min_timestamp g = ts"
  using assms
  by (auto simp: dw_create_def Let_def SparseFile_def split: prod.splits sum.splits dest!: sparse_write_result(1))

text \<open>
  A full file that starts after the datapoint to be written is passed like any
  other, so the new file for that datapoint is put behind it and the files are no longer
  sorted by their minimum.
\<close>

theorem full_file_breaks_order:
  assumes "dw_after st = [f]" and "af_remaining cfg path f (dw_world st) = Inr 0"
    and "wo_timestamp (dw_op st) = Inr ts" and "ts < af_min f"
    and "dir_write_step cfg path (snd (dir_write_step cfg path st)) = (Inr (), st')"
  shows "\<not> sorted (map af_min (dw_before st' @ dw_after st'))"
proof -
  let ?st = "dw_skip (st\<lparr>dw_op := (dw_op st)\<lparr>wo_max_writable_datapoints := 0\<rparr>\<rparr>)"
  have skip: "dw_before ?st = dw_before st @ [f]" "dw_after ?st = []" "wo_timestamp (dw_op ?st) = Inr ts"
    using assms(1,3) by (simp_all add: dw_skip_def)
  have "dir_write_step cfg path st = (Inr (), ?st)" using assms(1,2) by (simp add: dir_write_step_def)
  with assms(5) skip(2) have "dw_create cfg path ?st = (Inr (), st')" by (simp add: dir_write_step_def)
  from dw_create_file [OF this skip(3)] skip assms(4) show ?thesis by (auto simp: sorted_append af_min_def)
qed

text \<open>A file of one datapoint that may hold no more, and one datapoint to write before it.\<close>

definition full_config :: config where
  "full_config = demo_config\<lparr>sparse_file_max_size := datapoint_size\<rparr>"

definition full_round :: "unit dw_state" where
  "full_round = \<lparr>dw_before = [], dw_after = [Sparse (SparseFile 30 30 False)], dw_op = demo_flush,
     dw_world = demo_world [(''d/30-30'', dp_encode (Datapoint 30 1 5))]\<rparr>"

theorem full_file_breaks_order_witness:
  "\<exists>st'. dir_write_step full_config ''d'' (snd (dir_write_step full_config ''d'' full_round)) = (Inr (), st') \<and>
     \<not> sorted (map af_min (dw_before st' @ dw_after st'))"
proof -
  let ?f = "Sparse (SparseFile 30 30 False)" and ?s = "demo_world [(''d/30-30'', dp_encode (Datapoint 30 1 5))]"
  have p: "sparse_get_path ''d'' (SparseFile 30 30 False) = ''d/30-30''" by code_simp
  have at: "file_at ''d/30-30'' ?s = Some (dp_encode (Datapoint 30 1 5))"
    by (simp add: file_at_def demo_world_def)
  have stat: "fs_stat ''d/30-30'' ?s = Inr (RegNode (dp_encode (Datapoint 30 1 5)))"
    using fs_stat_sparse [OF demo_leaf, of "SparseFile 30 30 False"] p at by simp
  then have full: "af_remaining full_config ''d'' ?f ?s = Inr 0"
    by (simp add: af_remaining_def sparse_remaining_writable_datapoints_def get_file_size_def p full_config_def)
  have ts: "wo_timestamp demo_flush = Inr 10"
    by (simp add: wo_timestamp_def demo_flush_def db_value_at_def wb_value_at_def Datapoint_def)
  let ?w = "demo_flush\<lparr>wo_max_writable_timestamp := INT64_MAX, wo_max_writable_datapoints := Suc 0\<rparr>"
  have w: "flush_ok ?w"
    by (simp add: flush_ok_def demo_flush_def wb_ok_def wb_sorted_ok_def wb_points_def Datapoint_def)
  obtain s1 where c: "fs_creat (sparse_get_path ''d'' (SparseFile 10 10 False)) ?s = (Inr (), s1)"
    using demo_creat [of "[(''d/30-30'', dp_encode (Datapoint 30 1 5))]"] by (auto simp: demo_path)
  have none: "[] = (case file_at (sparse_get_path ''d'' (SparseFile 10 10 False)) ?s of None \<Rightarrow> [] | Some bs \<Rightarrow> bs)"
    by (simp add: demo_path file_at_def demo_world_def)
  have ws: "writable_sorted ?w = [Datapoint 10 1 5]"
    by (simp add: writable_sorted_def demo_flush_def db_points_def wb_points_def Datapoint_def INT64_MAX_def)
  obtain f' buf s' where sw: "sparse_write full_config ''d'' ?w (SparseFile 10 10 False) ?s = ((Inr (Suc 0), f', buf), s')"
    by (rule sparse_write_flush [OF w demo_leaf demo_writes(2) c none refl, where cfg = full_config])
      (auto simp: ws full_config_def demo_config_def default_config_def datapoint_size_def)
  have one: "datapoint_size div datapoint_size = 1" by (simp add: datapoint_size_def)
  have step: "dir_write_step full_config ''d'' full_round =
      (Inr (), full_round\<lparr>dw_op := demo_flush\<lparr>wo_max_writable_datapoints := 0\<rparr>, dw_before := [?f], dw_after := []\<rparr>)"
    using full by (simp add: dir_write_step_def full_round_def dw_skip_def)
  have "\<exists>st'. dir_write_step full_config ''d'' (snd (dir_write_step full_config ''d'' full_round)) = (Inr (), st')"
    unfolding step using sw ts
    by (simp add: dir_write_step_def dw_create_def full_round_def limit_of_next_def full_config_def one Let_def)
  then obtain st' where
    st': "dir_write_step full_config ''d'' (snd (dir_write_step full_config ''d'' full_round)) = (Inr (), st')" ..
  have "dw_after full_round = [?f]" "af_remaining full_config ''d'' ?f (dw_world full_round) = Inr 0"
    "wo_timestamp (dw_op full_round) = Inr 10" "(10::int) < af_min ?f"
    using full ts by (simp_all add: full_round_def af_min_def SparseFile_def)
  from full_file_breaks_order [OF this st'] st' show ?thesis by blast
qed

end
