(* ===== verification/Optimizer.thy ===== *)
theory Optimizer
  imports DirectoryWrite
begin

text \<open>
  \<open>storage_optimizer.h/.cc\<close>: what the optimiser does with a sparse file that has grown too
  big.  The datapoints are read back, and if they lie on a regular grid the file is meant to be
  replaced by a dense or a constant one.

  \<open>junk\<close> is what the freshly allocated read buffer reads as; nothing depends on it.
\<close>

section \<open>Recognising regular series\<close>

text \<open>The loop of \<open>IsDense\<close> over the \<open>n\<close> datapoints still to check.\<close>

fun is_dense_loop :: "int \<Rightarrow> int \<Rightarrow> nat \<Rightarrow> datapoint list \<Rightarrow> int \<Rightarrow> bool res" where
  "is_dense_loop padding dur 0 buf last_timestamp = Inr True"
| "is_dense_loop padding dur (Suc n) [] last_timestamp = Inl OutOfBounds"
| "is_dense_loop padding dur (Suc n) (p # buf) last_timestamp =
     (let delta = wrap64 (dp_timestamp p - last_timestamp) in
      if dp_duration p \<noteq> dur then Inr False
      else bindE (div64 delta dur) (\<lambda>q.
        if padding < q then Inr False
        else bindE (mod64 delta dur) (\<lambda>m.
          if m \<noteq> 0 then Inr False else is_dense_loop padding dur n buf (dp_timestamp p))))"

definition is_dense :: "config \<Rightarrow> datapoint list \<Rightarrow> nat \<Rightarrow> bool res" where
  "is_dense cfg buf len =
     (if len < min_datapoints_for_dense cfg then Inr False
      else case buf of
        [] \<Rightarrow> Inl OutOfBounds
      | p # _ \<Rightarrow> is_dense_loop (max_dense_nan_padding cfg)
          (if dp_duration p \<noteq> 0 then dp_duration p else 1) len buf (dp_timestamp p))"

fun is_constant_loop :: "double \<Rightarrow> nat \<Rightarrow> datapoint list \<Rightarrow> bool res" where
  "is_constant_loop v 0 buf = Inr True"
| "is_constant_loop v (Suc n) [] = Inl OutOfBounds"
| "is_constant_loop v (Suc n) (p # buf) =
     (if almost_equals (dp_value p) v then is_constant_loop v n buf else Inr False)"

definition is_constant :: "config \<Rightarrow> datapoint list \<Rightarrow> nat \<Rightarrow> bool res" where
  "is_constant cfg buf len =
     (if len < min_datapoints_for_constant cfg then Inr False
      else case buf of [] \<Rightarrow> Inl OutOfBounds | p # _ \<Rightarrow> is_constant_loop (dp_value p) len buf)"

section \<open>Converting\<close>

text \<open>What both conversions do once the new file is written; a failed \<open>unlink\<close> is only logged.\<close>

definition finish_conversion ::
  "config \<Rightarrow> sparse_file \<Rightarrow> directory \<Rightarrow> 'a world_scheme \<Rightarrow> (unit res \<times> directory) \<times> 'a world_scheme" where
  "finish_conversion cfg f d s =
     (case fs_unlink (sparse_get_path (dir_path d) f) s of (_, s1) \<Rightarrow>
        (case read_filenames cfg s1 d of
          Inl e \<Rightarrow> ((Inl e, d), s1)
        | Inr d' \<Rightarrow> ((Inr (), d'), s1)))"

definition convert_sparse_to_constant ::
  "config \<Rightarrow> sparse_file \<Rightarrow> datapoint list \<Rightarrow> nat \<Rightarrow> directory \<Rightarrow> 'a world_scheme \<Rightarrow>
     (unit res \<times> directory) \<times> 'a world_scheme" where
  "convert_sparse_to_constant cfg f buf len d s =
     (case buf of [] \<Rightarrow> ((Inl OutOfBounds, d), s)
     | p # _ \<Rightarrow>
         (case constant_write (dir_path d) (WriteOperation (RawBuf (RawBuffer buf len)))
                 (ConstantFile (min_timestamp f) (dp_duration p) 0 (dp_value p)) s of
           ((Inl e, _), s1) \<Rightarrow> ((Inl e, d), s1)
         | ((Inr _, _), s1) \<Rightarrow> finish_conversion cfg f d s1))"

definition convert_sparse_to_dense ::
  "config \<Rightarrow> sparse_file \<Rightarrow> datapoint list \<Rightarrow> nat \<Rightarrow> directory \<Rightarrow> 'a world_scheme \<Rightarrow>
     (unit res \<times> directory) \<times> 'a world_scheme" where
  "convert_sparse_to_dense cfg f buf len d s =
     (case buf of [] \<Rightarrow> ((Inl OutOfBounds, d), s)
     | p # _ \<Rightarrow>
         (case DenseFile (dir_path d) (min_timestamp f) (dp_duration p) s of
           Inl e \<Rightarrow> ((Inl e, d), s)
         | Inr new_file \<Rightarrow>
             (case dense_write cfg (dir_path d) (WriteOperation (RawBuf (RawBuffer buf len))) new_file s of
               ((Inl e, _), s1) \<Rightarrow> ((Inl e, d), s1)
             | ((Inr _, _), s1) \<Rightarrow> finish_conversion cfg f d s1)))"

definition handle_sparse_file_too_big ::
  "config \<Rightarrow> datapoint \<Rightarrow> sparse_file \<Rightarrow> directory \<Rightarrow> 'a world_scheme \<Rightarrow>
     (unit res \<times> directory) \<times> 'a world_scheme" where
  "handle_sparse_file_too_big cfg junk f d s =
     (case sparse_read cfg (dir_path d) f s
             (ReadOperation INT64_MIN INT64_MAX INT64_MAX True
               (replicate (sparse_file_max_size cfg) junk) (read_buffer_size cfg)) of
       (Inl e, _) \<Rightarrow> ((Inl e, d), s)
     | (Inr _, r) \<Rightarrow>
         let buf = ro_buffer r; len = ro_datapoints_in_buffer r in
         (case is_dense cfg buf len of
           Inl e \<Rightarrow> ((Inl e, d), s)
         | Inr dense \<Rightarrow>
             if \<not> dense then ((Inr (), d), s)
             else (case is_constant cfg buf len of
               Inl e \<Rightarrow> ((Inl e, d), s)
             | Inr const \<Rightarrow>
                 if const then convert_sparse_to_constant cfg f buf len d s
                 else convert_sparse_to_dense cfg f buf len d s)))"

section \<open>Which series are regular\<close>

text \<open>Consecutive timestamps are whole numbers of durations apart, and not too many.\<close>

definition regular_gap :: "int \<Rightarrow> int \<Rightarrow> datapoint \<Rightarrow> datapoint \<Rightarrow> bool" where
  "regular_gap padding dur p q \<longleftrightarrow>
     dur dvd dp_timestamp q - dp_timestamp p \<and> dp_timestamp q - dp_timestamp p < (padding + 1) * dur"

lemma div_le_iff_less: "0 < d \<Longrightarrow> x div d \<le> p \<longleftrightarrow> x < (p + 1) * (d :: int)"
proof
  assume d: "0 < d" and "x div d \<le> p"
  then have "(x div d + 1) * d \<le> (p + 1) * d" by simp
  moreover have "x = x div d * d + x mod d" by simp
  then have "x < x div d * d + d" using pos_mod_bound [OF d, of x] by linarith
  then have "x < (x div d + 1) * d" by (simp add: distrib_right)
  ultimately show "x < (p + 1) * d" by simp
next
  assume d: "0 < d" and x: "x < (p + 1) * d"
  have "x = x div d * d + x mod d" by simp
  then have "x div d * d \<le> x" using pos_mod_sign [OF d, of x] by linarith
  with x have "x div d * d < (p + 1) * d" by simp
  with d show "x div d \<le> p" by simp
qed

lemma is_dense_loop_regular:
  assumes "0 < dur" and "sorted (map dp_timestamp (p # ps))" and "n \<le> length ps"
    and "list_all (\<lambda>p. 0 \<le> dp_timestamp p \<and> i64_ok (dp_timestamp p)) (p # ps)"
  shows "is_dense_loop padding dur n ps (dp_timestamp p) =
    Inr (list_all (\<lambda>q. dp_duration q = dur) (take n ps) \<and> successively (regular_gap padding dur) (p # take n ps))"
  using assms(2-)
proof (induction n arbitrary: p ps)
  case (Suc n)
  then obtain q qs where ps: "ps = q # qs" by (cases ps) auto
  let ?d = "dp_timestamp q - dp_timestamp p"
  have d: "0 \<le> ?d" "wrap64 ?d = ?d"
    using Suc.prems ps by (auto intro!: wrap64_id simp: i64_ok_def INT64_MIN_def)
  have ops: "div64 ?d dur = Inr (?d div dur)" "mod64 ?d dur = Inr (?d mod dur)"
    using assms(1) d(1) by (simp_all add: div64_pos mod64_pos sdiv_nonneg smod_nonneg)
  have pad: "\<not> padding < ?d div dur \<longleftrightarrow> ?d < (padding + 1) * dur"
    using assms(1) by (simp add: not_less div_le_iff_less)
  have "is_dense_loop padding dur n qs (dp_timestamp q) =
      Inr (list_all (\<lambda>q. dp_duration q = dur) (take n qs) \<and> successively (regular_gap padding dur) (q # take n qs))"
    using Suc ps by simp
  then show ?case using ps d(2) ops pad
    by (auto simp: Let_def regular_gap_def dvd_eq_mod_eq_0)
qed simp

lemma is_dense_loop_append:
  "is_dense_loop padding dur (length xs) (xs @ ys) t = is_dense_loop padding dur (length xs) xs t"
  by (induction xs arbitrary: t) (simp_all add: Let_def cong: if_cong)

lemma is_dense_take:
  assumes "0 < n" and "n \<le> length ps"
  shows "is_dense cfg ps n = is_dense cfg (take n ps) n"
proof -
  have "is_dense_loop padding dur n ps t = is_dense_loop padding dur n (take n ps) t" for padding dur t
    using is_dense_loop_append [of padding dur "take n ps" "drop n ps" t] assms(2) by simp
  moreover obtain p qs m where "ps = p # qs" "n = Suc m" using assms by (cases ps; cases n) auto
  ultimately show ?thesis by (simp add: is_dense_def del: is_dense_loop.simps)
qed
text \<open>
  Claim C28. On a series in increasing order of time, \<open>IsDense\<close> accepts exactly those with
  enough datapoints of one duration whose neighbours are whole numbers of durations, at most
  the padding limit, apart.
\<close>

theorem is_dense_iff_regular:
  assumes "0 < len" and "len \<le> length buf" and "ps = take len buf" and "0 < dp_duration (hd buf)"
    and "sorted (map dp_timestamp ps)" and "list_all (\<lambda>p. 0 \<le> dp_timestamp p \<and> i64_ok (dp_timestamp p)) ps"
    and "0 \<le> max_dense_nan_padding cfg"
  shows "is_dense cfg buf len = Inr (min_datapoints_for_dense cfg \<le> len \<and>
    list_all (\<lambda>p. dp_duration p = dp_duration (hd buf)) ps \<and>
    successively (\<lambda>p q. dp_duration (hd buf) dvd dp_timestamp q - dp_timestamp p \<and>
      dp_timestamp q - dp_timestamp p < (max_dense_nan_padding cfg + 1) * dp_duration (hd buf)) ps)"
proof -
  from assms(1,2) obtain p rest where buf: "buf = p # rest" by (cases buf) auto
  from assms(1) obtain n where len: "len = Suc n" by (cases len) auto
  let ?dur = "dp_duration p" and ?pad = "max_dense_nan_padding cfg"
  have "is_dense_loop ?pad ?dur n rest (dp_timestamp p) =
      Inr (list_all (\<lambda>q. dp_duration q = ?dur) (take n rest) \<and> successively (regular_gap ?pad ?dur) (p # take n rest))"
    using is_dense_loop_regular [of ?dur p "take n rest" n ?pad] assms(2-6) buf len
      is_dense_loop_append [of ?pad ?dur "take n rest" "drop n rest" "dp_timestamp p"] by simp
  moreover have "regular_gap ?pad ?dur = (\<lambda>p q. ?dur dvd dp_timestamp q - dp_timestamp p \<and>
      dp_timestamp q - dp_timestamp p < (?pad + 1) * ?dur)"
    by (intro ext) (simp add: regular_gap_def)
  moreover have "wrap64 0 = 0" "div64 0 ?dur = Inr 0" "mod64 0 ?dur = Inr 0"
    using assms(4) buf by (simp_all add: wrap64_def div64_pos mod64_pos sdiv_nonneg smod_nonneg)
  ultimately show ?thesis
    using assms(3,4,7) buf len by (simp add: is_dense_def not_le not_less)
qed
definition small_config :: config where
  "small_config = demo_config\<lparr>sparse_file_max_size := 72, read_buffer_size := 3,
     min_datapoints_for_dense := 3, min_datapoints_for_constant := 3\<rparr>"

lemma small_config_sel:
  "sparse_file_max_size small_config = 72" "read_buffer_size small_config = 3"
  "min_datapoints_for_dense small_config = 3" "max_dense_nan_padding small_config = 256"
  by (simp_all add: small_config_def demo_config_def default_config_def)

theorem is_dense_iff_regular_witness:
  "is_dense small_config [Datapoint 0 7 60, Datapoint 60 7 60, Datapoint 180 8 60] 3 = Inr True \<and>
   is_dense small_config [Datapoint 0 7 60, Datapoint 60 7 60, Datapoint 170 8 60] 3 = Inr False"
proof -
  have "is_dense small_config ps 3 = Inr (successively (\<lambda>p q. 60 dvd dp_timestamp q - dp_timestamp p \<and>
      dp_timestamp q - dp_timestamp p < 257 * 60) ps)"
    if "ps = [Datapoint 0 7 60, Datapoint 60 7 60, Datapoint t 8 60]" "60 \<le> t" "t < 1000" for ps t
    using is_dense_iff_regular [of 3 ps ps small_config] that
    by (simp add: small_config_sel Datapoint_def i64_ok_def INT64_MIN_def INT64_MAX_def)
  from this [OF refl, of 180] this [OF refl, of 170] show ?thesis
    by (simp add: Datapoint_def)
qed


section \<open>The conversion is never carried out\<close>

lemma missing_file:
  assumes "leaf_dir dir s" and "p = dir @ ''/'' @ ds @ [c]" and "c \<noteq> CHR ''/''" and "file_at p s = None"
  shows "\<exists>e. fs_stat p s = Inl e"
proof -
  have "strip_slashes p = p" using assms(2,3) by (simp add: strip_slashes_def)
  with assms have "\<not> is_dir (strip_slashes p) s"
    by (auto simp: is_dir_def leaf_dir_def list_all_iff)
  with assms show ?thesis by (simp add: fs_stat_def file_at_def)
qed

lemma DenseFile_missing:
  assumes "leaf_dir dir s" and "file_at (dir @ ''/'' @ to_string t @ ''@'' @ to_string dur) s = None"
  shows "\<exists>m e. DenseFile dir t dur s = Inl (IOErr m e)"
proof -
  obtain ds c where d: "to_string dur = ds @ [c]" "c \<noteq> CHR ''/''" using to_string_last by blast
  then obtain e where "fs_stat (dir @ ''/'' @ (to_string t @ ''@'' @ ds) @ [c]) s = Inl e"
    using missing_file [OF assms(1) refl d(2), of "to_string t @ ''@'' @ ds"] assms(2) by auto
  with d show ?thesis
    by (simp add: DenseFile_def Let_def get_file_size_def dense_get_path_def dense_basename_def)
qed

lemma first_writable:
  assumes "0 < len" and "len \<le> length buf" and "dp_timestamp (hd buf) < INT64_MAX"
  shows "\<exists>n. writable_datapoints (WriteOperation (RawBuf (RawBuffer buf len))) = Inr (Suc n)"
proof -
  let ?w = "WriteOperation (RawBuf (RawBuffer buf len))"
  have ok: "wo_ok ?w"
    using assms(2) by (simp add: wo_ok_def WriteOperation_def db_ok_def raw_ok_def RawBuffer_def db_size_def raw_size_def)
  obtain p rest where "wo_rest ?w = p # rest" "dp_timestamp p < INT64_MAX"
    using assms by (cases buf; cases len)
      (auto simp: wo_rest_def WriteOperation_def db_points_def raw_points_def RawBuffer_def)
  then show ?thesis using ok
    by (simp add: writable_datapoints_rest) (simp add: WriteOperation_def SIZE_MAX_def)
qed
lemma to_string_zero: "to_string 0 = ''0''"
  by code_simp

text \<open>
  Claim C40. The optimiser converts nothing: without a dense or constant file already under the
  name of the new one it leaves the world and the directory as they are, and where the
  datapoints are regular enough to convert it throws, since both conversions begin with a file
  that must exist but does not.
\<close>

theorem optimizer_converts_nothing:
  assumes "leaf_dir (dir_path d) s" and "config_ok cfg" and "read_buffer_size cfg \<le> sparse_file_max_size cfg"
    and "0 < min_datapoints_for_dense cfg"
    and "\<And>dur. file_at (dir_path d @ ''/'' @ to_string (min_timestamp f) @ ''@'' @ to_string dur) s = None"
    and "\<And>dur. file_at (dir_path d @ ''/'' @ to_string (min_timestamp f) @ ''@'' @ to_string dur @ ''x0'') s = None"
  shows "\<exists>r. handle_sparse_file_too_big cfg junk f d s = ((r, d), s) \<and>
    (\<forall>r1. sparse_read cfg (dir_path d) f s (ReadOperation INT64_MIN INT64_MAX INT64_MAX True
               (replicate (sparse_file_max_size cfg) junk) (read_buffer_size cfg)) = (Inr (), r1) \<longrightarrow>
       is_dense cfg (ro_buffer r1) (ro_datapoints_in_buffer r1) = Inr True \<longrightarrow> r \<noteq> Inr ())"
proof -
  let ?r0 = "ReadOperation INT64_MIN INT64_MAX INT64_MAX True
    (replicate (sparse_file_max_size cfg) junk) (read_buffer_size cfg)"
  let ?path = "sparse_get_path (dir_path d) f"
  obtain q r1 where run: "sparse_read cfg (dir_path d) f s ?r0 = (q, r1)" by (rule prod.exhaust)
  show ?thesis
  proof (cases q)
    case (Inl e)
    with run show ?thesis by (simp add: handle_sparse_file_too_big_def)
  next
    case q: (Inr u)
    obtain bytes where bytes: "fs_stat ?path s = Inr (RegNode bytes)"
    proof (cases "fs_stat ?path s")
      case (Inl e)
      with run q show ?thesis by (simp add: sparse_read_def fs_open_def)
    next
      case (Inr n)
      with sparse_path_not_dir [OF assms(1), of f] that show ?thesis
        by (cases n) (auto simp: fs_stat_def split: if_splits option.splits)
    qed
    have empty: "ro_contents ?r0 = []" by (simp add: ro_contents_def ReadOperation_def)
    have "ro_ok ?r0" using assms(3) by (simp add: ro_ok_def ReadOperation_def)
    from sparse_read_contents [OF assms(2) this bytes] run q obtain qs where
      r1: "ro_ok r1" "ro_contents r1 = qs" "list_all (\<lambda>p. dp_timestamp p < INT64_MAX) qs"
      unfolding empty by (auto simp: ReadOperation_def list_all_iff)
    let ?buf = "ro_buffer r1" and ?len = "ro_datapoints_in_buffer r1"
    have len: "?len \<le> length ?buf" using r1(1) by (simp add: ro_ok_def ro_datapoints_in_buffer_def)
    show ?thesis
    proof (cases "is_dense cfg ?buf ?len")
      case (Inl e)
      with run q show ?thesis by (simp add: handle_sparse_file_too_big_def Let_def)
    next
      case dense: (Inr b)
      show ?thesis
      proof (cases b)
        case False
        with run q dense show ?thesis by (simp add: handle_sparse_file_too_big_def Let_def)
      next
        case True
        with dense have pos: "0 < ?len" using assms(4) by (auto simp: is_dense_def not_less split: if_splits)
        then obtain p rest where buf: "?buf = p # rest" using len by (cases ?buf) auto
        have first: "dp_timestamp (hd ?buf) < INT64_MAX"
          using r1(2,3) pos buf by (cases ?len) (auto simp: ro_contents_def ro_datapoints_in_buffer_def)
        obtain m e where df: "DenseFile (dir_path d) (min_timestamp f) (dp_duration p) s = Inl (IOErr m e)"
          using DenseFile_missing [OF assms(1,5)] by blast
        have "\<exists>e. convert_sparse_to_dense cfg f ?buf ?len d s = ((Inl e, d), s)"
          using buf df by (simp add: convert_sparse_to_dense_def)
        moreover have "\<exists>e. convert_sparse_to_constant cfg f ?buf ?len d s = ((Inl e, d), s)"
        proof -
          obtain n where n: "writable_datapoints (WriteOperation (RawBuf (RawBuffer ?buf ?len))) = Inr (Suc n)"
            using first_writable [OF pos len first] by blast
          have "file_at (constant_get_path (dir_path d) (ConstantFile (min_timestamp f) (dp_duration p) 0 (dp_value p))) s = None"
            using assms(6) [of "dp_duration p"]
            by (simp add: constant_get_path_def constant_basename_def ConstantFile_def to_string_zero)
          with buf n show ?thesis
            by (simp add: convert_sparse_to_constant_def constant_write_def fs_rename_def file_at_def Let_def)
        qed
        ultimately show ?thesis using run q dense True
          by (cases "is_constant cfg ?buf ?len") (auto simp: handle_sparse_file_too_big_def Let_def)
      qed
    qed
  qed
qed

definition regular_file :: "byte list" where
  "regular_file = enc_all dp_encode [Datapoint 0 7 60, Datapoint 60 7 60, Datapoint 180 8 60]"

theorem optimizer_converts_nothing_witness:
  "\<exists>r. handle_sparse_file_too_big small_config (Datapoint 0 0 0) (SparseFile 0 180 False) (demo_directory [])
      (demo_world [(''d/0-180'', regular_file)]) =
    ((r, demo_directory []), demo_world [(''d/0-180'', regular_file)]) \<and> r \<noteq> Inr ()"
proof -
  let ?s = "demo_world [(''d/0-180'', regular_file)]"
  let ?r0 = "ReadOperation INT64_MIN INT64_MAX INT64_MAX True
    (replicate (sparse_file_max_size small_config) (Datapoint 0 0 0)) (read_buffer_size small_config)"
  let ?pts = "[Datapoint 0 7 60, Datapoint 60 7 60, Datapoint 180 8 60]"
  have path: "sparse_get_path ''d'' (SparseFile 0 180 False) = ''d/0-180''" by code_simp
  have stat: "fs_stat (sparse_get_path ''d'' (SparseFile 0 180 False)) ?s = Inr (RegNode regular_file)"
    by (intro fs_stat_sparse demo_leaf) (simp add: path file_at_def demo_world_def)
  have ok: "config_ok small_config" "ro_ok ?r0"
    by (simp_all add: config_ok_def small_config_sel datapoint_size_def ro_ok_def ReadOperation_def)
  have "list_all dp_ok ?pts" "disjoint_points ?pts" "one_duration ?pts"
    "newest_in_range INT64_MIN INT64_MAX ?pts = ?pts" by code_simp+
  moreover from this(1) have "sparse_contents small_config regular_file = ?pts"
    unfolding regular_file_def
    by (intro sparse_contents_encoded) (simp_all add: small_config_sel datapoint_size_def)
  moreover have "ro_next_time ?r0 = INT64_MIN" "ro_end_time ?r0 = INT64_MAX" "ro_contents ?r0 = []" "ro_space_left ?r0 = 3"
    using ok(2) by (simp_all add: ReadOperation_def ro_contents_def small_config_sel)
  ultimately obtain r1 where r1: "sparse_read small_config ''d'' (SparseFile 0 180 False) ?s ?r0 = (Inr (), r1)"
    "ro_ok r1" "ro_contents r1 = ?pts"
    using sparse_read_newest [OF ok(1) stat ok(2)] by (auto simp: newest_in_range_def)
  have len: "ro_datapoints_in_buffer r1 = 3" using length_ro_contents [OF r1(2)] r1(3) by simp
  then have take: "take 3 (ro_buffer r1) = ?pts" and long: "3 \<le> length (ro_buffer r1)"
    using r1(2,3) unfolding ro_contents_def ro_ok_def ro_datapoints_in_buffer_def
    by (simp_all only:) linarith
  have "is_dense small_config (ro_buffer r1) 3 = is_dense small_config (take 3 (ro_buffer r1)) 3"
    by (rule is_dense_take [OF _ long]) simp
  moreover have "is_dense small_config ?pts 3 = Inr True"
    by (simp add: is_dense_def small_config_sel Datapoint_def numeral_3_eq_3 wrap64_def
        div64_pos mod64_pos sdiv_nonneg smod_nonneg)
  ultimately have dense: "is_dense small_config (ro_buffer r1) (ro_datapoints_in_buffer r1) = Inr True"
    unfolding take len by (rule trans)
  have "file_at (''d'' @ ''/'' @ to_string 0 @ ''@'' @ to_string dur @ suf) ?s = None" for dur suf
    by (simp add: file_at_def demo_world_def to_string_zero)
  moreover from this [of _ "[]"] have "file_at (''d'' @ ''/'' @ to_string 0 @ ''@'' @ to_string dur) ?s = None" for dur by simp
  moreover have "leaf_dir ''d'' ?s" by (rule demo_leaf)
  ultimately show ?thesis using dense r1(1) ok(1)
      optimizer_converts_nothing [of "demo_directory []" ?s small_config "SparseFile 0 180 False" "Datapoint 0 0 0"]
    by (simp add: demo_directory_def small_config_sel SparseFile_def)
qed

end
