(* ===== verification/SeriesStore.thy ===== *)
theory SeriesStore
  imports Optimizer
begin

text \<open>
  \<open>series.h/.cc\<close>: a series joins its write buffer with its directory of datapoint files.

  The results are options because a read or a write of the directory may not return;
  \<open>None\<close> is that case.
\<close>

section \<open>The series object\<close>

definition hex_char :: "nat \<Rightarrow> char" where
  "hex_char d = (if d < 10 then digit_char d else char_of (87 + d))"

fun hex_digits :: "nat \<Rightarrow> string" where
  "hex_digits n = (if n < 16 then [hex_char n] else hex_digits (n div 16) @ [hex_char (n mod 16)])"

declare hex_digits.simps [simp del]

text \<open>\<open>HexString\<close>: padded with zeros to two digits for each of the \<open>bytes\<close>.\<close>

definition hex_string :: "nat \<Rightarrow> nat \<Rightarrow> string" where
  "hex_string bytes i = replicate (2 * bytes - length (hex_digits i)) (CHR ''0'') @ hex_digits i"

record series =
  sr_labels :: "(string \<times> string) list"
  sr_keystr :: string
  sr_keyint :: nat
  sr_is_indexed :: bool
  sr_buffer :: write_buffer
  sr_dir :: directory

text \<open>\<open>Series::Init\<close>: the directory is named by the hash of the key.\<close>

definition series_init :: "string \<Rightarrow> nat \<Rightarrow> directory res" where
  "series_init data_directory keyint =
     (let series_dir = hex_string 8 keyint;
          series_dir = take 4 series_dir @ ''/'' @ drop 4 series_dir
      in DatapointDirectory (data_directory @ ''datapoints/'' @ series_dir @ ''/''))"

definition Series :: "write_buffer \<Rightarrow> (string \<Rightarrow> nat) \<Rightarrow> string \<Rightarrow> (string \<times> string) list \<Rightarrow> string \<Rightarrow> series res" where
  "Series empty_buffer hash data_directory labels key =
     bindE (series_init data_directory (hash key)) (\<lambda>d.
       Inr \<lparr>sr_labels = labels, sr_keystr = key, sr_keyint = hash key, sr_is_indexed = False,
            sr_buffer = empty_buffer, sr_dir = d\<rparr>)"

definition series_write :: "datapoint list \<Rightarrow> (unit, series) prog" where
  "series_write op sr = (case wb_append op (sr_buffer sr) of (r, b) \<Rightarrow> (r, sr\<lparr>sr_buffer := b\<rparr>))"

text \<open>The loop of \<open>Read\<close> over the write buffer, from the iterator \<open>it\<close> to the end.\<close>

primrec series_merge :: "nat \<Rightarrow> (nat \<Rightarrow> datapoint res) \<Rightarrow> nat \<Rightarrow> (unit, read_op) prog" where
  "series_merge 0 value_at it r = (Inr (), r)"
| "series_merge (Suc n) value_at it r =
     (case value_at it of
       Inl e \<Rightarrow> (Inl e, r)
     | Inr p \<Rightarrow>
         if ro_complete r \<or> ro_space_left r = 0 then (Inr (), r)
         else if ro_next_time r \<le> dp_timestamp p \<and> dp_timestamp p < ro_end_time r
         then (case appendM p r of
             (Inl e, r') \<Rightarrow> (Inl e, r')
           | (Inr _, r') \<Rightarrow> series_merge n value_at (snd (iter_pre_increment it)) r')
         else series_merge n value_at (snd (iter_pre_increment it)) r)"

definition series_read ::
  "config \<Rightarrow> 'a posix_scheme \<Rightarrow> series \<Rightarrow> read_op \<Rightarrow> ((unit res \<times> series) \<times> read_op) option" where
  "series_read cfg s sr r =
     (case dir_read cfg s (sr_dir sr) r of
       None \<Rightarrow> None
     | Some ((Inl e, d), r1) \<Rightarrow> Some ((Inl e, sr\<lparr>sr_dir := d\<rparr>), r1)
     | Some ((Inr _, d), r1) \<Rightarrow>
         let b = (if \<not> wb_is_sorted (sr_buffer sr) then wb_sort (sr_buffer sr) else sr_buffer sr);
             sr1 = sr\<lparr>sr_dir := d, sr_buffer := b\<rparr>
         in (case series_merge (wb_size b) (wb_value_at b) 0 r1 of
             (Inl e, r2) \<Rightarrow> Some ((Inl e, sr1), r2)
           | (Inr _, r2) \<Rightarrow>
               Some ((Inr (), sr1), if ro_space_left r2 \<noteq> 0 then r2\<lparr>ro_next_time := ro_end_time r2\<rparr> else r2)))"

definition series_datapoints_buffered :: "series \<Rightarrow> nat" where
  "series_datapoints_buffered sr = wb_size (sr_buffer sr)"

definition flush_buffered_datapoints ::
  "config \<Rightarrow> series \<Rightarrow> 'a world_scheme \<Rightarrow> ((unit res \<times> series) \<times> 'a world_scheme) option" where
  "flush_buffered_datapoints cfg sr s =
     (if wb_is_empty (sr_buffer sr) then Some ((Inr (), sr), s)
      else
        let b = (if \<not> wb_is_sorted (sr_buffer sr) then wb_sort (sr_buffer sr) else sr_buffer sr) in
        (case dir_write cfg (sr_dir sr) (WriteOperation (WBuf b)) s of
          None \<Rightarrow> None
        | Some ((Inl e, d, w), s') \<Rightarrow>
            Some ((Inl e, sr\<lparr>sr_dir := d, sr_buffer := (case wo_buffer w of WBuf b' \<Rightarrow> b' | RawBuf _ \<Rightarrow> b)\<rparr>), s')
        | Some ((Inr _, d, w), s') \<Rightarrow>
            Some ((Inr (), sr\<lparr>sr_dir := d,
                sr_buffer := wb_clear (case wo_buffer w of WBuf b' \<Rightarrow> b' | RawBuf _ \<Rightarrow> b)\<rparr>), s')))"

section \<open>Reading what is still buffered\<close>

text \<open>The loop over the datapoints themselves.\<close>

primrec merge_points :: "datapoint list \<Rightarrow> (unit, read_op) prog" where
  "merge_points [] r = (Inr (), r)"
| "merge_points (p # ps) r =
     (if ro_complete r \<or> ro_space_left r = 0 then (Inr (), r)
      else if ro_next_time r \<le> dp_timestamp p \<and> dp_timestamp p < ro_end_time r
      then (case appendM p r of
          (Inl e, r') \<Rightarrow> (Inl e, r')
        | (Inr _, r') \<Rightarrow> merge_points ps r')
      else merge_points ps r)"

context datapoint_buffer
begin

lemma series_merge_points:
  "inv d \<Longrightarrow> i + n \<le> length (points d) \<Longrightarrow>
     series_merge n (value_at d) i r = merge_points (take n (drop i (points d))) r"
proof (induction n arbitrary: i r)
  case (Suc n)
  then have i: "i < length (points d)" by simp
  then have "take (Suc n) (drop i (points d)) = points d ! i # take n (drop (Suc i) (points d))"
    by (simp add: Cons_nth_drop_Suc [symmetric])
  moreover have "value_at d i = Inr (points d ! i)"
    using Suc.prems(1) i by (simp add: value_at_points buf_size_points)
  ultimately show ?case using Suc
    by (simp add: iter_pre_increment_def split: prod.splits sum.splits)
qed simp

end

function oldest_points :: "datapoint list \<Rightarrow> datapoint list" where
  "oldest_points [] = []"
| "oldest_points (p # ps) = p # oldest_points (filter (\<lambda>q. dp_timestamp q \<noteq> dp_timestamp p) ps)"
  by pat_completeness auto
termination by (relation "measure length") (auto simp: le_imp_less_Suc)
text \<open>The specification: per timestamp in range, the datapoint buffered first.\<close>

definition oldest_in_range :: "int \<Rightarrow> int \<Rightarrow> datapoint list \<Rightarrow> datapoint list" where
  "oldest_in_range from to pts =
     map (\<lambda>t. hd (filter (\<lambda>p. dp_timestamp p = t) pts))
       (sorted_list_of_set (dp_timestamp ` set (filter (\<lambda>p. from \<le> dp_timestamp p \<and> dp_timestamp p < to) pts)))"

lemma sorted_list_of_set_least:
  assumes "finite T" and "\<forall>t \<in> T. a < (t :: int)"
  shows "sorted_list_of_set (insert a T) = a # sorted_list_of_set T"
proof -
  have "a \<notin> T" using assms(2) by blast
  moreover have "insort a (sorted_list_of_set T) = a # sorted_list_of_set T"
    using assms by (cases "sorted_list_of_set T")
      (auto simp: less_imp_le dest!: arg_cong [where f = set and x = "sorted_list_of_set T"])
  ultimately show ?thesis using assms(1) by (simp add: sorted_list_of_set.sorted_key_list_of_set_insert)
qed

lemma oldest_points_sorted:
  "sorted (map dp_timestamp ps) \<Longrightarrow> oldest_points ps =
     map (\<lambda>t. hd (filter (\<lambda>q. dp_timestamp q = t) ps)) (sorted_list_of_set (dp_timestamp ` set ps))"
proof (induction ps rule: oldest_points.induct)
  case (2 p ps)
  let ?rest = "filter (\<lambda>q. dp_timestamp q \<noteq> dp_timestamp p) ps" and ?T = "\<lambda>ps. dp_timestamp ` set ps"
  have "\<forall>q \<in> set ?rest. dp_timestamp p < dp_timestamp q" using "2.prems" by (auto simp: less_le)
  then have later: "\<forall>t \<in> ?T ?rest. dp_timestamp p < t" by blast
  have "?T (p # ps) = insert (dp_timestamp p) (?T ?rest)" by auto
  moreover have "sorted_list_of_set (insert (dp_timestamp p) (?T ?rest)) =
      dp_timestamp p # sorted_list_of_set (?T ?rest)"
    using later by (intro sorted_list_of_set_least) auto
  moreover have "filter (\<lambda>q. dp_timestamp q = t) (p # ps) = filter (\<lambda>q. dp_timestamp q = t) ?rest"
    if "t \<in> ?T ?rest" for t using that by auto (auto intro!: filter_cong)
  moreover have "sorted (map dp_timestamp ?rest)" using "2.prems" by (simp add: sorted_filter)
  ultimately show ?case using "2.IH" by simp
qed simp

lemma oldest_points_in_range:
  assumes "sorted (map dp_timestamp pts)"
  shows "oldest_points (filter (\<lambda>p. from \<le> dp_timestamp p \<and> dp_timestamp p < to) pts) = oldest_in_range from to pts"
proof -
  have "sorted (map dp_timestamp (filter (\<lambda>p. from \<le> dp_timestamp p \<and> dp_timestamp p < to) pts))"
    using assms by (simp add: sorted_filter)
  then show ?thesis
    by (auto simp: oldest_points_sorted oldest_in_range_def intro!: arg_cong [where f = hd] filter_cong)
qed

lemma merge_points_oldest:
  assumes "ro_ok r" and "sorted (map dp_timestamp ps)" and "disjoint_points ps"
    and "list_all (\<lambda>p. 0 \<le> dp_duration p) ps"
  shows "\<exists>r'. merge_points ps r = (Inr (), r') \<and> ro_ok r' \<and> same_request r r' \<and>
     ro_contents r' = ro_contents r @ take (ro_space_left r)
       (oldest_points (filter (\<lambda>p. ro_next_time r \<le> dp_timestamp p \<and> dp_timestamp p < ro_end_time r) ps))"
  using assms
proof (induction ps arbitrary: r)
  case (Cons p ps)
  let ?in = "\<lambda>r p. ro_next_time r \<le> dp_timestamp p \<and> dp_timestamp p < ro_end_time r"
  have ps: "sorted (map dp_timestamp ps)" "disjoint_points ps" "list_all (\<lambda>p. 0 \<le> dp_duration p) ps"
    using Cons.prems disjoint_points_subset [OF Cons.prems(3), of ps] by auto
  show ?case
  proof (cases "ro_complete r \<or> ro_space_left r = 0")
    case True
    then have "take (ro_space_left r) (oldest_points (filter (?in r) (p # ps))) = []"
      by (auto simp: ro_complete_def filter_empty_conv)
    with True Cons.prems(1) show ?thesis by simp
  next
    case go: False
    show ?thesis
    proof (cases "?in r p")
      case False
      with go Cons.IH [OF Cons.prems(1) ps] show ?thesis by (auto simp del: not_less)
    next
      case True
      obtain r1 where r1: "appendM p r = (Inr (), r1)" "ro_ok r1" "same_request r r1"
        "ro_contents r1 = ro_contents r @ [p]" "ro_next_time r1 = wrap64 (dp_next p)"
        "ro_space_left r1 = ro_space_left r - 1"
        using appendM_room [OF Cons.prems(1), of p] go by blast
      have next1: "ro_next_time r1 = dp_next p"
        using Cons.prems(3) r1(5) by (simp add: disjoint_points_def wrap64_id)
      have after: "dp_timestamp p < dp_next p" using Cons.prems(4) by (simp add: dp_next_def)
      have apart: "dp_next p \<le> dp_timestamp q \<longleftrightarrow> dp_timestamp q \<noteq> dp_timestamp p" if "q \<in> set ps" for q
        using that after Cons.prems(2,3) by (auto simp: disjoint_points_def list_all_iff less_le)
      have "filter (?in r1) ps = filter (\<lambda>q. dp_timestamp q \<noteq> dp_timestamp p) (filter (?in r) ps)"
        using apart next1 r1(3) True Cons.prems(2)
        by (auto simp: same_request_def intro!: filter_cong)
      with Cons.IH [OF r1(2) ps] obtain r' where r': "merge_points ps r1 = (Inr (), r')" "ro_ok r'" "same_request r1 r'"
        "ro_contents r' = ro_contents r1 @ take (ro_space_left r1)
          (oldest_points (filter (\<lambda>q. dp_timestamp q \<noteq> dp_timestamp p) (filter (?in r) ps)))" by auto
      obtain k where "ro_space_left r = Suc k" using go by (cases "ro_space_left r") auto
      with r' r1 True go same_request_trans [OF r1(3) r'(3)] show ?thesis by simp
    qed
  qed
qed simp

text \<open>
  Claim C25. Reading a series with nothing on disk and an ordered buffer returns, in timestamp
  order and as far as there is room, the datapoint buffered \<open>first\<close> for every timestamp in
  range, although after the flush it is the one buffered last.
\<close>

theorem buffered_read_returns_oldest:
  assumes "dir_filenames_read (sr_dir sr)" and "dir_files (sr_dir sr) = []"
    and "wb_ok (sr_buffer sr)" and "wb_is_sorted (sr_buffer sr)" and "pts = wb_points (sr_buffer sr)"
    and "sorted (map dp_timestamp pts)" and "disjoint_points pts" and "list_all (\<lambda>p. 0 \<le> dp_duration p) pts"
    and "ro_ok r"
  shows "\<exists>r'. series_read cfg s sr r = Some ((Inr (), sr), r') \<and>
    ro_contents r' = ro_contents r @
      take (ro_space_left r) (oldest_in_range (ro_next_time r) (ro_end_time r) pts)"
proof -
  let ?in = "\<lambda>p. ro_next_time r \<le> dp_timestamp p \<and> dp_timestamp p < ro_end_time r"
  obtain r1 where r1: "merge_points pts r = (Inr (), r1)" "ro_contents r1 = ro_contents r @
      take (ro_space_left r) (oldest_points (filter ?in pts))"
    using merge_points_oldest [OF assms(9,6-8)] by blast
  have "series_merge (wb_size (sr_buffer sr)) (wb_value_at (sr_buffer sr)) 0 r = merge_points pts r"
    using w_buf.series_merge_points [OF assms(3), of 0 "wb_size (sr_buffer sr)" r] w_buf.buf_size_points [OF assms(3)] assms(5)
    by simp
  moreover have "dir_read cfg s (sr_dir sr) r = Some ((Inr (), sr_dir sr), r)"
    using assms(1,2) by (simp add: dir_read_def find_first_potential_file_def find_loop.simps)
  moreover have "oldest_points (filter ?in pts) = oldest_in_range (ro_next_time r) (ro_end_time r) pts"
    by (rule oldest_points_in_range [OF assms(6)])
  ultimately show ?thesis using r1 assms(4)
    by (auto simp: series_read_def Let_def ro_contents_next)
qed
text \<open>A series over one allocation of three datapoints.\<close>

definition demo_series :: "datapoint list \<Rightarrow> bool \<Rightarrow> series" where
  "demo_series ps is_sorted = \<lparr>sr_labels = [(''host'', ''a'')], sr_keystr = ''host=a;'', sr_keyint = 0, sr_is_indexed = True,
     sr_buffer = \<lparr>wb_alloc_size = 72, wb_allocs = [ps], wb_datapoints_per_alloc = 3, wb_num_datapoints = 3,
       wb_sorted = is_sorted, wb_junk = Datapoint 0 0 0, wb_heap = []\<rparr>,
     sr_dir = demo_directory []\<rparr>"

lemma demo_series_buffer:
  "length ps = 3 \<Longrightarrow> wb_ok (sr_buffer (demo_series ps b))"
  "length ps = 3 \<Longrightarrow> wb_points (sr_buffer (demo_series ps b)) = ps"
  "wb_is_sorted (sr_buffer (demo_series ps b)) = b"
  "sr_dir (demo_series ps b) = demo_directory []"
  by (simp_all add: demo_series_def wb_ok_def wb_points_def wb_is_sorted_def)

theorem buffered_read_returns_oldest_witness:
  "\<exists>r'. series_read demo_config (demo_world []) (demo_series [Datapoint 10 1 5, Datapoint 20 2 5, Datapoint 20 3 5] True)
      (demo_read 0 100 8) =
      Some ((Inr (), demo_series [Datapoint 10 1 5, Datapoint 20 2 5, Datapoint 20 3 5] True), r') \<and>
    ro_contents r' = [Datapoint 10 1 5, Datapoint 20 2 5]"
proof -
  let ?ps = "[Datapoint 10 1 5, Datapoint 20 2 5, Datapoint 20 3 5]"
  have facts: "sorted (map dp_timestamp ?ps)" "disjoint_points ?ps" "list_all (\<lambda>p. 0 \<le> dp_duration p) ?ps"
    "oldest_in_range 0 100 ?ps = [Datapoint 10 1 5, Datapoint 20 2 5]" by code_simp+
  have len: "length ?ps = 3" by simp
  from buffered_read_returns_oldest [of "demo_series ?ps True" ?ps "demo_read 0 100 8" demo_config "demo_world []"] facts
  show ?thesis
    by (simp add: demo_series_buffer demo_directory_def demo_read_simps)
qed

end
