(* ===== verification/SeriesFlush.thy ===== *)
theory SeriesFlush
  imports SeriesStore
begin

text \<open>
  What a flush of a series leaves on disk: its datapoints in one sparse file, behind what was there
  before, and what a read returns then.
\<close>

section \<open>The file and the operation\<close>

lemma not_digit_slash: "\<not> is_digit (CHR ''/'')"
  by (simp add: is_digit_def)

lemma sparse_basename_slash_free: "CHR ''/'' \<notin> set (sparse_basename f)"
proof -
  have "CHR ''/'' \<notin> set (to_string i)" for i
    using string_of_nat_digits [of "nat \<bar>i\<bar>"] not_digit_slash by (auto simp: to_string_def)
  then show ?thesis by (simp add: sparse_basename_def SPARSE_OPT_SUFFIX_def)
qed

lemma fs_creat_sparse:
  assumes "is_dir (strip_slashes dir) s" and "leaf_dir dir s"
  shows "\<exists>s1. fs_creat (sparse_get_path dir f) s = (Inr (), s1)"
proof -
  have "before_last_slash (sparse_get_path dir f) = Some dir"
    using sparse_basename_slash_free [of f] by (auto simp: before_last_slash_Some sparse_get_path_def)
  with assms sparse_path_not_dir [OF assms(2), of f] show ?thesis
    by (auto simp: fs_creat_def split: option.splits)
qed

lemma dir_entries_none:
  assumes "dir_entries dir s = []" and "CHR ''/'' \<notin> set n"
  shows "file_at (dir @ ''/'' @ n) s = None"
proof (rule ccontr)
  assume "file_at (dir @ ''/'' @ n) s \<noteq> None"
  then obtain bs where "(dir @ ''/'' @ n, bs) \<in> set (fs_files s)"
    by (auto simp: file_at_def dest: map_of_SomeD)
  with assms show False by (force simp: dir_entries_def filter_empty_conv)
qed

lemma dir_entries_file: "dir_entries dir s = [] \<Longrightarrow> file_at (sparse_get_path dir f) s = None"
  using dir_entries_none [of dir s "sparse_basename f"] sparse_basename_slash_free [of f]
  by (simp add: sparse_get_path_def)

text \<open>A whole ordered buffer as a write operation without limits that bind.\<close>

lemma whole_buffer_op:
  assumes "wb_ok b" and "wb_is_sorted b" and "pts = wb_points b" and "sorted (map dp_timestamp pts)"
    and "length pts \<le> m" and "m < 2147483647" and "list_all (\<lambda>p. dp_timestamp p \<le> INT64_MAX) pts"
    and "w = (WriteOperation (WBuf b))\<lparr>wo_max_writable_timestamp := INT64_MAX, wo_max_writable_datapoints := m\<rparr>"
  shows "flush_ok w" and "writable_sorted w = pts" and "wb_num_datapoints b = length pts"
    and "wo_ok w" and "db_ordered (wo_buffer w)"
    and "pts \<noteq> [] \<Longrightarrow> wo_timestamp (WriteOperation (WBuf b)) = Inr (dp_timestamp (hd pts))"
proof -
  show size: "wb_num_datapoints b = length pts"
    using w_buf.buf_size_points [OF assms(1)] assms(3) by (simp add: wb_size_def)
  have "m div wb_datapoints_per_alloc b < 2147483647"
    using div_le_dividend [of m "wb_datapoints_per_alloc b"] assms(6) by linarith
  moreover have "length pts div wb_datapoints_per_alloc b < 2147483647"
    using div_le_dividend [of "length pts" "wb_datapoints_per_alloc b"] assms(5,6) by linarith
  ultimately show flush: "flush_ok w"
    using assms(1,4,8) size by (simp add: assms(3) [symmetric] flush_ok_def WriteOperation_def wb_sorted_ok_def)
  show "writable_sorted w = pts"
  proof -
    have "sort_key dp_timestamp pts = pts" using assms(4) by (simp add: sorted_sort_id sort_key_id_if_sorted)
    with assms(5,7,8) show ?thesis
      by (simp add: assms(3) [symmetric] writable_sorted_def WriteOperation_def db_points_def list_all_iff filter_id_conv)
  qed
  show "wo_ok w" by (rule flush_wo_ok [OF flush])
  show "db_ordered (wo_buffer w)"
    using assms(2,4,8) by (simp add: assms(3) db_ordered_def WriteOperation_def db_points_def)
  show "wo_timestamp (WriteOperation (WBuf b)) = Inr (dp_timestamp (hd pts))" if "pts \<noteq> []"
    using that w_buf.value_at_points [OF assms(1), of 0] w_buf.buf_size_points [OF assms(1)]
    by (simp add: wo_timestamp_def WriteOperation_def db_value_at_def assms(3) hd_conv_nth)
qed

section \<open>What is on disk\<close>

text \<open>
  The place a series puts its files: its directory can be created, and holds no file yet and no
  directory.
\<close>

definition room_for :: "directory \<Rightarrow> 'a posix_scheme \<Rightarrow> bool" where
  "room_for d s \<longleftrightarrow> dir_files d = [] \<and> dir_entries (dir_path d) s = [] \<and>
     (\<exists>s1. create_directory (dir_path d) s = (Inr (), s1) \<and> leaf_dir (dir_path d) s1)"

text \<open>
  The directory after a flush: the datapoints \<open>pts\<close> are in one sparse file, whose range covers
  them and starts at one of them.
\<close>

definition in_one_file :: "'a posix_scheme \<Rightarrow> datapoint list \<Rightarrow> directory \<Rightarrow> bool" where
  "in_one_file s pts d \<longleftrightarrow> dir_filenames_read d \<and> dir_path d \<noteq> '''' \<and>
     is_dir (strip_slashes (dir_path d)) s \<and> leaf_dir (dir_path d) s \<and>
     (\<exists>f. dir_files d = [Sparse f] \<and>
        file_at (sparse_get_path (dir_path d) f) s = Some (enc_all dp_encode pts) \<and>
        min_timestamp f \<in> dp_timestamp ` set pts \<and>
        (\<forall>p \<in> set pts. min_timestamp f \<le> dp_timestamp p \<and> dp_timestamp p \<le> max_timestamp f))"

text \<open>
  The directory object once it has looked for its files: it is as it was, or made anew in front
  of a directory on disk and \<open>d1\<close> is what the scan makes of it.
\<close>

definition scanned :: "'a posix_scheme \<Rightarrow> directory \<Rightarrow> directory \<Rightarrow> bool" where
  "scanned s d d1 \<longleftrightarrow> dir_filenames_read d1 \<and> dir_path d1 = dir_path d \<and>
     (if dir_filenames_read d then d1 = d else \<forall>cfg. read_filenames cfg s d = Inr d1)"

lemma scanned_unique: "scanned s d d1 \<Longrightarrow> scanned s d d2 \<Longrightarrow> d1 = d2"
  by (auto simp: scanned_def split: if_splits)

lemma dir_read_scanned: "scanned s d d1 \<Longrightarrow> dir_read cfg s d r = dir_read cfg s d1 r"
  by (auto simp: scanned_def dir_read_def split: if_splits)

lemma dir_write_scanned:
  "scanned s d d1 \<Longrightarrow> create_directory (dir_path d) s = (Inr (), s) \<Longrightarrow> dir_write cfg d w s = dir_write cfg d1 w s"
  by (auto simp: scanned_def dir_write_def split: if_splits)

definition stored :: "'a posix_scheme \<Rightarrow> datapoint list \<Rightarrow> directory \<Rightarrow> bool" where
  "stored s pts d \<longleftrightarrow> room_for d s \<and> pts = [] \<or> (\<exists>d1. scanned s d d1 \<and> in_one_file s pts d1)"

lemma in_one_file_stored: "in_one_file s pts d \<Longrightarrow> stored s pts d"
  by (auto simp: stored_def scanned_def in_one_file_def)

text \<open>That file is the only one there and another object made for the directory would find it.\<close>

definition alone :: "'a posix_scheme \<Rightarrow> directory \<Rightarrow> bool" where
  "alone s d \<longleftrightarrow> files_distinct s \<and> (\<exists>f. dir_files d = [Sparse f] \<and> plain_sparse f \<and>
     (\<forall>n. CHR ''/'' \<notin> set n \<longrightarrow> file_at (dir_path d @ ''/'' @ n) s \<noteq> None \<longrightarrow> n = sparse_basename f))"

definition at_most_one :: "'a posix_scheme \<Rightarrow> directory \<Rightarrow> bool" where
  "at_most_one s d \<longleftrightarrow> files_distinct s \<and> (room_for d s \<or> (\<exists>d1. scanned s d d1 \<and> alone s d1))"

lemma alone_at_most_one: "alone s d \<Longrightarrow> dir_filenames_read d \<Longrightarrow> at_most_one s d"
  by (auto simp: at_most_one_def alone_def scanned_def)

text \<open>What a write leaves of the world besides the files.\<close>

definition grown :: "'a world_scheme \<Rightarrow> 'a world_scheme \<Rightarrow> bool" where
  "grown s s' \<longleftrightarrow> set (fs_dirs s) \<subseteq> set (fs_dirs s') \<and> w_queue s' = w_queue s \<and> w_queue_limit s' = w_queue_limit s \<and>
     (writes_ok s \<longrightarrow> writes_ok s')"

lemma grown_writes: "grown s s' \<Longrightarrow> writes_ok s \<Longrightarrow> writes_ok s'"
  by (simp add: grown_def)

lemma grown_refl [simp]: "grown s s"
  by (simp add: grown_def)

lemma grown_trans: "grown s s1 \<Longrightarrow> grown s1 s' \<Longrightarrow> grown s s'"
  by (auto simp: grown_def)

lemma grown_busy: "grown s s' \<Longrightarrow> worker_busy s' = worker_busy s"
  by (simp add: grown_def worker_busy_def)

text \<open>No datapoint of \<open>pts\<close> is earlier than the earliest of \<open>old\<close>, if there is one.\<close>

definition none_earlier :: "datapoint list \<Rightarrow> datapoint list \<Rightarrow> bool" where
  "none_earlier old pts \<longleftrightarrow>
     (old \<noteq> [] \<longrightarrow> (\<exists>q \<in> set old. \<forall>p \<in> set pts. dp_timestamp q \<le> dp_timestamp p))"

section \<open>The write behind a flush\<close>

text \<open>
  What a sparse write of \<open>pts\<close> to the file \<open>f\<close>, which holds \<open>old\<close>, leaves: the file \<open>f'\<close>, named
  after its new last timestamp, and the world \<open>s'\<close>.
\<close>

definition wrote ::
  "string \<Rightarrow> sparse_file \<Rightarrow> 'a world_scheme \<Rightarrow> datapoint list \<Rightarrow> datapoint list \<Rightarrow> sparse_file \<Rightarrow> 'a world_scheme \<Rightarrow> bool" where
  "wrote path f s old pts f' s' \<longleftrightarrow>
     (\<exists>m. m \<le> max (max_timestamp f) INT64_MAX \<and> f' = f\<lparr>max_timestamp := max (max_timestamp f) m\<rparr>) \<and>
     (\<forall>p \<in> set pts. dp_timestamp p \<le> max_timestamp f') \<and>
     file_at (sparse_get_path path f') s' = Some (enc_all dp_encode (old @ pts)) \<and>
     (\<forall>q. q \<noteq> sparse_get_path path f' \<longrightarrow> file_at q s' = (if q = sparse_get_path path f then None else file_at q s)) \<and>
     fs_dirs s' = fs_dirs s \<and> w_queue s' = w_queue s \<and> w_queue_limit s' = w_queue_limit s \<and>
     writes_ok s' \<and> (files_distinct s \<longrightarrow> files_distinct s')"

lemma sparse_write_whole:
  assumes b: "wb_ok b" "wb_is_sorted b" "pts = wb_points b" "sorted (map dp_timestamp pts)"
    and m: "length pts \<le> m" "m < 2147483647" and ts: "list_all (\<lambda>p. dp_timestamp p \<le> INT64_MAX) pts"
    and dir: "is_dir (strip_slashes path) s" "leaf_dir path s" and granted: "writes_ok s"
    and old: "enc_all dp_encode old = (case file_at (sparse_get_path path f) s of None \<Rightarrow> [] | Some bs \<Rightarrow> bs)"
    and small: "length (old @ pts) * datapoint_size \<le> sparse_file_optimize_size cfg"
    and w: "w = (WriteOperation (WBuf b))\<lparr>wo_max_writable_timestamp := INT64_MAX, wo_max_writable_datapoints := m\<rparr>"
  obtains f' s' where "sparse_write cfg path w f s = ((Inr (length pts), f', WBuf b), s')" and "wrote path f s old pts f' s'"
proof -
  note op = whole_buffer_op [OF b m ts w]
  obtain s1 where c: "fs_creat (sparse_get_path path f) s = (Inr (), s1)"
    using fs_creat_sparse [OF dir] by blast
  have new: "enc_all dp_encode (old @ pts) = enc_all dp_encode old @ enc_all dp_encode (writable_sorted w)"
    by (simp add: op(2))
  have fits: "sf_optimized f \<or> length (enc_all dp_encode (old @ pts)) \<le> sparse_file_optimize_size cfg"
    using small by (simp add: add_mult_distrib)
  obtain f' buf s' m' where sw: "sparse_write cfg path w f s = ((Inr (length pts), f', buf), s')"
    and m': "buffer_max_timestamp w (max_timestamp f) = Inr m'" "f' = f\<lparr>max_timestamp := max (max_timestamp f) m'\<rparr>"
    and rest: "\<forall>p \<in> set pts. dp_timestamp p \<le> max_timestamp f'"
      "file_at (sparse_get_path path f') s' = Some (enc_all dp_encode (old @ pts))"
      "\<forall>q. q \<noteq> sparse_get_path path f' \<longrightarrow> file_at q s' = (if q = sparse_get_path path f then None else file_at q s)"
      "fs_dirs s' = fs_dirs s" "w_queue s' = w_queue s" "w_queue_limit s' = w_queue_limit s" "writes_ok s'"
    by (rule sparse_write_flush [OF op(1) dir(2) granted c old new fits]) (auto simp: op(2))
  have "buf = WBuf b"
    using sparse_write_result(2) [OF sw] wo_get_iovector_progress(1) [OF op(4,5) prod.collapse [symmetric]]
    by (simp add: w WriteOperation_def)
  moreover have "m' \<le> max (max_timestamp f) INT64_MAX" using buffer_max_timestamp_le [OF m'(1)] by (simp add: w)
  moreover have "files_distinct s \<longrightarrow> files_distinct s'" using files_distinct_sparse_write [OF sw] by blast
  ultimately show ?thesis using that [of f' s'] sw m'(2) rest unfolding wrote_def by blast
qed

lemma wrote_one_file:
  assumes "wrote path f s old pts f' s'" and "is_dir (strip_slashes path) s" and "leaf_dir path s" and "path \<noteq> ''''"
    and "min_timestamp f \<in> dp_timestamp ` set (old @ pts)" and "\<forall>p \<in> set (old @ pts). min_timestamp f \<le> dp_timestamp p"
    and "\<forall>p \<in> set old. dp_timestamp p \<le> max_timestamp f"
    and "dir_filenames_read d'" and "dir_files d' = [Sparse f']" and "dir_path d' = path"
  shows "in_one_file s' (old @ pts) d'"
proof -
  from assms(1) obtain m where f': "f' = f\<lparr>max_timestamp := max (max_timestamp f) m\<rparr>"
    and w: "\<forall>p \<in> set pts. dp_timestamp p \<le> max_timestamp f'"
      "file_at (sparse_get_path path f') s' = Some (enc_all dp_encode (old @ pts))" "fs_dirs s' = fs_dirs s"
    by (auto simp: wrote_def)
  have "min_timestamp f' = min_timestamp f" "\<forall>p \<in> set old. dp_timestamp p \<le> max_timestamp f'"
    using assms(7) by (auto simp: f')
  with w assms(2-6,8-10) show ?thesis by (auto simp: in_one_file_def leaf_dir_def is_dir_def)
qed

lemma wrote_alone:
  assumes "wrote path f s old pts f' s'" and "plain_sparse f" and "files_distinct s"
    and "\<And>n. CHR ''/'' \<notin> set n \<Longrightarrow> file_at (path @ ''/'' @ n) s \<noteq> None \<Longrightarrow> n = sparse_basename f"
    and "dir_files d' = [Sparse f']" and "dir_path d' = path"
  shows "alone s' d'"
proof -
  have "plain_sparse f'" using assms(1,2) by (auto simp: wrote_def plain_sparse_def i64_ok_def)
  moreover have "n = sparse_basename f'" if "CHR ''/'' \<notin> set n" "file_at (path @ ''/'' @ n) s' \<noteq> None" for n
  proof (rule ccontr)
    assume "n \<noteq> sparse_basename f'"
    then have "path @ ''/'' @ n \<noteq> sparse_get_path path f'" by (simp add: sparse_get_path_def)
    with assms(1) that(2) have "path @ ''/'' @ n \<noteq> sparse_get_path path f" "file_at (path @ ''/'' @ n) s \<noteq> None"
      by (auto simp: wrote_def split: if_splits)
    with assms(4) [OF that(1)] show False by (simp add: sparse_get_path_def)
  qed
  ultimately show ?thesis using assms(1,3,5,6) by (simp add: alone_def wrote_def)
qed

lemma wrote_grown: "wrote path f s old pts f' s' \<Longrightarrow> grown s s'"
  by (simp add: wrote_def grown_def)

text \<open>A write loop that is done after one round.\<close>

lemma dir_write_loop_once:
  assumes "dir_write_step cfg path st = (Inr (), st')" and "\<not> wo_complete (dw_op st)" and "wo_complete (dw_op st')"
  shows "dir_write_loop cfg path st = Some (Inr (), st')"
  using assms by (simp add: dir_write_loop.simps)

lemma whole_buffer_complete:
  assumes "wb_num_datapoints b = length pts" and "pts \<noteq> []"
  shows "\<not> wo_complete (WriteOperation (WBuf b))"
    and "wo_complete ((WriteOperation (WBuf b))\<lparr>wo_max_writable_timestamp := t, wo_max_writable_datapoints := m, wo_cursor := length pts\<rparr>)"
  using assms by (simp_all add: wo_complete_def WriteOperation_def db_size_def wb_size_def)

text \<open>What \<open>Write\<close> does with a whole ordered buffer and no files: one new sparse file.\<close>

lemma dir_write_fresh:
  assumes made: "create_directory (dir_path d) s = (Inr (), s1)" and granted: "writes_ok s" and leaf: "leaf_dir (dir_path d) s1"
    and no_files: "dir_files d = []" "dir_entries (dir_path d) s = []"
    and b: "wb_ok b" "wb_is_sorted b" "pts = wb_points b" "sorted (map dp_timestamp pts)" "pts \<noteq> []"
    and small: "length pts * datapoint_size \<le> min (sparse_file_optimize_size cfg) (sparse_file_max_size cfg)"
    and cfg: "sparse_file_max_size cfg div datapoint_size < 2147483647"
    and ts: "list_all (\<lambda>p. dp_timestamp p \<le> INT64_MAX) pts"
  obtains d' w' s' where "dir_write cfg d (WriteOperation (WBuf b)) s = Some ((Inr (), d', w'), s')"
    and "wo_buffer w' = WBuf b" and "in_one_file s' pts d'" and "dir_path d' = dir_path d" and "grown s s'"
    and "files_distinct s \<Longrightarrow> list_all dp_ok pts \<Longrightarrow> alone s' d'"
proof -
  let ?path = "dir_path d" and ?op = "WriteOperation (WBuf b)" and ?ts = "dp_timestamp (hd pts)"
  let ?m = "sparse_file_max_size cfg div datapoint_size" and ?f = "SparseFile ?ts ?ts False"
  let ?w = "?op\<lparr>wo_max_writable_timestamp := INT64_MAX, wo_max_writable_datapoints := ?m\<rparr>"
  have dm: "dir_made ?path s (Inr ()) s1" using create_directory_spec [of ?path s] made by fastforce
  then have dir: "is_dir (strip_slashes ?path) s1" "?path \<noteq> ''''" and files: "fs_files s1 = fs_files s"
    and granted1: "writes_ok s1" using granted by (auto simp: dir_made_def writes_ok_def)
  then have entries: "dir_entries ?path s1 = []" using no_files(2) by (simp add: dir_entries_def)
  have len: "length pts \<le> ?m" using small by (simp add: less_eq_div_iff_mult_less_eq datapoint_size_def)
  note w = whole_buffer_op [OF b(1-4) len cfg ts refl]
  have old: "enc_all dp_encode [] = (case file_at (sparse_get_path ?path ?f) s1 of None \<Rightarrow> [] | Some bs \<Rightarrow> bs)"
    using dir_entries_file [OF entries] by simp
  obtain f' s' where sw: "sparse_write cfg ?path ?w ?f s1 = ((Inr (length pts), f', WBuf b), s')" and wrote: "wrote ?path ?f s1 [] pts f' s'"
    using small sparse_write_whole [OF b(1-4) len cfg ts dir(1) leaf granted1 old _ refl, of cfg] by auto
  let ?st' = "\<lparr>dw_before = [Sparse f'], dw_after = [], dw_op = ?w\<lparr>wo_cursor := length pts\<rparr>, dw_world = s'\<rparr>"
  let ?d' = "d\<lparr>dir_files := [Sparse f'], dir_filenames_read := True\<rparr>"
  have first: "wo_timestamp (?op\<lparr>wo_max_writable_timestamp := t, wo_max_writable_datapoints := m\<rparr>) = Inr ?ts" for t m
    using w(6) [OF b(5)] by (simp add: wo_timestamp_def)
  have "dir_write_step cfg ?path \<lparr>dw_before = [], dw_after = [], dw_op = ?op, dw_world = s1\<rparr> = (Inr (), ?st')"
    using sw first b(5) by (simp add: dir_write_step_def dw_create_def Let_def limit_of_next_def WriteOperation_def)
  then have "dir_write_loop cfg ?path \<lparr>dw_before = [], dw_after = [], dw_op = ?op, dw_world = s1\<rparr> = Some (Inr (), ?st')"
    by (rule dir_write_loop_once) (simp_all add: whole_buffer_complete [OF w(3) b(5)])
  moreover have "read_filenames cfg s1 d = Inr (d\<lparr>dir_files := [], dir_filenames_read := True\<rparr>)"
    using dir entries by (simp add: read_filenames_def)
  ultimately have run: "dir_write cfg d ?op s = Some ((Inr (), ?d', ?w\<lparr>wo_cursor := length pts\<rparr>), s')"
    using made no_files(1) w(6) [OF b(5)]
    by (cases "dir_filenames_read d") (simp_all add: dir_write_def find_first_potential_file_def find_loop.simps)
  have "dp_timestamp (hd pts) \<le> dp_timestamp p" if "p \<in> set pts" for p
    using that b(4) by (cases pts) auto
  then have "in_one_file s' ([] @ pts) ?d'"
    using b(5) by (intro wrote_one_file [OF wrote dir(1) leaf dir(2)]) (simp_all add: SparseFile_def)
  moreover have "grown s s1" using dm by (auto simp: grown_def dir_made_def writes_ok_def)
  then have "grown s s'" using wrote_grown [OF wrote] by (rule grown_trans)
  moreover have "alone s' ?d'" if "files_distinct s" "list_all dp_ok pts"
  proof (rule wrote_alone [OF wrote])
    have "dp_ok (hd pts)" using that(2) b(5) by (cases pts) simp_all
    then show "plain_sparse ?f" by (simp add: plain_sparse_def SparseFile_def dp_ok_def)
    show "files_distinct s1" using that(1) files by (simp add: files_distinct_def)
  qed (use dir_entries_none [OF entries] in auto)
  ultimately show ?thesis using that [OF run] by (simp add: WriteOperation_def)
qed

lemma in_one_file_made: "in_one_file s old d \<Longrightarrow> create_directory (dir_path d) s = (Inr (), s)"
  using create_directory_fuel_cases(1) [of "dir_path d" s]
  by (simp add: in_one_file_def create_directory_def fs_stat_def del: create_directory_fuel.simps)

text \<open>And with one sparse file that has room and starts early enough: the file grows.\<close>

lemma dir_write_step_one_file:
  assumes f: "file_at (sparse_get_path path f) s = Some (enc_all dp_encode old)" "leaf_dir path s" "min_timestamp f \<le> ts"
    and first: "wo_timestamp (WriteOperation (WBuf b)) = Inr ts" "ts \<le> INT64_MAX" and k: "k \<noteq> 0"
    and m: "m = (sparse_file_max_size cfg - length old * datapoint_size) div datapoint_size" "m \<noteq> 0"
    and w: "w = (WriteOperation (WBuf b))\<lparr>wo_max_writable_timestamp := INT64_MAX, wo_max_writable_datapoints := m\<rparr>"
    and sw: "sparse_write cfg path w f s = ((Inr k, f', WBuf b), s')"
  shows "dir_write_step cfg path \<lparr>dw_before = [], dw_after = [Sparse f], dw_op = WriteOperation (WBuf b), dw_world = s\<rparr> =
    (Inr (), \<lparr>dw_before = [Sparse f'], dw_after = [], dw_op = w\<lparr>wo_cursor := k\<rparr>, dw_world = s'\<rparr>)"
proof -
  have "fs_stat (sparse_get_path path f) s = Inr (RegNode (enc_all dp_encode old))" using f(2,1) by (rule fs_stat_sparse)
  then have "af_remaining cfg path (Sparse f) s = Inr m"
    using m by (auto simp: af_remaining_def sparse_remaining_writable_datapoints_def file_size_regular datapoint_size_def)
  moreover have "wo_timestamp ((WriteOperation (WBuf b))\<lparr>wo_max_writable_datapoints := m, wo_max_writable_timestamp := t\<rparr>) = Inr ts" for t
    using first(1) by (simp add: wo_timestamp_def)
  moreover have "(WriteOperation (WBuf b))\<lparr>wo_max_writable_datapoints := m, wo_max_writable_timestamp := INT64_MAX\<rparr> = w"
    by (simp add: w)
  ultimately show ?thesis using sw first(2) f(3) k m(2)
    by (simp add: dir_write_step_def limit_of_next_def af_min_def af_write_def Let_def) (simp add: w WriteOperation_def)
qed

lemma dir_write_one_file:
  assumes one_file: "in_one_file s old d" and granted: "writes_ok s"
    and b: "wb_ok b" "wb_is_sorted b" "pts = wb_points b" "sorted (map dp_timestamp pts)" "pts \<noteq> []"
    and small: "length (old @ pts) * datapoint_size \<le> min (sparse_file_optimize_size cfg) (sparse_file_max_size cfg)"
    and cfg: "sparse_file_max_size cfg div datapoint_size < 2147483647"
    and ts: "list_all (\<lambda>p. dp_timestamp p \<le> INT64_MAX) pts"
    and later: "none_earlier old pts"
  obtains d' w' s' where "dir_write cfg d (WriteOperation (WBuf b)) s = Some ((Inr (), d', w'), s')"
    and "wo_buffer w' = WBuf b" and "in_one_file s' (old @ pts) d'" and "dir_path d' = dir_path d" and "grown s s'"
    and "alone s d \<Longrightarrow> alone s' d'"
proof -
  let ?path = "dir_path d" and ?op = "WriteOperation (WBuf b)" and ?ts = "dp_timestamp (hd pts)"
  let ?m = "(sparse_file_max_size cfg - length old * datapoint_size) div datapoint_size"
  let ?w = "?op\<lparr>wo_max_writable_timestamp := INT64_MAX, wo_max_writable_datapoints := ?m\<rparr>"
  from one_file obtain f where one: "dir_filenames_read d" "dir_files d = [Sparse f]"
    and dir: "is_dir (strip_slashes ?path) s" "?path \<noteq> ''''" and leaf: "leaf_dir ?path s"
    and old: "file_at (sparse_get_path ?path f) s = Some (enc_all dp_encode old)" and f: "min_timestamp f \<in> dp_timestamp ` set old"
      "\<forall>p \<in> set old. min_timestamp f \<le> dp_timestamp p \<and> dp_timestamp p \<le> max_timestamp f"
    by (auto simp: in_one_file_def)
  have starts: "min_timestamp f \<le> dp_timestamp p" if "p \<in> set pts" for p
    using that f later by (fastforce simp: none_earlier_def)
  have len: "length pts \<le> ?m" using small by (auto simp: less_eq_div_iff_mult_less_eq datapoint_size_def)
  have m: "?m < 2147483647"
    using cfg div_le_mono [OF diff_le_self, of "sparse_file_max_size cfg" "length old * datapoint_size" datapoint_size] by linarith
  note w = whole_buffer_op [OF b(1-4) len m ts refl]
  have old': "enc_all dp_encode old = (case file_at (sparse_get_path ?path f) s of None \<Rightarrow> [] | Some bs \<Rightarrow> bs)" using old by simp
  obtain f' s' where sw: "sparse_write cfg ?path ?w f s = ((Inr (length pts), f', WBuf b), s')" and wrote: "wrote ?path f s old pts f' s'"
    using small sparse_write_whole [OF b(1-4) len m ts dir(1) leaf granted old' _ refl, of cfg] by auto
  let ?d' = "d\<lparr>dir_files := [Sparse f']\<rparr>"
  have hd: "min_timestamp f \<le> ?ts" "?ts \<le> INT64_MAX" "length pts \<noteq> 0" "?m \<noteq> 0"
    using starts [of "hd pts"] ts b(5) len by (cases pts; simp)+
  note dir_write_step_one_file [OF old leaf hd(1) w(6) [OF b(5)] hd(2,3) refl hd(4) refl sw]
  then have "dir_write_loop cfg ?path \<lparr>dw_before = [], dw_after = [Sparse f], dw_op = ?op, dw_world = s\<rparr> =
      Some (Inr (), \<lparr>dw_before = [Sparse f'], dw_after = [], dw_op = ?w\<lparr>wo_cursor := length pts\<rparr>, dw_world = s'\<rparr>)"
    by (rule dir_write_loop_once) (simp_all add: whole_buffer_complete [OF w(3) b(5)])
  then have run: "dir_write cfg d ?op s = Some ((Inr (), ?d', ?w\<lparr>wo_cursor := length pts\<rparr>), s')"
    using in_one_file_made [OF one_file] one w(6) [OF b(5)] hd(1)
    by (simp add: dir_write_def find_first_potential_file_def find_loop.simps af_min_def)
  have "in_one_file s' (old @ pts) ?d'"
    using f starts one(1) by (intro wrote_one_file [OF wrote dir(1) leaf dir(2)]) auto
  moreover have "alone s' ?d'" if "alone s d"
    using that one(2) by (intro wrote_alone [OF wrote]) (auto simp: alone_def)
  ultimately show ?thesis using that [OF run] wrote_grown [OF wrote] by (simp add: WriteOperation_def)
qed

lemma dir_write_stored:
  assumes "stored s old d" and granted: "writes_ok s" and "wb_ok b" and "wb_is_sorted b" and "pts = wb_points b" and "sorted (map dp_timestamp pts)" and "pts \<noteq> []"
    and "length (old @ pts) * datapoint_size \<le> min (sparse_file_optimize_size cfg) (sparse_file_max_size cfg)"
    and "sparse_file_max_size cfg div datapoint_size < 2147483647"
    and "list_all (\<lambda>p. dp_timestamp p \<le> INT64_MAX) pts" and "none_earlier old pts"
  obtains d' w' s' where "dir_write cfg d (WriteOperation (WBuf b)) s = Some ((Inr (), d', w'), s')"
    and "wo_buffer w' = WBuf b" and "in_one_file s' (old @ pts) d'" and "dir_path d' = dir_path d" and "grown s s'"
    and "at_most_one s d \<Longrightarrow> list_all dp_ok pts \<Longrightarrow> alone s' d'"
proof (cases "\<exists>d1. scanned s d d1 \<and> in_one_file s old d1")
  case True
  then obtain d1 where d1: "scanned s d d1" "in_one_file s old d1" by blast
  then have path: "dir_path d1 = dir_path d" by (simp add: scanned_def)
  have same: "dir_write cfg d w s = dir_write cfg d1 w s" for w
    using dir_write_scanned [OF d1(1)] in_one_file_made [OF d1(2)] path by simp
  have "alone s d1" if "at_most_one s d"
  proof -
    have "\<not> room_for d s"
      using d1 dir_entries_file [of "dir_path d" s] path
      by (auto simp: room_for_def in_one_file_def)
    with that d1(1) show ?thesis using scanned_unique by (auto simp: at_most_one_def)
  qed
  with dir_write_one_file [OF d1(2) granted assms(3-11)] show ?thesis
    unfolding same path [symmetric] by (metis that same path)
next
  case False
  with assms(1) obtain s1 where "create_directory (dir_path d) s = (Inr (), s1)" "leaf_dir (dir_path d) s1"
    "dir_files d = []" "dir_entries (dir_path d) s = []" and old: "old = []" by (auto simp: stored_def room_for_def)
  from dir_write_fresh [OF this(1) granted this(2-4) assms(3-7) _ assms(9,10)] assms(8) that show ?thesis
    unfolding old by (auto simp: at_most_one_def)
qed

section \<open>Reading it back\<close>

text \<open>Reading a directory of one sparse file.\<close>

lemma dir_read_one_sparse:
  assumes "dir_filenames_read d" and "dir_files d = [Sparse f]" and "leaf_dir (dir_path d) s"
    and "file_at (sparse_get_path (dir_path d) f) s = Some bytes" and "config_ok cfg"
    and "sparse_contents cfg bytes = pts" and "disjoint_points pts" and "one_duration pts"
    and "\<forall>p \<in> set pts. min_timestamp f \<le> dp_timestamp p \<and> dp_timestamp p \<le> max_timestamp f" and "ro_ok r"
  shows "\<exists>r'. dir_read cfg s d r = Some ((Inr (), d), r') \<and> ro_ok r' \<and>
    ro_contents r' = ro_contents r @ take (ro_space_left r) (newest_in_range (ro_next_time r) (ro_end_time r) pts)"
proof -
  have "find_first_potential_file [Sparse f] t = Some 0" for t
    by (simp add: find_first_potential_file_def find_loop.simps)
  then have run: "dir_read cfg s d r = Some (case dir_read_loop cfg (dir_path d) s [Sparse f] r of (q, r') \<Rightarrow> ((q, d), r'))"
    using assms(1,2) by (simp add: dir_read_def split: prod.splits)
  have stat: "fs_stat (sparse_get_path (dir_path d) f) s = Inr (RegNode bytes)"
    using assms(3,4) by (rule fs_stat_sparse)
  have none: "newest_in_range lo hi pts = []"
    if "\<And>p. p \<in> set pts \<Longrightarrow> \<not> (lo \<le> dp_timestamp p \<and> dp_timestamp p < hi)" for lo hi
  proof -
    have "filter (\<lambda>p. lo \<le> dp_timestamp p \<and> dp_timestamp p < hi) pts = []"
      using that by (simp add: filter_empty_conv)
    then show ?thesis by (simp add: newest_in_range_def)
  qed
  consider "ro_space_left r = 0" | "ro_complete r" | "max_timestamp f < ro_next_time r" | "ro_end_time r \<le> min_timestamp f"
    | "ro_space_left r \<noteq> 0" "\<not> ro_complete r" "\<not> max_timestamp f < ro_next_time r" "\<not> ro_end_time r \<le> min_timestamp f"
    by blast
  then show ?thesis
  proof cases
    case 1
    then show ?thesis using run assms(10) by simp
  next
    case 2
    then have "newest_in_range (ro_next_time r) (ro_end_time r) pts = []"
      by (intro none) (simp add: ro_complete_def)
    with 2 run assms(10) show ?thesis by simp
  next
    case 3
    then have "newest_in_range (ro_next_time r) (ro_end_time r) pts = []"
      using assms(9) by (intro none) fastforce
    with 3 run assms(10) show ?thesis by (auto simp: af_max_def)
  next
    case 4
    then have "newest_in_range (ro_next_time r) (ro_end_time r) pts = []"
      using assms(9) by (intro none) fastforce
    with 4 run assms(10) show ?thesis by (auto simp: af_max_def af_min_def)
  next
    case 5
    obtain r' where "sparse_read cfg (dir_path d) f s r = (Inr (), r')" "ro_ok r'"
      "ro_contents r' = ro_contents r @ take (ro_space_left r) (newest_in_range (ro_next_time r) (ro_end_time r) pts)"
      using sparse_read_newest [OF assms(5) stat assms(10)] assms(6-8) by metis
    with 5 run show ?thesis by (simp add: af_max_def af_min_def af_read_def)
  qed
qed

text \<open>The state after a flush of a series: all in one file, nothing in memory.\<close>

lemma series_flush_stored:
  assumes "stored s old (sr_dir sr)" and "wb_ok (sr_buffer sr)" and "wb_sorted_ok (sr_buffer sr)"
    and "pts = wb_points (sr_buffer sr)" and "pts \<noteq> []"
    and "length (old @ pts) * datapoint_size \<le> min (sparse_file_optimize_size cfg) (sparse_file_max_size cfg)"
    and "sparse_file_max_size cfg div datapoint_size < 2147483647" and "list_all dp_ok pts" and "none_earlier old pts"
    and granted: "writes_ok s"
  obtains d' s' b where "flush_buffered_datapoints cfg sr s = Some ((Inr (), sr\<lparr>sr_dir := d', sr_buffer := wb_clear b\<rparr>), s')"
    and "in_one_file s' (old @ sort_key dp_timestamp pts) d'" and "dir_path d' = dir_path (sr_dir sr)"
    and "wb_ok b" and "wb_heap b = wb_heap (sr_buffer sr)" and "grown s s'" and "at_most_one s (sr_dir sr) \<Longrightarrow> alone s' d'"
proof -
  let ?b = "wb_ordered (sr_buffer sr)" and ?sorted = "sort_key dp_timestamp pts"
  note ord = wb_ordered_spec [OF assms(2,3)]
  have b: "wb_ok ?b" "wb_is_sorted ?b" "?sorted = wb_points ?b" "sorted (map dp_timestamp ?sorted)" "?sorted \<noteq> []"
  proof -
    show "wb_ok ?b" "?sorted = wb_points ?b" using ord(1,2) by (simp_all add: assms(4))
    show "wb_is_sorted ?b" by (simp add: wb_ordered_def wb_is_sorted_def wb_sort_def)
    show "sorted (map dp_timestamp ?sorted)" by simp
    show "?sorted \<noteq> []" using assms(5) by (metis length_0_conv length_sort)
  qed
  have "list_all (\<lambda>p. dp_timestamp p \<le> INT64_MAX) ?sorted"
    using assms(8) by (simp add: list_all_iff dp_ok_def i64_ok_def)
  moreover have "length (old @ ?sorted) * datapoint_size \<le> min (sparse_file_optimize_size cfg) (sparse_file_max_size cfg)"
    "none_earlier old ?sorted" using assms(6,9) by (simp_all add: none_earlier_def)
  ultimately obtain d' w' s' where wr: "dir_write cfg (sr_dir sr) (WriteOperation (WBuf ?b)) s = Some ((Inr (), d', w'), s')"
    and "wo_buffer w' = WBuf ?b" and stored: "in_one_file s' (old @ ?sorted) d'" "dir_path d' = dir_path (sr_dir sr)"
    and grown: "grown s s'" and alone: "at_most_one s (sr_dir sr) \<Longrightarrow> list_all dp_ok ?sorted \<Longrightarrow> alone s' d'"
    using dir_write_stored [OF assms(1) granted b _ assms(7)] by metis
  moreover have "wb_num_datapoints (sr_buffer sr) \<noteq> 0"
    using w_buf.buf_size_points [OF assms(2)] assms(4,5) by (auto simp: wb_size_def)
  ultimately have "flush_buffered_datapoints cfg sr s = Some ((Inr (), sr\<lparr>sr_dir := d', sr_buffer := wb_clear ?b\<rparr>), s')"
    by (simp add: flush_buffered_datapoints_def wb_is_empty_def wb_ordered_def)
  moreover have "list_all dp_ok ?sorted" using assms(8) by (simp add: list_all_iff)
  moreover have "wb_heap ?b = wb_heap (sr_buffer sr)" by (simp add: wb_ordered_def wb_sort_def)
  ultimately show ?thesis using that stored b(1) grown alone by blast
qed

lemma newest_in_range_sorted_after:
  "newest_in_range lo hi (old @ sort_key dp_timestamp pts) = newest_in_range lo hi (old @ pts)"
  by (simp add: newest_in_range_def sort_key_stable)

text \<open>
  Claim C4. A flush followed by a read, of a series whose directory is still empty or keeps what
  has been flushed before in one sparse file, by this process or an earlier one: the datapoints of the buffer are all on disk after
  those that were there before, the buffer is empty, and a read returns, in timestamp order and
  as far as there is room, for every timestamp in range the newest datapoint of both.

  The scope: what is on disk and in the buffer together fits one sparse file that is not yet due for
  the optimiser (by default 4096 bytes, 170 datapoints), no datapoint of the buffer starts before the
  earliest on disk, none reaches into a later one and those of one timestamp have one duration, the
  buffer's \<open>sorted\<close> flag is right, and the kernel fails none of the writes (it may interrupt them or
  take them in parts).  Outside of that a flush can open more files, fail or never return.
\<close>

theorem series_flush_then_read:
  assumes "stored s old (sr_dir sr)" and "wb_ok (sr_buffer sr)" and "wb_sorted_ok (sr_buffer sr)"
    and "pts = wb_points (sr_buffer sr)" and "pts \<noteq> []"
    and "length (old @ pts) * datapoint_size \<le> min (sparse_file_optimize_size cfg) (sparse_file_max_size cfg)"
    and "config_ok cfg" and "sparse_file_max_size cfg div datapoint_size < 2147483647" and "none_earlier old pts"
    and "list_all dp_ok (old @ pts)" and "disjoint_points (old @ pts)" and "one_duration (old @ pts)" and "ro_ok r"
    and "writes_ok s"
  shows "\<exists>sr' s' r'. flush_buffered_datapoints cfg sr s = Some ((Inr (), sr'), s') \<and>
    series_datapoints_buffered sr' = 0 \<and> in_one_file s' (old @ sort_key dp_timestamp pts) (sr_dir sr') \<and>
    series_read cfg s' sr' r = Some ((Inr (), sr'), r') \<and>
    ro_contents r' = ro_contents r @
      take (ro_space_left r) (newest_in_range (ro_next_time r) (ro_end_time r) (old @ pts))"
proof -
  let ?pts = "old @ sort_key dp_timestamp pts"
  have ok: "list_all dp_ok pts" using assms(10) by simp
  obtain d' s' b where flush: "flush_buffered_datapoints cfg sr s = Some ((Inr (), sr\<lparr>sr_dir := d', sr_buffer := wb_clear b\<rparr>), s')"
    and one: "in_one_file s' ?pts d'"
    by (rule series_flush_stored [OF assms(1-6,8) ok assms(9,14)])
  let ?sr' = "sr\<lparr>sr_dir := d', sr_buffer := wb_clear b\<rparr>"
  obtain f where f: "dir_filenames_read d'" "dir_files d' = [Sparse f]" "leaf_dir (dir_path d') s'"
    "file_at (sparse_get_path (dir_path d') f) s' = Some (enc_all dp_encode ?pts)"
    "\<forall>p \<in> set ?pts. min_timestamp f \<le> dp_timestamp p \<and> dp_timestamp p \<le> max_timestamp f"
    using one by (auto simp: in_one_file_def)
  have contents: "sparse_contents cfg (enc_all dp_encode ?pts) = ?pts"
    using assms(6,10) by (intro sparse_contents_encoded) (auto simp: list_all_iff)
  have apart: "disjoint_points ?pts" "one_duration ?pts"
    using disjoint_points_subset [OF assms(11), of ?pts] one_duration_subset [OF assms(12), of ?pts] by simp_all
  from dir_read_one_sparse [OF f(1-4) assms(7) contents apart f(5) assms(13)]
  obtain r' where rd: "dir_read cfg s' d' r = Some ((Inr (), d'), r')"
    "ro_contents r' = ro_contents r @ take (ro_space_left r) (newest_in_range (ro_next_time r) (ro_end_time r) ?pts)"
    by blast
  have "series_read cfg s' ?sr' r = Some ((Inr (), ?sr'), if ro_space_left r' \<noteq> 0 then r'\<lparr>ro_next_time := ro_end_time r'\<rparr> else r')"
    using rd(1) by (simp add: series_read_def wb_clear_def wb_is_sorted_def wb_size_def Let_def)
  moreover have "ro_contents (if ro_space_left r' \<noteq> 0 then r'\<lparr>ro_next_time := ro_end_time r'\<rparr> else r') = ro_contents r'"
    by simp
  moreover have "series_datapoints_buffered ?sr' = 0" by (simp add: series_datapoints_buffered_def wb_size_def wb_clear_def)
  moreover have "in_one_file s' ?pts (sr_dir ?sr')" using one by simp
  ultimately show ?thesis using flush rd(2) by (metis newest_in_range_sorted_after)
qed

text \<open>The series above with one datapoint on disk from an earlier flush.\<close>

definition flushed_series :: "datapoint list \<Rightarrow> bool \<Rightarrow> series" where
  "flushed_series ps is_sorted = (demo_series ps is_sorted)\<lparr>sr_dir := demo_directory [Sparse (SparseFile 10 10 False)]\<rparr>"

definition flushed_world :: world where
  "flushed_world = demo_world [(''d/10-10'', enc_all dp_encode [Datapoint 10 1 5])]"

lemma flushed_stored: "stored flushed_world [Datapoint 10 1 5] (sr_dir (flushed_series ps is_sorted))"
proof -
  have "file_at ''d/10-10'' flushed_world = Some (enc_all dp_encode [Datapoint 10 1 5])"
    by (simp add: file_at_def flushed_world_def demo_world_def)
  moreover have "leaf_dir ''d'' flushed_world" unfolding flushed_world_def by (rule demo_leaf)
  moreover have "is_dir (strip_slashes ''d'') flushed_world"
    by (simp add: flushed_world_def is_dir_def strip_slashes_def demo_world_def)
  ultimately show ?thesis
    by (intro in_one_file_stored, simp add: in_one_file_def flushed_series_def demo_directory_def demo_path SparseFile_def [of 10 10])
      (simp add: Datapoint_def SparseFile_def flip: demo_path(1))
qed

lemma flushed_writes: "writes_ok flushed_world"
  by (simp add: flushed_world_def)

theorem series_flush_then_read_witness:
  "\<exists>sr' s' r'. flush_buffered_datapoints demo_config
      (flushed_series [Datapoint 20 1 5, Datapoint 10 2 5, Datapoint 20 3 5] False) flushed_world = Some ((Inr (), sr'), s') \<and>
    series_read demo_config s' sr' (demo_read 0 100 8) = Some ((Inr (), sr'), r') \<and>
    ro_contents r' = [Datapoint 10 2 5, Datapoint 20 3 5]"
proof -
  let ?old = "[Datapoint 10 1 5]" and ?ps = "[Datapoint 20 1 5, Datapoint 10 2 5, Datapoint 20 3 5]"
  let ?sr = "flushed_series ?ps False"
  have facts: "list_all dp_ok (?old @ ?ps)" "disjoint_points (?old @ ?ps)" "one_duration (?old @ ?ps)"
    "newest_in_range 0 100 (?old @ ?ps) = [Datapoint 10 2 5, Datapoint 20 3 5]" by code_simp+
  have len: "length ?ps = 3" by simp
  have buffer: "wb_ok (sr_buffer ?sr)" "wb_sorted_ok (sr_buffer ?sr)" "?ps = wb_points (sr_buffer ?sr)" "?ps \<noteq> []"
    using demo_series_buffer(1,2) [OF len, of False]
    by (simp_all add: flushed_series_def wb_sorted_ok_def demo_series_def)
  have conf: "length (?old @ ?ps) * datapoint_size \<le> min (sparse_file_optimize_size demo_config) (sparse_file_max_size demo_config)"
    "sparse_file_max_size demo_config div datapoint_size < 2147483647"
    by (simp_all add: demo_config_def default_config_def datapoint_size_def)
  have early: "none_earlier ?old ?ps" by (simp add: none_earlier_def Datapoint_def)
  from series_flush_then_read [OF flushed_stored buffer conf(1) demo_config_ok conf(2) early facts(1-3) demo_read_simps(1) flushed_writes, of 0 100 8] facts(4)
  show ?thesis by (auto simp: demo_read_simps)
qed

end
