(* ===== verification/Search.thy ===== *)
theory Search
  imports FileNames
begin

text \<open>
  \<open>search_engine.h/.cc\<close> and \<open>sql_statement.h\<close>: the label index in an SQLite database.

  SQLite is a parameter: a record of the calls the code makes, over a database state of any
  type.  A prepared statement is its SQL text with the values bound to it.  \<open>BindText\<close> binds
  its own copy of the text without having SQLite copy it, so what a later step reads there is
  \<open>sq_stale\<close> of the text.
\<close>

section \<open>SQLite, as the code uses it\<close>

datatype sql_value = SqlText string | SqlInt int

type_synonym sql_statement = "string \<times> sql_value list"

record 'db sqlite =
  sq_prepare_ok :: "string \<Rightarrow> 'db \<Rightarrow> bool"
  sq_bind_ok :: "sql_statement \<Rightarrow> sql_value \<Rightarrow> 'db \<Rightarrow> bool"
  sq_exec :: "string \<Rightarrow> 'db \<Rightarrow> bool \<times> 'db"
  sq_step_done :: "sql_statement \<Rightarrow> 'db \<Rightarrow> bool \<times> 'db"
  sq_rows :: "sql_statement \<Rightarrow> 'db \<Rightarrow> string list \<times> bool"
  sq_last_insert_rowid :: "'db \<Rightarrow> int"
  sq_errmsg :: "'db \<Rightarrow> string"
  sq_printf_w :: "string \<Rightarrow> string"
  sq_stale :: "string \<Rightarrow> string"

definition sql_error :: "'db sqlite \<Rightarrow> string \<Rightarrow> 'db \<Rightarrow> error" where
  "sql_error sq msg db = SqliteErr (msg @ '': '' @ sq_errmsg sq db)"

text \<open>\<open>Throw\<close> of a statement: what failed, SQLite's message and the text of the statement.\<close>

definition stmt_error :: "'db sqlite \<Rightarrow> string \<Rightarrow> string \<Rightarrow> 'db \<Rightarrow> error" where
  "stmt_error sq msg sql db = SqliteErr (msg @ '': '' @ sq_errmsg sq db @ '', query='' @ sql)"

text \<open>The parameters are bound one after the other, from the first on.\<close>

definition bind_text :: "'db sqlite \<Rightarrow> string \<Rightarrow> sql_statement \<Rightarrow> (sql_statement, 'db) prog" where
  "bind_text sq val stmt db =
     (if sq_bind_ok sq stmt (SqlText val) db then (Inr (fst stmt, snd stmt @ [SqlText (sq_stale sq val)]), db)
      else (Inl (stmt_error sq ''sqlite3_bind_text() failed'' (fst stmt) db), db))"

definition bind_int64 :: "'db sqlite \<Rightarrow> int \<Rightarrow> sql_statement \<Rightarrow> (sql_statement, 'db) prog" where
  "bind_int64 sq val stmt db =
     (if sq_bind_ok sq stmt (SqlInt val) db then (Inr (fst stmt, snd stmt @ [SqlInt val]), db)
      else (Inl (stmt_error sq ''sqlite3_bind_int64() failed'' (fst stmt) db), db))"

primrec bind_texts :: "'db sqlite \<Rightarrow> string list \<Rightarrow> sql_statement \<Rightarrow> (sql_statement, 'db) prog" where
  "bind_texts sq [] stmt = returnM stmt"
| "bind_texts sq (v # vs) stmt = bindM (bind_text sq v stmt) (bind_texts sq vs)"

definition sql_prepare :: "'db sqlite \<Rightarrow> string \<Rightarrow> (sql_statement, 'db) prog" where
  "sql_prepare sq sql db =
     (if sq_prepare_ok sq sql db then (Inr (sql, []), db) else (Inl (sql_error sq ''Prepare() failed'' db), db))"

definition sql_execute :: "'db sqlite \<Rightarrow> sql_statement \<Rightarrow> (unit, 'db) prog" where
  "sql_execute sq stmt db =
     (case sq_step_done sq stmt db of
       (True, db') \<Rightarrow> (Inr (), db')
     | (False, db') \<Rightarrow> (Inl (stmt_error sq ''sqlite3_step() != SQLITE_DONE'' (fst stmt) db'), db'))"

text \<open>\<open>sqlite3_exec\<close> followed by \<open>MaybeThrowSqliteError\<close>.\<close>

definition sql_exec :: "'db sqlite \<Rightarrow> string \<Rightarrow> string \<Rightarrow> (unit, 'db) prog" where
  "sql_exec sq sql msg db =
     (case sq_exec sq sql db of
       (True, db') \<Rightarrow> (Inr (), db')
     | (False, db') \<Rightarrow> (Inl (sql_error sq msg db'), db'))"

definition DQ :: string where "DQ = [char_of (34 :: nat)]"
definition SQ :: string where "SQ = [char_of (39 :: nat)]"

text \<open>\<open>SqlQuoteIdentifier\<close>: cut off by the buffer of 4096 bytes.\<close>

definition sql_quote_identifier :: "'db sqlite \<Rightarrow> string \<Rightarrow> string" where
  "sql_quote_identifier sq raw = take 4095 (DQ @ sq_printf_w sq raw @ DQ)"

section \<open>Indexing a series\<close>

definition index_label :: "'db sqlite \<Rightarrow> int \<Rightarrow> string \<Rightarrow> string \<Rightarrow> (unit, 'db) prog" where
  "index_label sq series_id name value =
     (let table_name = sql_quote_identifier sq name in
      bindM (sql_exec sq (''CREATE TABLE IF NOT EXISTS '' @ table_name @
          '' (series_id INTEGER PRIMARY KEY NOT NULL, value TEXT NOT NULL)'')
          ''Failed to sqlite3_exec() label table creation sql'') (\<lambda>_.
      bindM (sql_prepare sq (''INSERT OR IGNORE INTO '' @ table_name @ '' (series_id, value) VALUES (?, ?);'')) (\<lambda>insert.
      bindM (bind_int64 sq series_id insert) (\<lambda>insert.
      bindM (bind_text sq value insert) (\<lambda>insert. sql_execute sq insert)))))"

primrec index_labels :: "'db sqlite \<Rightarrow> int \<Rightarrow> (string \<times> string) list \<Rightarrow> (unit, 'db) prog" where
  "index_labels sq series_id [] = returnM ()"
| "index_labels sq series_id (l # ls) =
     bindM (index_label sq series_id (fst l) (snd l)) (\<lambda>_. index_labels sq series_id ls)"

definition series_insert_sql :: string where
  "series_insert_sql = ''INSERT OR IGNORE INTO '' @ DQ @ ''vqro:series'' @ DQ @ '' (key, protobuf) VALUES (?, ?);''"

text \<open>
  \<open>IndexSeries\<close>; \<open>serialize\<close> is the protobuf serialisation.  What it leaves in
  \<open>is_indexed\<close> is \<open>True\<close> where it returns.
\<close>

definition index_series ::
  "'db sqlite \<Rightarrow> ((string \<times> string) list \<Rightarrow> string option) \<Rightarrow> (string \<times> string) list \<Rightarrow> string \<Rightarrow> (unit, 'db) prog" where
  "index_series sq serialize labels keystr =
     bindM (sql_prepare sq series_insert_sql) (\<lambda>series_insert.
     bindM (sql_prepare sq ''BEGIN TRANSACTION'') (\<lambda>begin_transaction.
     bindM (sql_prepare sq ''END TRANSACTION'') (\<lambda>end_transaction.
       case serialize labels of
         None \<Rightarrow> throwM (SqliteErr ''Failed to serialize series protobuf!'')
       | Some proto_str \<Rightarrow>
           bindM (bind_text sq keystr series_insert) (\<lambda>series_insert.
           bindM (bind_text sq proto_str series_insert) (\<lambda>series_insert.
           bindM (sql_execute sq series_insert) (\<lambda>_.
           bindM (getsM (sq_last_insert_rowid sq)) (\<lambda>series_id.
             if series_id \<noteq> 0 then
               bindM (sql_execute sq begin_transaction) (\<lambda>_.
               bindM (index_labels sq series_id labels) (\<lambda>_. sql_execute sq end_transaction))
             else returnM ())))))))"

section \<open>Searching\<close>

datatype label_predicate = ExactValue string | Regex string | PredicateNotSet

record label_constraint =
  lc_label_name :: string
  lc_predicate :: label_predicate

record series_query =
  q_constraints :: "label_constraint list"
  q_result_offset :: int
  q_result_limit :: int

text \<open>The table of the index, and one \<open>INNER JOIN\<close> for each constraint.\<close>

definition vqro_series :: string where "vqro_series = DQ @ ''vqro:series'' @ DQ"

definition join_clause :: "'db sqlite \<Rightarrow> label_constraint \<Rightarrow> string" where
  "join_clause sq c = (let table = sql_quote_identifier sq (lc_label_name c) in
     ''INNER JOIN '' @ table @ '' ON '' @ vqro_series @ ''.series_id = '' @ table @ ''.series_id '')"

definition where_term :: "'db sqlite \<Rightarrow> label_constraint \<Rightarrow> string" where
  "where_term sq c = (let table = sql_quote_identifier sq (lc_label_name c) in
     case lc_predicate c of
       ExactValue _ \<Rightarrow> table @ ''.value = ? ''
     | Regex _ \<Rightarrow> table @ ''.value REGEXP ? ''
     | PredicateNotSet \<Rightarrow> '''')"

definition where_parameter :: "label_constraint \<Rightarrow> string list" where
  "where_parameter c = (case lc_predicate c of ExactValue v \<Rightarrow> [v] | Regex v \<Rightarrow> [v] | PredicateNotSet \<Rightarrow> [])"

text \<open>The loop over the constraints: the counter decides whether an \<open>AND\<close> follows.\<close>

primrec where_clause :: "'db sqlite \<Rightarrow> label_constraint list \<Rightarrow> string \<times> string list" where
  "where_clause sq [] = ('''', [])"
| "where_clause sq (c # cs) =
     (case where_clause sq cs of (sql, parameters) \<Rightarrow>
       (where_term sq c @ (if cs \<noteq> [] then ''AND '' else '''') @ sql, where_parameter c @ parameters))"

definition limit_clause :: "int \<Rightarrow> int \<Rightarrow> string" where
  "limit_clause lim off =
     (if lim \<noteq> 0 then ''LIMIT '' @ to_string lim @ (if off \<noteq> 0 then '' OFFSET '' @ to_string off else '''') else '''')"

definition search_series_sql :: "'db sqlite \<Rightarrow> series_query \<Rightarrow> string \<times> string list" where
  "search_series_sql sq query =
     (case where_clause sq (q_constraints query) of (conditions, parameters) \<Rightarrow>
       (''SELECT protobuf FROM '' @ vqro_series @ '' '' @
          concat (map (join_clause sq) (q_constraints query)) @ ''WHERE '' @ conditions @
          limit_clause (q_result_limit query) (q_result_offset query) @ '';'',
        parameters))"

text \<open>
  The loop over the result rows: a row that does not parse is left out, and whenever the batch
  is full it is handed to the callback.
\<close>

primrec batch_rows ::
  "int \<Rightarrow> (string \<Rightarrow> 'm option) \<Rightarrow> ('m list \<Rightarrow> (unit, 's) prog) \<Rightarrow> string list \<Rightarrow> 'm list \<Rightarrow> ('m list, 's) prog" where
  "batch_rows batch_size parse callback [] result = returnM result"
| "batch_rows batch_size parse callback (row # rows) result =
     (case parse row of
       None \<Rightarrow> batch_rows batch_size parse callback rows result
     | Some m \<Rightarrow>
         if batch_size \<le> int (length (result @ [m]))
         then bindM (callback (result @ [m])) (\<lambda>_. batch_rows batch_size parse callback rows [])
         else batch_rows batch_size parse callback rows (result @ [m]))"

text \<open>The rows, the rest of the batch and the check of the final return code.\<close>

definition answer_rows ::
  "int \<Rightarrow> (string \<Rightarrow> 'm option) \<Rightarrow> ('m list \<Rightarrow> (unit, 's) prog) \<Rightarrow> error \<Rightarrow> string list \<times> bool \<Rightarrow> (unit, 's) prog" where
  "answer_rows batch_size parse callback err answer =
     bindM (batch_rows batch_size parse callback (fst answer) []) (\<lambda>result.
     bindM (if result \<noteq> [] then callback result else returnM ()) (\<lambda>_.
       if snd answer then returnM () else throwM err))"

definition search_series ::
  "'db sqlite \<Rightarrow> int \<Rightarrow> (string \<Rightarrow> 'm option) \<Rightarrow> 'db \<Rightarrow> series_query \<Rightarrow>
     ('m list \<Rightarrow> (unit, 's) prog) \<Rightarrow> (unit, 's) prog" where
  "search_series sq batch_size parse db query callback =
     (if q_constraints query = [] then returnM ()
      else (case search_series_sql sq query of (sql, parameters) \<Rightarrow>
        if sq_prepare_ok sq sql db then
          (case fst (bind_texts sq parameters (sql, []) db) of
            Inl e \<Rightarrow> throwM e
          | Inr select \<Rightarrow>
              answer_rows batch_size parse callback (sql_error sq ''sqlite3_step() error'' db) (sq_rows sq select db))
        else throwM (sql_error sq ''Prepare() failed'' db)))"

record labels_query =
  lq_regex :: string
  lq_result_offset :: int
  lq_result_limit :: int

definition search_labels_sql :: "labels_query \<Rightarrow> string" where
  "search_labels_sql query =
     char_of (10 :: nat) # ''    SELECT name'' @ [char_of (10 :: nat)] @ ''    FROM SQLITE_MASTER'' @ [char_of (10 :: nat)] @
     ''    WHERE type='' @ SQ @ ''table'' @ SQ @ '' AND'' @ [char_of (10 :: nat)] @
     ''    name NOT LIKE '' @ SQ @ ''vqro:%'' @ SQ @ '' AND'' @ [char_of (10 :: nat)] @
     ''    name REGEXP ?'' @ [char_of (10 :: nat)] @ ''  '' @
     (if lq_result_limit query \<noteq> 0 then '' '' else '''') @
     limit_clause (lq_result_limit query) (lq_result_offset query) @ '';''"

definition search_labels ::
  "'db sqlite \<Rightarrow> int \<Rightarrow> 'db \<Rightarrow> labels_query \<Rightarrow> (string list \<Rightarrow> (unit, 's) prog) \<Rightarrow> (unit, 's) prog" where
  "search_labels sq batch_size db query callback =
     (if lq_regex query = '''' then returnM ()
      else let sql = search_labels_sql query in
        if sq_prepare_ok sq sql db then
          (case fst (bind_text sq (lq_regex query) (sql, []) db) of
            Inl e \<Rightarrow> throwM e
          | Inr select \<Rightarrow>
              answer_rows batch_size Some callback (sql_error sq ''sqlite3_step() error'' db) (sq_rows sq select db))
        else throwM (sql_error sq ''Prepare() failed'' db))"
section \<open>Opening the index\<close>

definition NL :: string where "NL = [char_of (10 :: nat)]"

text \<open>
  The constructor: \<open>opened\<close> and \<open>registered\<close> tell whether \<open>sqlite3_open\<close> and the
  registration of \<open>REGEXP\<close> succeeded; the result is the set of label tables found.
\<close>

definition SearchEngine ::
  "'db sqlite \<Rightarrow> bool \<Rightarrow> bool \<Rightarrow> string \<Rightarrow> string \<Rightarrow> string \<Rightarrow> (string set, 'db) prog" where
  "SearchEngine sq opened registered locking_mode journal_mode synchronous =
     bindM (\<lambda>db. if opened then (Inr (), db) else (Inl (sql_error sq ''sqlite3_open() failed'' db), db)) (\<lambda>_.
     bindM (sql_exec sq (''PRAGMA locking_mode='' @ locking_mode @ '';'' @ NL @
         ''PRAGMA journal_mode='' @ journal_mode @ '';'' @ NL @ ''PRAGMA synchronous='' @ synchronous @ '';'' @ NL)
         ''Failed to set pragmas'') (\<lambda>_.
     bindM (\<lambda>db. if registered then (Inr (), db)
               else (Inl (sql_error sq ''Failed to create REGEXP sqlite function'' db), db)) (\<lambda>_.
     bindM (sql_exec sq (NL @ ''    CREATE TABLE IF NOT EXISTS '' @ vqro_series @ '' ('' @ NL @
         ''        series_id INTEGER PRIMARY KEY NOT NULL,'' @ NL @
         ''        key TEXT UNIQUE NOT NULL,'' @ NL @ ''        protobuf BLOB NOT NULL);'' @ NL @ ''  '')
         ''Failed to sqlite3_exec() table initialization sql'') (\<lambda>_ db.
       case sq_rows sq (NL @ ''    SELECT name'' @ NL @ ''    FROM SQLITE_MASTER'' @ NL @
           ''    WHERE type='' @ SQ @ ''table'' @ SQ @ '' AND name NOT LIKE '' @ SQ @ ''vqro:%'' @ SQ @ '';'' @ NL @ ''  '', []) db of
         (names, True) \<Rightarrow> (Inr (set names), db)
       | (names, False) \<Rightarrow> (Inl (sql_error sq ''Failed to sqlite3_exec() table scan sql'' db), db)))))"

text \<open>
  \<open>sqlite_regexp_re2\<close>, the SQL function behind \<open>REGEXP\<close>: SQLite calls it with the pattern first.
  Both texts end at a NUL; \<open>full_match\<close> is that of RE2, text first.
\<close>

definition c_text :: "string \<Rightarrow> string" where
  "c_text s = takeWhile (\<lambda>c. c \<noteq> NUL) s"

definition sqlite_regexp_re2 :: "(string \<Rightarrow> string \<Rightarrow> bool) \<Rightarrow> string list \<Rightarrow> int" where
  "sqlite_regexp_re2 full_match argv =
     (if length argv = 2 then (let pattern = c_text (argv ! 0); txt = c_text (argv ! 1) in of_bool (full_match txt pattern)) else 0)"

lemma regexp_of_operator:
  "NUL \<notin> set pattern \<Longrightarrow> NUL \<notin> set val \<Longrightarrow>
    sqlite_regexp_re2 full_match [pattern, val] = 1 \<longleftrightarrow> full_match val pattern"
proof -
  have "c_text s = s" if "NUL \<notin> set s" for s
    unfolding c_text_def takeWhile_eq_all_conv using that by auto
  then show "NUL \<notin> set pattern \<Longrightarrow> NUL \<notin> set val \<Longrightarrow> ?thesis" by (simp add: sqlite_regexp_re2_def)
qed

section \<open>Batches of results\<close>

text \<open>A callback that keeps what it is given.\<close>

definition keep_batch :: "'m list \<Rightarrow> (unit, 'm list list) prog" where
  "keep_batch ms = (\<lambda>seen. (Inr (), seen @ [ms]))"

lemma keep_batch_run [run]: "keep_batch ms seen = (Inr (), seen @ [ms])"
  by (simp add: keep_batch_def)

lemma batch_rows_keep:
  assumes "0 < n" and "length acc < n"
  shows "\<exists>full rest. batch_rows (int n) parse keep_batch rows acc seen = (Inr rest, seen @ full) \<and>
    concat full @ rest = acc @ List.map_filter parse rows \<and> list_all (\<lambda>b. length b = n) full \<and> length rest < n"
  using assms(2)
proof (induction rows arbitrary: acc seen)
  case Nil
  then show ?case
    by (intro exI [of _ "[]"] exI [of _ acc]) (simp add: returnM_def List.map_filter_simps)
next
  case (Cons row rows)
  show ?case
  proof (cases "parse row")
    case None
    with Cons.IH [OF Cons.prems, of seen] show ?thesis by (simp add: List.map_filter_simps)
  next
    case (Some m)
    show ?thesis
    proof (cases "n \<le> length (acc @ [m])")
      case True
      with Cons.prems have full: "length (acc @ [m]) = n" by simp
      from Cons.IH [of "[]" "seen @ [acc @ [m]]"] assms(1) obtain bs rest where
        "batch_rows (int n) parse keep_batch rows [] (seen @ [acc @ [m]]) = (Inr rest, (seen @ [acc @ [m]]) @ bs)"
        "concat bs @ rest = List.map_filter parse rows" "list_all (\<lambda>b. length b = n) bs" "length rest < n" by auto
      moreover have "keep_batch (acc @ [m]) seen = (Inr (), seen @ [acc @ [m]])" by (rule keep_batch_run)
      ultimately show ?thesis using Some full
        by (intro exI [of _ "(acc @ [m]) # bs"] exI [of _ rest])
          (simp add: bindM_def List.map_filter_simps)
    next
      case False
      with Cons.IH [of "acc @ [m]" seen] Some show ?thesis by (simp add: List.map_filter_simps)
    qed
  qed
qed

text \<open>Whether SQLite takes each of the texts, after those before it.\<close>

primrec texts_bound :: "'db sqlite \<Rightarrow> 'db \<Rightarrow> string list \<Rightarrow> sql_statement \<Rightarrow> bool" where
  "texts_bound sq db [] stmt \<longleftrightarrow> True"
| "texts_bound sq db (v # vs) stmt \<longleftrightarrow> sq_bind_ok sq stmt (SqlText v) db \<and>
     texts_bound sq db vs (fst stmt, snd stmt @ [SqlText (sq_stale sq v)])"

lemma bind_texts_cases:
  "if texts_bound sq db vs stmt
   then bind_texts sq vs stmt db = (Inr (fst stmt, snd stmt @ map (\<lambda>v. SqlText (sq_stale sq v)) vs), db)
   else bind_texts sq vs stmt db = (Inl (stmt_error sq ''sqlite3_bind_text() failed'' (fst stmt) db), db)"
proof (induction vs arbitrary: stmt)
  case (Cons v vs)
  show ?case
  proof (cases "sq_bind_ok sq stmt (SqlText v) db")
    case True
    then have "bind_texts sq (v # vs) stmt db = bind_texts sq vs (fst stmt, snd stmt @ [SqlText (sq_stale sq v)]) db"
      by (simp add: bindM_def bind_text_def)
    with True Cons.IH [of "(fst stmt, snd stmt @ [SqlText (sq_stale sq v)])"] show ?thesis
      by (simp split: if_splits)
  next
    case False
    then have "bind_texts sq (v # vs) stmt db = (Inl (stmt_error sq ''sqlite3_bind_text() failed'' (fst stmt) db), db)"
      by (simp add: bindM_def bind_text_def)
    with False show ?thesis by auto
  qed
qed (simp add: returnM_def)

text \<open>
  Claim C30. The results of a search reach the callback in order and completely, in non-empty
  batches of at most the configured size, all but the last of which are full; an error of the
  last step is raised only after everything has been delivered.  Where SQLite refuses a parameter,
  its error is raised and nothing is delivered.
\<close>

theorem search_delivers_batches:
  assumes "0 < n" and "q_constraints query \<noteq> []"
    and "search_series_sql sq query = (sql, parameters)" and "sq_prepare_ok sq sql db"
    and "sq_rows sq (sql, map (\<lambda>p. SqlText (sq_stale sq p)) parameters) db = (rows, finished)"
  shows "if texts_bound sq db parameters (sql, [])
    then \<exists>full rest. search_series sq (int n) parse db query keep_batch [] =
        (if finished then Inr () else Inl (sql_error sq ''sqlite3_step() error'' db), full @ (if rest = [] then [] else [rest])) \<and>
      concat full @ rest = List.map_filter parse rows \<and> list_all (\<lambda>b. length b = n) full \<and> length rest < n
    else search_series sq (int n) parse db query keep_batch [] =
        (Inl (stmt_error sq ''sqlite3_bind_text() failed'' sql db), [])"
proof (cases "texts_bound sq db parameters (sql, [])")
  case True
  with bind_texts_cases [of sq db parameters "(sql, [])"] have bound:
    "bind_texts sq parameters (sql, []) db = (Inr (sql, map (\<lambda>p. SqlText (sq_stale sq p)) parameters), db)" by simp
  obtain full rest where "batch_rows (int n) parse keep_batch rows [] [] = (Inr rest, full)"
    "concat full @ rest = List.map_filter parse rows" "list_all (\<lambda>b. length b = n) full" "length rest < n"
    using batch_rows_keep [OF assms(1), of "[]" parse rows "[]"] assms(1) by auto
  then show ?thesis
    unfolding if_P [OF True] using assms(2-5) bound
    by (intro exI [of _ full] exI [of _ rest]) (simp add: search_series_def answer_rows_def bindM_def run)
next
  case False
  with bind_texts_cases [of sq db parameters "(sql, [])"] have
    "bind_texts sq parameters (sql, []) db = (Inl (stmt_error sq ''sqlite3_bind_text() failed'' sql db), db)" by simp
  with False show ?thesis using assms(2-4) by (simp add: search_series_def throwM_def)
qed

text \<open>A database that answers every query with the same rows, and counts statements in a log.\<close>

definition demo_sqlite :: "string list \<Rightarrow> (int \<times> sql_statement list) sqlite" where
  "demo_sqlite rows = \<lparr>sq_prepare_ok = (\<lambda>sql db. True), sq_bind_ok = (\<lambda>stmt val db. True), sq_exec = (\<lambda>sql db. (True, db)),
     sq_step_done = (\<lambda>stmt db. (True, (fst db, snd db @ [stmt]))), sq_rows = (\<lambda>stmt db. (rows, True)),
     sq_last_insert_rowid = fst, sq_errmsg = (\<lambda>db. ''''), sq_printf_w = (\<lambda>s. s), sq_stale = (\<lambda>s. s)\<rparr>"

definition demo_query :: series_query where
  "demo_query = \<lparr>q_constraints = [\<lparr>lc_label_name = ''host'', lc_predicate = ExactValue ''a''\<rparr>],
     q_result_offset = 0, q_result_limit = 10\<rparr>"

theorem search_delivers_batches_witness:
  "\<exists>bs. search_series (demo_sqlite [''r'', ''s'', ''t'']) 2 Some (0, []) demo_query keep_batch [] = (Inr (), bs) \<and>
    concat bs = [''r'', ''s'', ''t'']"
proof -
  obtain sql ps where sql: "search_series_sql (demo_sqlite [''r'', ''s'', ''t'']) demo_query = (sql, ps)" by (rule prod.exhaust)
  have ne: "q_constraints demo_query \<noteq> []" by (simp add: demo_query_def)
  have ok: "sq_prepare_ok (demo_sqlite [''r'', ''s'', ''t'']) sql (0, [])"
    "sq_rows (demo_sqlite [''r'', ''s'', ''t'']) (sql, map (\<lambda>p. SqlText (sq_stale (demo_sqlite [''r'', ''s'', ''t'']) p)) ps) (0, []) =
      ([''r'', ''s'', ''t''], True)"
    by (simp_all add: demo_sqlite_def)
  have two: "(0 :: nat) < 2" by simp
  have "texts_bound (demo_sqlite rows) db vs stmt" for rows db vs stmt
    by (induction vs arbitrary: stmt) (simp_all add: demo_sqlite_def)
  with search_delivers_batches [OF two ne sql ok, of Some] obtain full rest where
    "search_series (demo_sqlite [''r'', ''s'', ''t'']) (int 2) Some (0, []) demo_query keep_batch [] =
      (Inr (), full @ (if rest = [] then [] else [rest]))" "concat full @ rest = [''r'', ''s'', ''t'']"
    by (auto simp: List.map_filter_simps)
  then show ?thesis by auto
qed

text \<open>
  Indexing a series the index already knows: the ignored insert leaves
  \<open>last_insert_rowid\<close> at the last row this connection inserted, so unless that is zero every
  label of the series is inserted again under the id of another series.
\<close>

theorem known_series_indexed_under_last_rowid:
  assumes "\<And>sql db. sq_prepare_ok sq sql db" and "\<And>stmt val db. sq_bind_ok sq stmt val db" and "serialize labels = Some proto"
    and "sq_step_done sq (series_insert_sql, [SqlText (sq_stale sq keystr), SqlText (sq_stale sq proto)]) db = (True, db)"
    and "sq_last_insert_rowid sq db = other_id" and "other_id \<noteq> 0"
    and "sq_step_done sq (''BEGIN TRANSACTION'', []) db = (True, db1)"
  shows "index_series sq serialize labels keystr db =
    bindM (index_labels sq other_id labels) (\<lambda>_. sql_execute sq (''END TRANSACTION'', [])) db1"
  using assms
  by (simp add: index_series_def bindM_def sql_prepare_def sql_execute_def bind_text_def getsM_def)

text \<open>The same database, except that inserting a known series is ignored.\<close>

definition known_sqlite :: "(int \<times> sql_statement list) sqlite" where
  "known_sqlite = (demo_sqlite [])\<lparr>sq_step_done := (\<lambda>stmt db.
     (True, if fst stmt = series_insert_sql then db else (fst db, snd db @ [stmt])))\<rparr>"

theorem known_series_indexed_under_last_rowid_witness:
  "snd (snd (index_series known_sqlite (\<lambda>ls. Some ''proto'') [(''host'', ''a'')] ''host=a;'' (7, []))) =
    [(''BEGIN TRANSACTION'', []),
     (''INSERT OR IGNORE INTO '' @ DQ @ ''host'' @ DQ @ '' (series_id, value) VALUES (?, ?);'', [SqlInt 7, SqlText ''a'']),
     (''END TRANSACTION'', [])]"
proof -
  have ok: "sq_prepare_ok known_sqlite sql db" "sq_bind_ok known_sqlite stmt val db" for sql db stmt val by (simp_all add: known_sqlite_def demo_sqlite_def)
  have ins: "sq_step_done known_sqlite (series_insert_sql,
      [SqlText (sq_stale known_sqlite ''host=a;''), SqlText (sq_stale known_sqlite ''proto'')]) (7, []) = (True, (7, []))"
    by (simp add: known_sqlite_def)
  have rest: "sq_last_insert_rowid known_sqlite (7, []) = 7" "(7 :: int) \<noteq> 0"
    "sq_step_done known_sqlite (''BEGIN TRANSACTION'', []) (7, []) = (True, (7, [(''BEGIN TRANSACTION'', [])]))"
    by (simp_all add: known_sqlite_def demo_sqlite_def series_insert_sql_def)
  have "index_series known_sqlite (\<lambda>ls. Some ''proto'') [(''host'', ''a'')] ''host=a;'' (7, []) =
      bindM (index_labels known_sqlite 7 [(''host'', ''a'')]) (\<lambda>_. sql_execute known_sqlite (''END TRANSACTION'', []))
        (7, [(''BEGIN TRANSACTION'', [])])"
    by (rule known_series_indexed_under_last_rowid [where proto = "''proto''"]) (simp_all add: ok ins rest)
  then show ?thesis
    by (simp add: bindM_def index_label_def sql_exec_def sql_prepare_def sql_execute_def bind_text_def bind_int64_def
        returnM_def known_sqlite_def demo_sqlite_def series_insert_sql_def sql_quote_identifier_def DQ_def)
qed

end
