(* ===== verification/Database.thy ===== *)
theory Database
  imports SeriesFlush Search "HOL-Library.List_Lexorder" "HOL-Library.Char_ord"
begin

text \<open>
  \<open>db.h/.cc\<close>: the series of a server, kept by the key made of their labels, and what
  writing, reading and flushing them do.  A task handed to a worker runs before \<open>wait\<close>
  returns; an exception it throws stays in the future, which nobody asks for it.

  The state holds the file system and the queue of the worker (\<open>world\<close>), the SQLite database
  and the series.  \<open>hash\<close> is \<open>std::hash\<close>, \<open>serialize\<close> the protobuf serialisation, \<open>dp_threads\<close> how
  many more threads the system lets the process start.
\<close>

section \<open>State\<close>

record db_params =
  dp_config :: config
  dp_hash :: "string \<Rightarrow> nat"
  dp_serialize :: "(string \<times> string) list \<Rightarrow> string option"
  dp_empty_buffer :: write_buffer
  dp_db_worker_threads :: int
  dp_threads :: nat

record 'db database =
  db_root_dir :: string
  db_num_workers :: nat
  db_series :: "(string \<times> series) list"
  db_sqlite :: 'db
  db_world :: world

section \<open>Construction\<close>

text \<open>
  \<open>std::thread\<close>'s constructor throws a \<open>system_error\<close> where the system starts no more threads;
  each worker is started and waited for before the next.
\<close>

definition start_thread :: "nat \<Rightarrow> nat res" where
  "start_thread threads = (if threads = 0 then Inl SystemError else Inr (threads - 1))"

primrec start_workers :: "nat \<Rightarrow> nat \<Rightarrow> nat res" where
  "start_workers 0 threads = Inr threads"
| "start_workers (Suc num_workers) threads = bindE (start_thread threads) (start_workers num_workers)"

text \<open>The constructor: \<open>index\<close> opens the search engine, the last thread started is the flusher's.\<close>

definition Database ::
  "db_params \<Rightarrow> (string \<Rightarrow> (string set, 'db) prog) \<Rightarrow> string \<Rightarrow> 'db \<Rightarrow> world \<Rightarrow> 'db database res" where
  "Database ps index dir db s =
     (if dir = '''' then Inl (InvalidArgument ''No data directory specified'')
      else
        let root_dir = (if last dir \<noteq> CHR ''/'' then dir @ ''/'' else dir) in
        (case create_directory root_dir s of
          (Inl e, _) \<Rightarrow> Inl e
        | (Inr _, s1) \<Rightarrow>
            (case index root_dir db of
              (Inl e, _) \<Rightarrow> Inl e
            | (Inr _, db1) \<Rightarrow>
                let num_workers = nat (max (dp_db_worker_threads ps) 1) in
                (case bindE (start_workers num_workers (dp_threads ps)) start_thread of
                  Inl e \<Rightarrow> Inl e
                | Inr _ \<Rightarrow>
                    Inr \<lparr>db_root_dir = root_dir, db_num_workers = num_workers,
                         db_series = [], db_sqlite = db1, db_world = s1\<rparr>))))"

text \<open>The threads it needs: the workers and the flusher.\<close>

definition threads_ok :: "db_params \<Rightarrow> bool" where
  "threads_ok ps \<longleftrightarrow> nat (max (dp_db_worker_threads ps) 1) < dp_threads ps"

lemma start_workers_enough:
  "start_workers n threads = (if n \<le> threads then Inr (threads - n) else Inl SystemError)"
  by (induction n arbitrary: threads) (auto simp: start_thread_def)

lemma start_threads:
  "bindE (start_workers (nat (max (dp_db_worker_threads ps) 1)) (dp_threads ps)) start_thread =
     (if threads_ok ps then Inr (dp_threads ps - nat (max (dp_db_worker_threads ps) 1) - 1) else Inl SystemError)"
  by (auto simp: start_workers_enough start_thread_def threads_ok_def)

section \<open>Series by key\<close>

text \<open>The labels in the order of a \<open>std::map\<close>.\<close>

definition series_key :: "(string \<times> string) list \<Rightarrow> string" where
  "series_key labels = concat (map (\<lambda>l. fst l @ ''='' @ snd l @ '';'') (sort_key fst labels))"

definition get_series :: "db_params \<Rightarrow> (string \<times> string) list \<Rightarrow> (string, 'db database) prog" where
  "get_series ps labels st =
     (let key = series_key labels in
      if key = '''' then (Inl (InvalidSeriesProto ''At least one label is required''), st)
      else (case map_of (db_series st) key of
        Some _ \<Rightarrow> (Inr key, st)
      | None \<Rightarrow> (case Series (dp_empty_buffer ps) (dp_hash ps) (db_root_dir st) labels key of
          Inl e \<Rightarrow> (Inl e, st)
        | Inr sr \<Rightarrow> (Inr key, st\<lparr>db_series := AList.update key sr (db_series st)\<rparr>))))"

definition get_worker :: "'db database \<Rightarrow> series \<Rightarrow> nat res" where
  "get_worker st sr =
     (if db_num_workers st = 0 then Inl DivTrap else Inr (sr_keyint sr mod db_num_workers st))"

section \<open>Writing\<close>

definition db_write ::
  "db_params \<Rightarrow> 'db sqlite \<Rightarrow> (string \<times> string) list \<Rightarrow> datapoint list \<Rightarrow> (unit, 'db database) prog" where
  "db_write ps sq labels op st =
     (case get_series ps labels st of
       (Inl e, st1) \<Rightarrow> (Inl e, st1)
     | (Inr key, st1) \<Rightarrow>
         let sr = the (map_of (db_series st1) key) in
         (case get_worker st1 sr of
           Inl e \<Rightarrow> (Inl e, st1)
         | Inr _ \<Rightarrow>
             if worker_busy (db_world st1) then (Inl WorkerThreadTooBusy, st1)
             else
               let sr1 = snd (series_write op sr);
                   st2 = st1\<lparr>db_series := AList.update key sr1 (db_series st1)\<rparr>
               in if sr_is_indexed sr1 then (Inr (), st2)
                  else (case index_series sq (dp_serialize ps) (sr_labels sr1) (sr_keystr sr1) (db_sqlite st2) of
                      (Inr _, db) \<Rightarrow> (Inr (), st2\<lparr>db_sqlite := db,
                          db_series := AList.update key (sr1\<lparr>sr_is_indexed := True\<rparr>) (db_series st2)\<rparr>)
                    | (Inl (SqliteErr _), db) \<Rightarrow> (Inr (), st2\<lparr>db_sqlite := db\<rparr>)
                    | (Inl e, db) \<Rightarrow> (Inl e, st2\<lparr>db_sqlite := db\<rparr>))))"

section \<open>Reading\<close>

text \<open>
  The loop of \<open>Read\<close>; \<open>read\<close> is one \<open>Series::Read\<close> on the state \<open>x\<close> of the
  series, whose exceptions are lost, \<open>callback\<close> gets the datapoints of the round.
\<close>

partial_function (option) db_read_loop ::
  "('x \<Rightarrow> read_op \<Rightarrow> ((unit res \<times> 'x) \<times> read_op) option) \<Rightarrow> bool \<Rightarrow> (datapoint list \<Rightarrow> (unit, 's) prog) \<Rightarrow>
     'x \<Rightarrow> read_op \<Rightarrow> 's \<Rightarrow> ((unit res \<times> 'x) \<times> 's) option" where
  "db_read_loop read busy callback x r s =
     (if ro_complete r then Some ((Inr (), x), s)
      else if busy then Some ((Inl WorkerThreadTooBusy, x), s)
      else (case read x r of
        None \<Rightarrow> None
      | Some ((_, x1), r1) \<Rightarrow>
          if ro_datapoints_in_buffer r1 = 0 then Some ((Inr (), x1), s)
          else (case callback (ro_contents r1) s of
            (Inl e, s1) \<Rightarrow> Some ((Inl e, x1), s1)
          | (Inr _, s1) \<Rightarrow> db_read_loop read busy callback x1 (ro_clear_buffer r1) s1)))"

definition db_read ::
  "db_params \<Rightarrow> (string \<times> string) list \<Rightarrow> int \<Rightarrow> int \<Rightarrow> int \<Rightarrow> bool \<Rightarrow> datapoint \<Rightarrow>
     (datapoint list \<Rightarrow> (unit, 's) prog) \<Rightarrow> 'db database \<times> 's \<Rightarrow> (unit res \<times> ('db database \<times> 's)) option" where
  "db_read ps labels start_time end_time datapoint_limit prefer_latest junk callback st =
     (case get_series ps labels (fst st) of
       (Inl e, st1) \<Rightarrow> Some (Inl e, (st1, snd st))
     | (Inr key, st1) \<Rightarrow>
         let sr = the (map_of (db_series st1) key);
             r = ReadOperation start_time end_time datapoint_limit prefer_latest
                   (replicate (read_buffer_size (dp_config ps)) junk) (read_buffer_size (dp_config ps))
         in (case get_worker st1 sr of
           Inl e \<Rightarrow> Some (Inl e, (st1, snd st))
         | Inr _ \<Rightarrow>
             (case db_read_loop (series_read (dp_config ps) (db_world st1)) (worker_busy (db_world st1)) callback sr r (snd st) of
               None \<Rightarrow> None
             | Some ((res, sr1), s1) \<Rightarrow>
                 Some (res, (st1\<lparr>db_series := AList.update key sr1 (db_series st1)\<rparr>, s1)))))"

section \<open>Flushing\<close>

text \<open>
  One round of the flusher thread: \<open>resort_at k\<close> tells whether the clock has passed the
  deadline after \<open>k\<close> flushes, which is asked after every fiftieth.  The result counts the
  flushes; an exception leaves the thread, and with it the process.
\<close>

primrec flush_round ::
  "config \<Rightarrow> (nat \<Rightarrow> bool) \<Rightarrow> string list \<Rightarrow> nat \<Rightarrow> (string \<times> series) list \<times> world \<Rightarrow>
     (nat res \<times> ((string \<times> series) list \<times> world)) option" where
  "flush_round cfg resort_at [] flushed st = Some (Inr flushed, st)"
| "flush_round cfg resort_at (key # keys) flushed st =
     (let sr = the (map_of (fst st) key) in
      if series_datapoints_buffered sr = 0 then flush_round cfg resort_at keys flushed st
      else (case flush_buffered_datapoints cfg sr (snd st) of
          None \<Rightarrow> None
        | Some ((Inl e, sr'), s') \<Rightarrow> Some (Inl e, (AList.update key sr' (fst st), s'))
        | Some ((Inr _, sr'), s') \<Rightarrow>
            let st' = (AList.update key sr' (fst st), s') in
            if (flushed + 1) mod 50 = 0 \<and> resort_at (flushed + 1) then Some (Inr (flushed + 1), st')
            else flush_round cfg resort_at keys (flushed + 1) st'))"

text \<open>The largest buffers first.\<close>

definition flush_order :: "(string \<times> series) list \<Rightarrow> string list" where
  "flush_order all_series = map fst (sort_key (\<lambda>s. - int (series_datapoints_buffered (snd s))) all_series)"

definition flush_write_buffers :: "config \<Rightarrow> (nat \<Rightarrow> bool) \<Rightarrow> 'db database \<Rightarrow> (nat res \<times> 'db database) option" where
  "flush_write_buffers cfg resort_at st =
     (case flush_round cfg resort_at (flush_order (db_series st)) 0 (db_series st, db_world st) of
       None \<Rightarrow> None
     | Some (res, (series, s)) \<Rightarrow> Some (res, st\<lparr>db_series := series, db_world := s\<rparr>))"

text \<open>
  The loop of the thread.  \<open>clock\<close> is what \<open>TimeInMillis\<close> answers, reading after reading;
  \<open>fl_sleeps\<close> counts the pauses of five seconds after a pass with nothing to flush.  A pass
  that was cut short has moved the deadline by one interval.
\<close>

record flusher =
  fl_readings :: nat
  fl_deadline :: int
  fl_sleeps :: nat

definition start_flusher :: "(nat \<Rightarrow> int) \<Rightarrow> int \<Rightarrow> flusher" where
  "start_flusher clock interval = \<lparr>fl_readings = 1, fl_deadline = wrap64 (clock 0 + interval), fl_sleeps = 0\<rparr>"

definition past_deadline :: "(nat \<Rightarrow> int) \<Rightarrow> flusher \<Rightarrow> nat \<Rightarrow> bool" where
  "past_deadline clock fl flushed \<longleftrightarrow> fl_deadline fl \<le> clock (fl_readings fl + flushed div 50)"

definition flusher_pass ::
  "config \<Rightarrow> (nat \<Rightarrow> int) \<Rightarrow> int \<Rightarrow> flusher \<times> 'db database \<Rightarrow> (nat res \<times> (flusher \<times> 'db database)) option" where
  "flusher_pass cfg clock interval x =
     (case flush_write_buffers cfg (past_deadline clock (fst x)) (snd x) of
       None \<Rightarrow> None
     | Some (Inl e, st') \<Rightarrow> Some (Inl e, (fst x, st'))
     | Some (Inr flushed, st') \<Rightarrow>
         let fl = fst x;
             cut_short = flushed \<noteq> 0 \<and> flushed mod 50 = 0 \<and> past_deadline clock fl flushed
         in Some (Inr flushed,
              (fl\<lparr>fl_readings := fl_readings fl + 1 + flushed div 50 + (if flushed \<noteq> 0 then 1 else 0),
                  fl_deadline := (if cut_short then wrap64 (fl_deadline fl + interval) else fl_deadline fl),
                  fl_sleeps := (if flushed \<noteq> 0 then fl_sleeps fl else fl_sleeps fl + 1)\<rparr>, st')))"

primrec flusher_passes ::
  "config \<Rightarrow> (nat \<Rightarrow> int) \<Rightarrow> int \<Rightarrow> nat \<Rightarrow> flusher \<times> 'db database \<Rightarrow> (unit res \<times> (flusher \<times> 'db database)) option" where
  "flusher_passes cfg clock interval 0 x = Some (Inr (), x)"
| "flusher_passes cfg clock interval (Suc n) x =
     (case flusher_pass cfg clock interval x of
       None \<Rightarrow> None
     | Some (Inl e, x') \<Rightarrow> Some (Inl e, x')
     | Some (Inr _, x') \<Rightarrow> flusher_passes cfg clock interval n x')"

section \<open>Keys\<close>

definition label_text :: "string \<times> string \<Rightarrow> string" where
  "label_text l = fst l @ ''='' @ snd l @ '';''"

definition plain_label :: "string \<times> string \<Rightarrow> bool" where
  "plain_label l \<longleftrightarrow> CHR ''='' \<notin> set (fst l) \<and> CHR '';'' \<notin> set (snd l)"

lemma split_at_first:
  assumes "x \<notin> set a" and "x \<notin> set b" and "a @ x # r = b @ x # t"
  shows "a = b \<and> r = t"
proof -
  have "takeWhile (\<lambda>c. c \<noteq> x) (a @ x # r) = a" "takeWhile (\<lambda>c. c \<noteq> x) (b @ x # t) = b"
    using assms(1,2) by (simp_all add: takeWhile_tail) (metis takeWhile_append2 append_Nil2 takeWhile.simps(1))+
  with assms(3) show ?thesis by auto
qed

lemma label_texts_inj:
  "list_all plain_label ls \<Longrightarrow> list_all plain_label ms \<Longrightarrow>
     concat (map label_text ls) = concat (map label_text ms) \<Longrightarrow> ls = ms"
proof (induction ls arbitrary: ms)
  case Nil
  then show ?case by (cases ms) (simp_all add: label_text_def)
next
  case (Cons l ls)
  then obtain m ms' where ms: "ms = m # ms'" by (cases ms) (auto simp: label_text_def)
  have eq: "fst l @ CHR ''='' # (snd l @ CHR '';'' # concat (map label_text ls)) =
      fst m @ CHR ''='' # (snd m @ CHR '';'' # concat (map label_text ms'))"
    using Cons.prems(3) ms by (simp add: label_text_def [of l] label_text_def [of m])
  from split_at_first [OF _ _ eq] Cons.prems(1,2) ms have name: "fst l = fst m"
    and rest: "snd l @ CHR '';'' # concat (map label_text ls) = snd m @ CHR '';'' # concat (map label_text ms')"
    by (simp_all add: plain_label_def)
  from split_at_first [OF _ _ rest] Cons.prems(1,2) ms have "snd l = snd m"
    "concat (map label_text ls) = concat (map label_text ms')"
    by (simp_all add: plain_label_def)
  with name Cons.IH [of ms'] Cons.prems(1,2) ms show ?case by (simp add: prod_eq_iff)
qed

lemma series_key_texts: "series_key labels = concat (map label_text (sort_key fst labels))"
  unfolding series_key_def label_text_def ..

lemma series_key_nonempty: "labels \<noteq> [] \<Longrightarrow> series_key labels \<noteq> []"
proof -
  assume "labels \<noteq> []"
  then have "sort_key fst labels \<noteq> []" by (metis length_0_conv length_sort)
  then show ?thesis by (cases "sort_key fst labels") (simp_all add: series_key_def)
qed

text \<open>
  Claim C29. Two sets of labels share a key exactly if they are equal, provided no label name
  contains an equals sign and no value a semicolon.
\<close>

theorem series_key_identifies_labels:
  assumes "list_all plain_label ls" and "list_all plain_label ms"
  shows "series_key ls = series_key ms \<longleftrightarrow> sort_key fst ls = sort_key fst ms"
proof
  assume "series_key ls = series_key ms"
  then show "sort_key fst ls = sort_key fst ms"
    using label_texts_inj [of "sort_key fst ls" "sort_key fst ms"] assms
    by (simp add: series_key_texts list_all_iff)
qed (simp add: series_key_def)

theorem series_key_identifies_labels_witness:
  "series_key [(''host'', ''a''), (''app'', ''x'')] = series_key [(''app'', ''x''), (''host'', ''a'')] \<and>
   series_key [(''host'', ''a'')] \<noteq> series_key [(''host'', ''b'')]"
proof -
  have plain: "list_all plain_label [(''host'', ''a''), (''app'', ''x'')]" "list_all plain_label [(''app'', ''x''), (''host'', ''a'')]"
    "list_all plain_label [(''host'', ''a'')]" "list_all plain_label [(''host'', ''b'')]" by code_simp+
  have "sort_key fst [(''host'', ''a''), (''app'', ''x'')] = sort_key fst [(''app'', ''x''), (''host'', ''a'')]" by code_simp
  with series_key_identifies_labels [OF plain(1,2)] series_key_identifies_labels [OF plain(3,4)]
  show ?thesis by simp
qed

text \<open>
  With a semicolon in a value that fails: a series with one label and a series with
  two get the same key, so the database takes them for one series.
\<close>

theorem series_keys_collide:
  assumes "n < m" and "key = series_key [(n, v @ '';'' @ m @ ''='' @ w)]"
    and "map_of (db_series st) key = Some sr"
  shows "get_series ps [(n, v), (m, w)] st = (Inr key, st) \<and> [(n, v @ '';'' @ m @ ''='' @ w)] \<noteq> [(n, v), (m, w)]"
proof -
  have "series_key [(n, v), (m, w)] = key" "key \<noteq> ''''"
    using assms(1,2) by (simp_all add: series_key_def less_imp_le)
  with assms(3) show ?thesis by (simp add: get_series_def)
qed

definition demo_database :: "(string \<times> series) list \<Rightarrow> unit database" where
  "demo_database all_series = \<lparr>db_root_dir = ''d/'', db_num_workers = 64, db_series = all_series, db_sqlite = (),
     db_world = demo_world []\<rparr>"

definition demo_params :: db_params where
  "demo_params = \<lparr>dp_config = demo_config, dp_hash = (\<lambda>key. 0), dp_serialize = (\<lambda>labels. Some []),
     dp_empty_buffer = WriteBuffer 4096 1 (Datapoint 0 0 0) [], dp_db_worker_threads = 64, dp_threads = 100\<rparr>"

theorem series_keys_collide_witness:
  "get_series demo_params [(''app'', ''x''), (''host'', ''a'')]
      (demo_database [(''app=x;host=a;'', demo_series [] True)]) =
    (Inr ''app=x;host=a;'', demo_database [(''app=x;host=a;'', demo_series [] True)]) \<and>
   series_key [(''app'', ''x;host=a'')] = ''app=x;host=a;''"
proof -
  have lt: "''app'' < ''host''" by code_simp
  have key: "''app=x;host=a;'' = series_key [(''app'', ''x'' @ '';'' @ ''host'' @ ''='' @ ''a'')]"
    by (simp add: series_key_def)
  have "map_of (db_series (demo_database [(''app=x;host=a;'', demo_series [] True)])) ''app=x;host=a;'' = Some (demo_series [] True)"
    by (simp add: demo_database_def)
  from series_keys_collide [OF lt key this, of demo_params] key show ?thesis by simp
qed

end
