(* ===== verification/ChunkedRead.thy ===== *)
theory ChunkedRead
  imports Database
begin

text \<open>
  A read in chunks: the loop of \<open>Database::Read\<close> over any reader that hands out the
  datapoints of a range in order, a buffer at a time.  A series whose datapoints are all in the
  write buffer is such a reader, and so is one whose datapoints are all in one sparse file.
\<close>

section \<open>The interface\<close>

definition in_range :: "int \<Rightarrow> int \<Rightarrow> datapoint list \<Rightarrow> datapoint list" where
  "in_range lo hi = filter (\<lambda>p. lo \<le> dp_timestamp p \<and> dp_timestamp p < hi)"

lemma filter_split:
  "filter P xs = qs @ p # rest \<Longrightarrow>
     \<exists>us vs. xs = us @ p # vs \<and> filter P us = qs \<and> filter P vs = rest \<and> P p"
proof (induction xs arbitrary: qs)
  case (Cons x xs)
  show ?case
  proof (cases "P x \<and> qs = []")
    case True
    with Cons.prems show ?thesis by (intro exI [of _ "[]"] exI [of _ xs]) auto
  next
    case False
    then obtain qs' where qs: "filter P xs = qs' @ p # rest" "qs = (if P x then x # qs' else qs')"
      using Cons.prems by (cases qs) (auto split: if_splits)
    from Cons.IH [OF qs(1)] obtain us vs where "xs = us @ p # vs" "filter P us = qs'" "filter P vs = rest" "P p" by blast
    with qs(2) show ?thesis by (intro exI [of _ "x # us"] exI [of _ vs]) auto
  qed
qed simp

locale chunk_reader =
  fixes inv :: "'x \<Rightarrow> bool"
    and read :: "'x \<Rightarrow> read_op \<Rightarrow> ((unit res \<times> 'x) \<times> read_op) option"
    and all_points :: "'x \<Rightarrow> datapoint list"
  assumes increasing: "inv x \<Longrightarrow> sorted_wrt (<) (map dp_timestamp (all_points x))"
    and apart: "inv x \<Longrightarrow> disjoint_points (all_points x)"
    and lasting: "inv x \<Longrightarrow> list_all (\<lambda>p. 0 \<le> dp_duration p) (all_points x)"
    and read_chunk: "inv x \<Longrightarrow> ro_ok r \<Longrightarrow> ro_cursor r = 0 \<Longrightarrow> 0 < ro_buffer_size r \<Longrightarrow>
      \<exists>r'. read x r = Some ((Inr (), x), r') \<and> ro_ok r' \<and> same_request r r' \<and>
        ro_contents r' = take (ro_buffer_size r) (in_range (ro_next_time r) (ro_end_time r) (all_points x)) \<and>
        ro_next_time r' = (if ro_space_left r' \<noteq> 0 then ro_end_time r else dp_next (last (ro_contents r')))"
begin

text \<open>After a datapoint of the range, the rest of the range is what starts at its end or later.\<close>

lemma in_range_rest:
  assumes "inv x" and "in_range lo hi (all_points x) = qs @ p # rest"
  shows "in_range (dp_next p) hi (all_points x) = rest"
proof -
  from filter_split [OF assms(2) [unfolded in_range_def]] obtain us vs where
    all: "all_points x = us @ p # vs" and vs: "filter (\<lambda>q. lo \<le> dp_timestamp q \<and> dp_timestamp q < hi) vs = rest"
    and p: "lo \<le> dp_timestamp p" by blast
  have "0 \<le> dp_duration p" using lasting [OF assms(1)] all by simp
  then have after: "dp_timestamp p < dp_next p" by (simp add: dp_next_def)
  have "\<forall>q \<in> set us. dp_timestamp q < dp_timestamp p" "\<forall>q \<in> set vs. dp_timestamp p < dp_timestamp q"
    using increasing [OF assms(1)] all by (auto simp: sorted_wrt_append)
  moreover have "dp_next p \<le> dp_timestamp q" if "q \<in> set vs" "dp_timestamp p < dp_timestamp q" for q
    using apart [OF assms(1)] all that by (auto simp: disjoint_points_def list_all_iff)
  ultimately have "in_range (dp_next p) hi us = []" "in_range (dp_next p) hi vs = rest"
    using after p by (fastforce simp: in_range_def filter_empty_conv vs [symmetric] intro!: filter_cong)+
  with after all show ?thesis by (simp add: in_range_def)
qed

text \<open>
  The loop hands the datapoints of the range to the callback, in order and completely; the
  callback may be any that only adds to what it keeps.
\<close>

lemma read_loop_complete:
  assumes "inv x" and keep: "\<And>c seen. keep c seen = (Inr (), seen @ [form c])"
    and "ro_ok r" and "ro_cursor r = 0" and "0 < ro_buffer_size r"
  shows "\<exists>chunks. db_read_loop read False keep x r seen = Some ((Inr (), x), seen @ map form chunks) \<and>
    concat chunks = in_range (ro_next_time r) (ro_end_time r) (all_points x) \<and>
    list_all (\<lambda>c. c \<noteq> [] \<and> length c \<le> ro_buffer_size r) chunks"
  using assms(3-)
proof (induction "length (in_range (ro_next_time r) (ro_end_time r) (all_points x))" arbitrary: r seen rule: less_induct)
  case less
  let ?rng = "in_range (ro_next_time r) (ro_end_time r) (all_points x)" and ?n = "ro_buffer_size r"
  show ?case
  proof (cases "ro_complete r")
    case True
    then have "?rng = []" by (auto simp: ro_complete_def in_range_def filter_empty_conv)
    with True show ?thesis by (intro exI [of _ "[]"]) (simp add: db_read_loop.simps)
  next
    case False
    obtain r1 where r1: "read x r = Some ((Inr (), x), r1)" "ro_ok r1" "same_request r r1"
      "ro_contents r1 = take ?n ?rng"
      "ro_next_time r1 = (if ro_space_left r1 \<noteq> 0 then ro_end_time r else dp_next (last (ro_contents r1)))"
      using read_chunk [OF assms(1) less.prems] by blast
    have len: "ro_datapoints_in_buffer r1 = length (take ?n ?rng)"
      using length_ro_contents [OF r1(2)] r1(4) by simp
    have size: "ro_buffer_size r1 = ?n" "ro_end_time r1 = ro_end_time r" using r1(3) by (simp_all add: same_request_def)
    show ?thesis
    proof (cases "?rng = []")
      case True
      with False r1(1) len show ?thesis
        by (intro exI [of _ "[]"]) (subst db_read_loop.simps, simp)
    next
      case ne: False
      let ?r2 = "ro_clear_buffer r1" and ?c = "take ?n ?rng"
      have c: "?c \<noteq> []" using ne less.prems(3) by (cases ?rng) auto
      have step: "db_read_loop read False keep x r seen = db_read_loop read False keep x ?r2 (seen @ [form ?c])"
      proof -
        have "ro_datapoints_in_buffer r1 \<noteq> 0" unfolding len length_0_conv by (rule c)
        with False r1(1,4) show ?thesis by (subst db_read_loop.simps) (simp add: keep)
      qed
      have r2: "ro_ok ?r2" "ro_cursor ?r2 = 0" "0 < ro_buffer_size ?r2" "ro_buffer_size ?r2 = ?n"
        using r1(2) size less.prems(3) by (simp_all add: ro_clear_buffer_def ro_ok_def)
      show ?thesis
      proof (cases "ro_space_left r1 = 0")
        case False
        then have "ro_complete ?r2" using r1(5) size by (simp add: ro_complete_def ro_clear_buffer_def)
        moreover have "?c = ?rng"
          using False r1(2) len size by (simp add: ro_ok_def ro_datapoints_in_buffer_def)
        ultimately show ?thesis using step c
          by (intro exI [of _ "[?c]"]) (simp add: db_read_loop.simps [of _ _ _ _ ?r2])
      next
        case True
        then have full: "length ?c = ?n" using r1(2) len size by (simp add: ro_ok_def ro_datapoints_in_buffer_def)
        obtain qs p where qs: "?c = qs @ [p]" using c by (cases ?c rule: rev_cases) auto
        have split: "?rng = qs @ p # drop ?n ?rng" using qs append_take_drop_id [of ?n ?rng] by simp
        have next2: "ro_next_time ?r2 = dp_next p" "ro_end_time ?r2 = ro_end_time r"
          using r1(4,5) True qs size by (simp_all add: ro_clear_buffer_def)
        have rest: "in_range (ro_next_time ?r2) (ro_end_time ?r2) (all_points x) = drop ?n ?rng"
          using in_range_rest [OF assms(1) split] next2 by simp
        have "length (drop ?n ?rng) < length ?rng" using ne less.prems(3) by simp
        with less.hyps [of ?r2 "seen @ [form ?c]"] rest r2 obtain chunks where
          "db_read_loop read False keep x ?r2 (seen @ [form ?c]) = Some ((Inr (), x), (seen @ [form ?c]) @ map form chunks)"
          "concat chunks = drop ?n ?rng" "list_all (\<lambda>c. c \<noteq> [] \<and> length c \<le> ?n) chunks" by auto
        with step c show ?thesis by (intro exI [of _ "?c # chunks"]) simp
      qed
    qed
  qed
qed

end
section \<open>Progress of a read\<close>

text \<open>What a read appended, and that it stands at the end of the last datapoint it appended.\<close>

definition tracks :: "read_op \<Rightarrow> read_op \<Rightarrow> bool" where
  "tracks r r' \<longleftrightarrow> same_request r r' \<and> (\<exists>qs. ro_contents r' = ro_contents r @ qs \<and>
     ro_next_time r' = (if qs = [] then ro_next_time r else wrap64 (dp_next (last qs))))"

lemma tracks_refl: "tracks r r"
  by (simp add: tracks_def)

lemma tracks_append:
  assumes "appendM p r = (Inr (), r1)" and "tracks r1 r'"
  shows "tracks r r'"
proof -
  from assms(1) have "ro_append p r = Inr r1" by (auto simp: appendM_def split: sum.splits)
  note r1 = ro_append_contents [OF this]
  from assms(2) obtain qs where "same_request r1 r'" "ro_contents r' = ro_contents r1 @ qs"
    "ro_next_time r' = (if qs = [] then ro_next_time r1 else wrap64 (dp_next (last qs)))" unfolding tracks_def by blast
  with r1 show ?thesis unfolding tracks_def
    by (intro conjI same_request_trans [OF r1(3)] exI [of _ "p # qs"]) auto
qed

lemma appendM_Inl: "appendM p r = (Inl e, r') \<Longrightarrow> r' = r"
  by (auto simp: appendM_def split: sum.splits)

lemma merge_points_tracks: "merge_points ps r = (q, r') \<Longrightarrow> tracks r r'"
proof (induction ps arbitrary: r)
  case (Cons p ps)
  then show ?case
    by (cases "appendM p r")
      (auto simp: tracks_refl split: if_splits sum.splits dest: appendM_Inl intro: tracks_append)
qed (simp add: tracks_refl)

lemma sparse_copy_tracks: "sparse_copy ps r = (q, r') \<Longrightarrow> tracks r r'"
proof (induction ps r rule: sparse_copy.induct)
  case (2 p ps r)
  let ?x = "pick_latest p (takeWhile (\<lambda>q. dp_timestamp q = dp_timestamp p) ps)"
  obtain q1 r1 where x: "appendM ?x r = (q1, r1)" by (rule prod.exhaust)
  show ?case
  proof (cases "ro_next_time r \<le> dp_timestamp p \<and> dp_timestamp p < ro_end_time r \<and> ro_space_left r \<noteq> 0 \<and> \<not> ro_complete r")
    case True
    show ?thesis
    proof (cases q1)
      case (Inl e)
      with True x "2.prems" show ?thesis by (auto simp: Let_def tracks_refl dest: appendM_Inl)
    next
      case (Inr u)
      with True x "2.prems" have "sparse_copy (dropWhile (\<lambda>q. dp_timestamp q = dp_timestamp p) ps) r1 = (q, r')" by simp
      from "2.IH" [OF True refl refl x [symmetric] Inr this] x Inr show ?thesis by (auto intro: tracks_append)
    qed
  next
    case False
    with "2.prems" show ?thesis by (auto simp: tracks_refl)
  qed
qed (simp add: tracks_refl)

lemma sparse_read_tracks: "sparse_read cfg dir f s r = (q, r') \<Longrightarrow> tracks r r'"
  by (auto simp: sparse_read_def Let_def tracks_refl split: sum.splits if_splits dest: sparse_copy_tracks)

lemma dir_read_one_tracks:
  assumes "dir_filenames_read d" and "dir_files d = [Sparse f]" and "dir_read cfg s d r = Some ((q, d'), r')"
  shows "tracks r r'"
proof -
  have "tracks r (snd (dir_read_loop cfg (dir_path d) s [Sparse f] r))"
    by (cases "sparse_read cfg (dir_path d) f s r")
      (auto simp: tracks_refl af_read_def split: sum.splits dest: sparse_read_tracks)
  moreover have "find_first_potential_file [Sparse f] t = Some 0" for t
    by (simp add: find_first_potential_file_def find_loop.simps)
  ultimately show ?thesis using assms by (auto simp: dir_read_def split: prod.splits)
qed

section \<open>One datapoint per timestamp\<close>

definition per_timestamp :: "(datapoint list \<Rightarrow> datapoint) \<Rightarrow> datapoint list \<Rightarrow> datapoint list" where
  "per_timestamp pick pts =
     map (\<lambda>t. pick (filter (\<lambda>p. dp_timestamp p = t) pts)) (sorted_list_of_set (dp_timestamp ` set pts))"

lemma filter_sorted_list_of_set:
  "finite A \<Longrightarrow> filter P (sorted_list_of_set A) = sorted_list_of_set {x \<in> A. P x}"
  by (rule sorted_distinct_set_unique) (auto simp: sorted_filter [where f = "\<lambda>x. x", simplified])

locale timestamp_choice =
  fixes pick :: "datapoint list \<Rightarrow> datapoint"
  assumes pick_in: "ps \<noteq> [] \<Longrightarrow> pick ps \<in> set ps"
begin

lemma pick_chosen:
  assumes "t \<in> dp_timestamp ` set pts"
  shows "pick (filter (\<lambda>p. dp_timestamp p = t) pts) \<in> set pts"
    and "dp_timestamp (pick (filter (\<lambda>p. dp_timestamp p = t) pts)) = t"
  using assms pick_in [of "filter (\<lambda>p. dp_timestamp p = t) pts"] by (auto simp: filter_empty_conv)

lemma timestamps_chosen: "map dp_timestamp (per_timestamp pick pts) = sorted_list_of_set (dp_timestamp ` set pts)"
  by (auto simp: per_timestamp_def pick_chosen(2) intro!: map_idI)

lemma chosen_increasing: "sorted_wrt (<) (map dp_timestamp (per_timestamp pick pts))"
  by (simp add: timestamps_chosen strict_sorted_list_of_set)

lemma chosen_subset: "set (per_timestamp pick pts) \<subseteq> set pts"
  by (auto simp: per_timestamp_def pick_chosen(1))

lemma chosen_in_range:
  "in_range lo hi (per_timestamp pick pts) =
     map (\<lambda>t. pick (filter (\<lambda>p. dp_timestamp p = t) pts))
       (sorted_list_of_set (dp_timestamp ` set (filter (\<lambda>p. lo \<le> dp_timestamp p \<and> dp_timestamp p < hi) pts)))"
proof -
  let ?T = "dp_timestamp ` set pts"
  have "in_range lo hi (per_timestamp pick pts) = map (\<lambda>t. pick (filter (\<lambda>p. dp_timestamp p = t) pts))
      (filter (\<lambda>t. lo \<le> t \<and> t < hi) (sorted_list_of_set ?T))"
    by (auto simp: in_range_def per_timestamp_def filter_map o_def pick_chosen(2)
        intro!: arg_cong [where f = "map _"] filter_cong)
  moreover have "{t \<in> ?T. lo \<le> t \<and> t < hi} =
      dp_timestamp ` set (filter (\<lambda>p. lo \<le> dp_timestamp p \<and> dp_timestamp p < hi) pts)" by auto
  ultimately show ?thesis by (simp add: filter_sorted_list_of_set)
qed

end

interpretation first_of: timestamp_choice hd
  by unfold_locales simp

interpretation last_of: timestamp_choice last
  by unfold_locales simp

lemma oldest_per_timestamp: "oldest_in_range lo hi pts = in_range lo hi (per_timestamp hd pts)"
  unfolding first_of.chosen_in_range oldest_in_range_def ..

lemma newest_per_timestamp: "newest_in_range lo hi pts = in_range lo hi (per_timestamp last pts)"
  unfolding last_of.chosen_in_range newest_in_range_def ..
section \<open>Series as readers\<close>

lemma tracks_next:
  assumes "tracks r r'" and "ro_cursor r = 0" and "ro_contents r' = qs" and "qs \<noteq> []" and "i64_ok (dp_next (last qs))"
  shows "ro_next_time r' = dp_next (last qs)"
  using assms by (auto simp: tracks_def ro_contents_def [of r] wrap64_id)

lemma chunk_filled:
  assumes "ro_ok r'" and "same_request r r'" and "ro_contents r' = take (ro_buffer_size r) xs" and "0 < ro_buffer_size r"
    and "ro_space_left r' = 0"
  shows "ro_contents r' \<noteq> []"
proof -
  have "length (ro_contents r') = ro_buffer_size r"
    using assms length_ro_contents [OF assms(1)] by (simp add: ro_ok_def ro_datapoints_in_buffer_def same_request_def)
  with assms(4) show ?thesis by auto
qed

text \<open>All datapoints in an ordered write buffer, none on disk.\<close>

definition only_buffered :: "series \<Rightarrow> bool" where
  "only_buffered sr \<longleftrightarrow> dir_filenames_read (sr_dir sr) \<and> dir_files (sr_dir sr) = [] \<and>
     wb_ok (sr_buffer sr) \<and> wb_is_sorted (sr_buffer sr) \<and>
     sorted (map dp_timestamp (wb_points (sr_buffer sr))) \<and> disjoint_points (wb_points (sr_buffer sr)) \<and>
     list_all (\<lambda>p. 0 \<le> dp_duration p) (wb_points (sr_buffer sr))"

lemma series_read_buffered:
  assumes "only_buffered sr" and "ro_ok r" and "ro_cursor r = 0" and "0 < ro_buffer_size r"
    and "pts = per_timestamp hd (wb_points (sr_buffer sr))"
  shows "\<exists>r'. series_read cfg s sr r = Some ((Inr (), sr), r') \<and> ro_ok r' \<and> same_request r r' \<and>
    ro_contents r' = take (ro_buffer_size r) (in_range (ro_next_time r) (ro_end_time r) pts) \<and>
    ro_next_time r' = (if ro_space_left r' \<noteq> 0 then ro_end_time r else dp_next (last (ro_contents r')))"
proof -
  let ?b = "sr_buffer sr" and ?ps = "wb_points (sr_buffer sr)"
  let ?rng = "in_range (ro_next_time r) (ro_end_time r) pts"
  have inv: "wb_ok ?b" "wb_is_sorted ?b" "sorted (map dp_timestamp ?ps)" "disjoint_points ?ps"
    "list_all (\<lambda>p. 0 \<le> dp_duration p) ?ps" using assms(1) by (simp_all add: only_buffered_def)
  obtain r1 where r1: "merge_points ?ps r = (Inr (), r1)" "ro_ok r1" "same_request r r1"
    "ro_contents r1 = ro_contents r @ take (ro_space_left r)
      (oldest_points (filter (\<lambda>p. ro_next_time r \<le> dp_timestamp p \<and> dp_timestamp p < ro_end_time r) ?ps))"
    using merge_points_oldest [OF assms(2) inv(3-5)] by blast
  have contents: "ro_contents r1 = take (ro_buffer_size r) ?rng"
    using r1(4) oldest_points_in_range [OF inv(3)] oldest_per_timestamp assms(2,3,5) by (simp add: ro_contents_def)
  have "series_merge (wb_size ?b) (wb_value_at ?b) 0 r = merge_points ?ps r"
    using w_buf.series_merge_points [OF inv(1), of 0 "wb_size ?b" r] w_buf.buf_size_points [OF inv(1)] by simp
  moreover have "dir_read cfg s (sr_dir sr) r = Some ((Inr (), sr_dir sr), r)"
    using assms(1) by (simp add: only_buffered_def dir_read_def find_first_potential_file_def find_loop.simps)
  ultimately have run: "series_read cfg s sr r =
      Some ((Inr (), sr), if ro_space_left r1 \<noteq> 0 then r1\<lparr>ro_next_time := ro_end_time r1\<rparr> else r1)"
    using r1(1) inv(2) by (simp add: series_read_def Let_def)
  have ends: "ro_end_time r1 = ro_end_time r" using r1(3) by (simp add: same_request_def)
  show ?thesis
  proof (cases "ro_space_left r1 = 0")
    case False
    with run r1(2,3) contents ends same_request_trans [OF r1(3) same_request_next] show ?thesis by auto
  next
    case True
    have ne: "ro_contents r1 \<noteq> []" by (rule chunk_filled [OF r1(2,3) contents assms(4) True])
    then have "last (ro_contents r1) \<in> set (ro_contents r1)" by (rule last_in_set)
    also have "\<dots> \<subseteq> set ?ps"
      using first_of.chosen_subset [of ?ps] by (auto simp: contents in_range_def assms(5) dest!: in_set_takeD)
    finally have "i64_ok (dp_next (last (ro_contents r1)))"
      using inv(4) by (simp add: disjoint_points_def list_all_iff)
    from tracks_next [OF merge_points_tracks [OF r1(1)] assms(3) refl ne this] True run r1(2,3) contents
    show ?thesis by simp
  qed
qed

lemma wb_size_points: "wb_ok b \<Longrightarrow> wb_size b = length (wb_points b)"
  by (rule w_buf.buf_size_points)

interpretation buffered: chunk_reader only_buffered "series_read cfg s" "\<lambda>sr. per_timestamp hd (wb_points (sr_buffer sr))"
  for cfg s
proof
  fix x :: series
  assume inv: "only_buffered x"
  then show "disjoint_points (per_timestamp hd (wb_points (sr_buffer x)))"
    using disjoint_points_subset [of "wb_points (sr_buffer x)"] first_of.chosen_subset by (simp add: only_buffered_def)
  show "list_all (\<lambda>p. 0 \<le> dp_duration p) (per_timestamp hd (wb_points (sr_buffer x)))"
    using inv first_of.chosen_subset by (fastforce simp: only_buffered_def list_all_iff)
qed (rule first_of.chosen_increasing, rule series_read_buffered, simp_all)

text \<open>All datapoints in one sparse file, none in the buffer.\<close>

definition only_in_file :: "config \<Rightarrow> 'a posix_scheme \<Rightarrow> datapoint list \<Rightarrow> series \<Rightarrow> bool" where
  "only_in_file cfg s pts sr \<longleftrightarrow> wb_size (sr_buffer sr) = 0 \<and> wb_is_sorted (sr_buffer sr) \<and>
     dir_filenames_read (sr_dir sr) \<and> leaf_dir (dir_path (sr_dir sr)) s \<and> config_ok cfg \<and>
     disjoint_points pts \<and> one_duration pts \<and> list_all (\<lambda>p. 0 \<le> dp_duration p) pts \<and>
     (\<exists>f bytes. dir_files (sr_dir sr) = [Sparse f] \<and>
        file_at (sparse_get_path (dir_path (sr_dir sr)) f) s = Some bytes \<and> sparse_contents cfg bytes = pts \<and>
        list_all (\<lambda>p. min_timestamp f \<le> dp_timestamp p \<and> dp_timestamp p \<le> max_timestamp f) pts)"

lemma series_read_file:
  assumes "only_in_file cfg s pts sr" and "ro_ok r" and "ro_cursor r = 0" and "0 < ro_buffer_size r"
  shows "\<exists>r'. series_read cfg s sr r = Some ((Inr (), sr), r') \<and> ro_ok r' \<and> same_request r r' \<and>
    ro_contents r' = take (ro_buffer_size r) (in_range (ro_next_time r) (ro_end_time r) (per_timestamp last pts)) \<and>
    ro_next_time r' = (if ro_space_left r' \<noteq> 0 then ro_end_time r else dp_next (last (ro_contents r')))"
proof -
  let ?d = "sr_dir sr" and ?rng = "in_range (ro_next_time r) (ro_end_time r) (per_timestamp last pts)"
  from assms(1) obtain f bytes where f: "dir_filenames_read ?d" "dir_files ?d = [Sparse f]" "leaf_dir (dir_path ?d) s"
    "file_at (sparse_get_path (dir_path ?d) f) s = Some bytes" "config_ok cfg" "sparse_contents cfg bytes = pts"
    "disjoint_points pts" "one_duration pts"
    "\<forall>p \<in> set pts. min_timestamp f \<le> dp_timestamp p \<and> dp_timestamp p \<le> max_timestamp f"
    by (auto simp: only_in_file_def list_all_iff)
  obtain r1 where r1: "dir_read cfg s ?d r = Some ((Inr (), ?d), r1)" "ro_ok r1"
    "ro_contents r1 = ro_contents r @ take (ro_space_left r) (newest_in_range (ro_next_time r) (ro_end_time r) pts)"
    using dir_read_one_sparse [OF f assms(2)] by blast
  have contents: "ro_contents r1 = take (ro_buffer_size r) ?rng"
    using r1(3) newest_per_timestamp assms(2,3) by (simp add: ro_contents_def)
  have tr: "tracks r r1" by (rule dir_read_one_tracks [OF f(1,2) r1(1)])
  then have same: "same_request r r1" by (simp add: tracks_def)
  then have ends: "ro_end_time r1 = ro_end_time r" by (simp add: same_request_def)
  have run: "series_read cfg s sr r =
      Some ((Inr (), sr), if ro_space_left r1 \<noteq> 0 then r1\<lparr>ro_next_time := ro_end_time r1\<rparr> else r1)"
    using r1(1) assms(1) by (simp add: series_read_def Let_def only_in_file_def)
  show ?thesis
  proof (cases "ro_space_left r1 = 0")
    case False
    with run r1(2) same contents ends same_request_trans [OF same same_request_next] show ?thesis by auto
  next
    case True
    have ne: "ro_contents r1 \<noteq> []" by (rule chunk_filled [OF r1(2) same contents assms(4) True])
    then have "last (ro_contents r1) \<in> set (ro_contents r1)" by (rule last_in_set)
    also have "\<dots> \<subseteq> set pts"
      using last_of.chosen_subset [of pts] by (auto simp: contents in_range_def dest!: in_set_takeD)
    finally have "i64_ok (dp_next (last (ro_contents r1)))"
      using f(7) by (simp add: disjoint_points_def list_all_iff)
    from tracks_next [OF tr assms(3) refl ne this] True run r1(2) same contents
    show ?thesis by simp
  qed
qed

interpretation filed: chunk_reader "only_in_file cfg s pts" "series_read cfg s" "\<lambda>sr. per_timestamp last pts"
  for cfg s pts
proof
  fix x :: series
  assume inv: "only_in_file cfg s pts x"
  then show "disjoint_points (per_timestamp last pts)"
    using disjoint_points_subset [of pts] last_of.chosen_subset by (simp add: only_in_file_def)
  show "list_all (\<lambda>p. 0 \<le> dp_duration p) (per_timestamp last pts)"
    using inv last_of.chosen_subset by (fastforce simp: only_in_file_def list_all_iff)
qed (rule last_of.chosen_increasing, rule series_read_file)
section \<open>Reading from the database\<close>

lemma db_read_chunks:
  assumes "map_of (db_series st) (series_key labels) = Some sr" and "labels \<noteq> []"
    and "0 < db_num_workers st" and "\<not> worker_busy (db_world st)" and "cfg = dp_config ps"
    and "r = ReadOperation start_time end_time lim latest (replicate (read_buffer_size cfg) junk) (read_buffer_size cfg)"
    and "db_read_loop (series_read cfg (db_world st)) False keep sr r seen = Some ((Inr (), sr), seen')"
  shows "db_read ps labels start_time end_time lim latest junk keep (st, seen) =
    Some (Inr (), (st\<lparr>db_series := AList.update (series_key labels) sr (db_series st)\<rparr>, seen'))"
proof -
  have "series_key labels \<noteq> []" by (rule series_key_nonempty [OF assms(2)])
  then show ?thesis using assms by (simp add: db_read_def get_series_def get_worker_def Let_def)
qed

text \<open>A series stored in one sparse file, read with any callback that only adds to what it keeps.\<close>

lemma db_read_file:
  assumes "map_of (db_series st) (series_key labels) = Some sr" and "labels \<noteq> []"
    and "0 < db_num_workers st" and "\<not> worker_busy (db_world st)" and "0 < read_buffer_size (dp_config ps)"
    and "only_in_file (dp_config ps) (db_world st) pts sr" and "\<And>c seen. keep c seen = (Inr (), seen @ [form c])"
  shows "\<exists>chunks. db_read ps labels start_time end_time lim latest junk keep (st, seen) =
      Some (Inr (), (st\<lparr>db_series := AList.update (series_key labels) sr (db_series st)\<rparr>, seen @ map form chunks)) \<and>
    concat chunks = newest_in_range start_time end_time pts \<and>
    list_all (\<lambda>c. c \<noteq> [] \<and> length c \<le> read_buffer_size (dp_config ps)) chunks"
proof -
  let ?cfg = "dp_config ps"
  let ?r = "ReadOperation start_time end_time lim latest (replicate (read_buffer_size ?cfg) junk) (read_buffer_size ?cfg)"
  have r: "ro_ok ?r" "ro_cursor ?r = 0" "0 < ro_buffer_size ?r" "ro_buffer_size ?r = read_buffer_size ?cfg"
    "ro_next_time ?r = start_time" "ro_end_time ?r = end_time"
    using assms(5) by (simp_all add: ReadOperation_def ro_ok_def)
  from filed.read_loop_complete [where keep = keep and form = form and seen = seen, OF assms(6,7) r(1-3)] r(4-6)
  obtain chunks where
    "db_read_loop (series_read ?cfg (db_world st)) False keep sr ?r seen = Some ((Inr (), sr), seen @ map form chunks)"
    "concat chunks = in_range start_time end_time (per_timestamp last pts)"
    "list_all (\<lambda>c. c \<noteq> [] \<and> length c \<le> read_buffer_size ?cfg) chunks" by auto
  with db_read_chunks [OF assms(1-4) refl refl this(1)] show ?thesis
    by (auto simp: newest_per_timestamp)
qed

section \<open>Reading a series that has not looked for its files yet\<close>

lemma series_read_scanned:
  "scanned s (sr_dir sr) d1 \<Longrightarrow> series_read cfg s sr r = series_read cfg s (sr\<lparr>sr_dir := d1\<rparr>) r"
  by (auto simp: series_read_def dir_read_scanned Let_def split: option.split prod.split sum.split)

lemma db_read_loop_from:
  assumes "\<And>r. read x r = read y r" and "db_read_loop read busy callback y r s = Some ((res, z), s')"
  shows "\<exists>z'. db_read_loop read busy callback x r s = Some ((res, z'), s')"
  using assms(2) by (simp add: db_read_loop.simps [of read busy callback x r s] db_read_loop.simps [of read busy callback y r s] assms(1)
      split: if_splits)

lemma get_series_keeps:
  "get_series ps labels st = (q, st1) \<Longrightarrow> db_world st1 = db_world st \<and> db_num_workers st1 = db_num_workers st"
  by (auto simp: get_series_def Let_def split: if_splits option.splits sum.splits)

text \<open>
  The series is there or can be made, its file was found or can be, and the file holds \<open>pts\<close>.
\<close>

definition readable :: "db_params \<Rightarrow> (string \<times> string) list \<Rightarrow> datapoint list \<Rightarrow> 'db database \<Rightarrow> bool" where
  "readable ps labels pts st \<longleftrightarrow> 0 < db_num_workers st \<and> \<not> worker_busy (db_world st) \<and>
     (\<exists>st1 sr d1. get_series ps labels st = (Inr (series_key labels), st1) \<and>
        map_of (db_series st1) (series_key labels) = Some sr \<and> scanned (db_world st) (sr_dir sr) d1 \<and>
        only_in_file (dp_config ps) (db_world st) pts (sr\<lparr>sr_dir := d1\<rparr>))"

lemma db_read_readable:
  assumes "readable ps labels pts st" and "0 < read_buffer_size (dp_config ps)"
    and "\<And>c seen. keep c seen = (Inr (), seen @ [form c])"
  shows "\<exists>st' chunks. db_read ps labels start_time end_time lim latest junk keep (st, seen) =
      Some (Inr (), (st', seen @ map form chunks)) \<and>
    concat chunks = newest_in_range start_time end_time pts \<and>
    list_all (\<lambda>c. c \<noteq> [] \<and> length c \<le> read_buffer_size (dp_config ps)) chunks"
proof -
  let ?cfg = "dp_config ps" and ?key = "series_key labels"
  let ?r = "ReadOperation start_time end_time lim latest (replicate (read_buffer_size ?cfg) junk) (read_buffer_size ?cfg)"
  from assms(1) obtain st1 sr d1 where free: "0 < db_num_workers st" "\<not> worker_busy (db_world st)"
    and sr: "get_series ps labels st = (Inr ?key, st1)" "map_of (db_series st1) ?key = Some sr"
    and d1: "scanned (db_world st) (sr_dir sr) d1" "only_in_file ?cfg (db_world st) pts (sr\<lparr>sr_dir := d1\<rparr>)"
    by (auto simp: readable_def)
  have r: "ro_ok ?r" "ro_cursor ?r = 0" "0 < ro_buffer_size ?r" "ro_buffer_size ?r = read_buffer_size ?cfg"
    "ro_next_time ?r = start_time" "ro_end_time ?r = end_time"
    using assms(2) by (simp_all add: ReadOperation_def ro_ok_def)
  from filed.read_loop_complete [where keep = keep and form = form and seen = seen, OF d1(2) assms(3) r(1-3)] r(4-6)
  obtain chunks where
    loop: "db_read_loop (series_read ?cfg (db_world st)) False keep (sr\<lparr>sr_dir := d1\<rparr>) ?r seen =
      Some ((Inr (), sr\<lparr>sr_dir := d1\<rparr>), seen @ map form chunks)"
    and chunks: "concat chunks = in_range start_time end_time (per_timestamp last pts)"
      "list_all (\<lambda>c. c \<noteq> [] \<and> length c \<le> read_buffer_size ?cfg) chunks" by auto
  from db_read_loop_from [OF series_read_scanned [OF d1(1)] loop] obtain sr' where
    "db_read_loop (series_read ?cfg (db_world st)) False keep sr ?r seen = Some ((Inr (), sr'), seen @ map form chunks)"
    by blast
  with get_series_keeps [OF sr(1)] free sr have "db_read ps labels start_time end_time lim latest junk keep (st, seen) =
      Some (Inr (), (st1\<lparr>db_series := AList.update ?key sr' (db_series st1)\<rparr>, seen @ map form chunks))"
    by (simp add: db_read_def get_worker_def Let_def)
  with chunks show ?thesis by (auto simp: newest_per_timestamp)
qed

section \<open>Complete reads\<close>

text \<open>
  Claim C6. A database read of a series stored in one sparse file ends, and hands out the
  newest datapoint of every timestamp in the range, in order and completely, in non-empty
  chunks no larger than the read buffer; the limit on datapoints plays no part.
\<close>

theorem database_read_complete:
  assumes "map_of (db_series st) (series_key labels) = Some sr" and "labels \<noteq> []"
    and "0 < db_num_workers st" and "\<not> worker_busy (db_world st)" and "0 < read_buffer_size (dp_config ps)"
    and "only_in_file (dp_config ps) (db_world st) pts sr"
  shows "\<exists>st' chunks. db_read ps labels start_time end_time lim latest junk keep_batch (st, []) =
      Some (Inr (), (st', chunks)) \<and>
    concat chunks = newest_in_range start_time end_time pts \<and>
    list_all (\<lambda>c. c \<noteq> [] \<and> length c \<le> read_buffer_size (dp_config ps)) chunks"
proof -
  have keep: "keep_batch c seen = (Inr (), seen @ [id c])" for c :: "datapoint list" and seen by (simp add: keep_batch_run)
  from db_read_file [where keep = keep_batch and form = id and seen = "[]" and start_time = start_time
      and end_time = end_time and lim = lim and latest = latest and junk = junk, OF assms keep]
  show ?thesis by auto
qed

definition one_chunk_params :: db_params where
  "one_chunk_params = demo_params\<lparr>dp_config := demo_config\<lparr>read_buffer_size := 1\<rparr>\<rparr>"

text \<open>A database whose only series has two datapoints in one sparse file.\<close>

definition demo_points :: "datapoint list" where
  "demo_points = [Datapoint 10 1 5, Datapoint 20 2 5]"

definition file_series :: series where
  "file_series = (demo_series [] True)\<lparr>sr_dir := demo_directory [Sparse (SparseFile 10 20 False)],
     sr_buffer := WriteBuffer 4096 1 (Datapoint 0 0 0) []\<rparr>"

definition file_database :: "unit database" where
  "file_database = (demo_database [(''host=a;'', file_series)])
     \<lparr>db_world := demo_world [(''d/10-20'', enc_all dp_encode demo_points)]\<rparr>"

lemma file_database_reads:
  "map_of (db_series file_database) (series_key [(''host'', ''a'')]) = Some file_series"
  "0 < db_num_workers file_database" "\<not> worker_busy (db_world file_database)"
  "0 < read_buffer_size (dp_config one_chunk_params)"
  "only_in_file (dp_config one_chunk_params) (db_world file_database) demo_points file_series"
  "newest_in_range 0 100 demo_points = demo_points"
proof -
  let ?cfg = "dp_config one_chunk_params"
  have path: "sparse_get_path ''d'' (SparseFile 10 20 False) = ''d/10-20''" by code_simp
  have conf: "sparse_file_max_size ?cfg = 4194304" "read_buffer_size ?cfg = 1"
    by (simp_all add: one_chunk_params_def demo_params_def demo_config_def default_config_def)
  then show "0 < read_buffer_size ?cfg" by simp
  have pts: "disjoint_points demo_points" "one_duration demo_points" "list_all dp_ok demo_points"
    "list_all (\<lambda>p. 0 \<le> dp_duration p \<and> 10 \<le> dp_timestamp p \<and> dp_timestamp p \<le> 20) demo_points" by code_simp+
  show "newest_in_range 0 100 demo_points = demo_points" by code_simp
  have "sparse_contents ?cfg (enc_all dp_encode demo_points) = demo_points"
    using pts(3) by (intro sparse_contents_encoded) (simp_all add: conf datapoint_size_def demo_points_def)
  moreover have "file_at ''d/10-20'' (db_world file_database) = Some (enc_all dp_encode demo_points)"
    by (simp add: file_at_def file_database_def demo_world_def)
  moreover have "leaf_dir ''d'' (db_world file_database)" by (simp add: file_database_def demo_leaf)
  ultimately show "only_in_file ?cfg (db_world file_database) demo_points file_series"
    using pts(1,2,4)
    by (simp add: only_in_file_def file_series_def wb_size_def wb_is_sorted_def WriteBuffer_def demo_directory_def
        config_ok_def conf datapoint_size_def path) (simp add: SparseFile_def list_all_iff)
  show "map_of (db_series file_database) (series_key [(''host'', ''a'')]) = Some file_series" "0 < db_num_workers file_database"
    "\<not> worker_busy (db_world file_database)"
    by (simp_all add: file_database_def demo_database_def series_key_def worker_busy_def demo_world_def)
qed

theorem database_read_complete_witness:
  "\<exists>st' chunks. db_read one_chunk_params [(''host'', ''a'')] 0 100 0 False (Datapoint 0 0 0) keep_batch (file_database, []) =
      Some (Inr (), (st', chunks)) \<and>
    concat chunks = demo_points"
proof -
  note f = file_database_reads
  have "[(''host'', ''a'')] \<noteq> []" by simp
  from database_read_complete [OF f(1) this f(2-5), of 0 100 0 False "Datapoint 0 0 0"] show ?thesis
    unfolding f(6) by blast
qed

end
