(* ===== verification/Services.thy ===== *)
theory Services
  imports ChunkedRead
begin

text \<open>
  \<open>storage_service.h\<close>, \<open>search_service.h\<close> and \<open>controller_service.h\<close>: what the RPC
  handlers do with a request.  A stream is a list of messages; the messages are the data of the
  protobufs.  A read collects the \<open>ReadResult\<close>s it writes to the client.
\<close>

section \<open>The storage service\<close>

type_synonym labels = "(string \<times> string) list"

type_synonym read_result = "labels \<times> datapoint list"

datatype rpc_status = OkStatus | InvalidArgumentStatus string

text \<open>
  \<open>WriteDatapoints\<close>: only \<open>InvalidSeriesProto\<close> is caught; any other exception leaves the
  handler.  The result counts the datapoints written.
\<close>

primrec write_datapoints ::
  "db_params \<Rightarrow> 'db sqlite \<Rightarrow> (labels \<times> datapoint list) list \<Rightarrow> nat \<Rightarrow> (nat, 'db database) prog" where
  "write_datapoints ps sq [] written st = (Inr written, st)"
| "write_datapoints ps sq (op # ops) written st =
     (case db_write ps sq (fst op) (snd op) st of
       (Inr _, st') \<Rightarrow> write_datapoints ps sq ops (written + length (snd op)) st'
     | (Inl (InvalidSeriesProto msg), st') \<Rightarrow> write_datapoints ps sq ops written st'
     | (Inl e, st') \<Rightarrow> (Inl e, st'))"

datatype read_selector = QuerySelector series_query | ListSelector "labels list" | SelectorNotSet

record read_request =
  rq_selector :: read_selector
  rq_start_time :: int
  rq_end_time :: int
  rq_datapoint_limit :: int
  rq_prefer_latest :: bool

text \<open>The inner lambda: one \<open>ReadResult\<close> for each chunk of a series.\<close>

definition respond :: "labels \<Rightarrow> datapoint list \<Rightarrow> (unit, read_result list) prog" where
  "respond series chunk written = (Inr (), written @ [(series, chunk)])"

text \<open>The outer lambda: every matching series in turn.\<close>

primrec read_series ::
  "db_params \<Rightarrow> read_request \<Rightarrow> datapoint \<Rightarrow> labels list \<Rightarrow> 'db database \<times> read_result list \<Rightarrow>
     (unit res \<times> ('db database \<times> read_result list)) option" where
  "read_series ps rq junk [] st = Some (Inr (), st)"
| "read_series ps rq junk (series # matches) st =
     (case db_read ps series (rq_start_time rq) (rq_end_time rq) (rq_datapoint_limit rq) (rq_prefer_latest rq) junk
             (respond series) st of
       None \<Rightarrow> None
     | Some (Inl e, st') \<Rightarrow> Some (Inl e, st')
     | Some (Inr _, st') \<Rightarrow> read_series ps rq junk matches st')"

primrec read_batches ::
  "db_params \<Rightarrow> read_request \<Rightarrow> datapoint \<Rightarrow> labels list list \<Rightarrow> 'db database \<times> read_result list \<Rightarrow>
     (unit res \<times> ('db database \<times> read_result list)) option" where
  "read_batches ps rq junk [] st = Some (Inr (), st)"
| "read_batches ps rq junk (batch # batches) st =
     (case read_series ps rq junk batch st of
       None \<Rightarrow> None
     | Some (Inl e, st') \<Rightarrow> Some (Inl e, st')
     | Some (Inr _, st') \<Rightarrow> read_batches ps rq junk batches st')"

text \<open>
  \<open>ReadDatapoints\<close>: the search hands its batches to the outer lambda; only \<open>SqliteError\<close>
  is caught.  Reading a series leaves SQLite alone, so the batches can be taken first.
\<close>

definition read_datapoints ::
  "db_params \<Rightarrow> 'db sqlite \<Rightarrow> int \<Rightarrow> (string \<Rightarrow> labels option) \<Rightarrow> read_request \<Rightarrow> datapoint \<Rightarrow> 'db database \<Rightarrow>
     (rpc_status res \<times> ('db database \<times> read_result list)) option" where
  "read_datapoints ps sq batch_size parse rq junk st =
     (case rq_selector rq of
       SelectorNotSet \<Rightarrow> Some (Inr (InvalidArgumentStatus ''Selector not specified''), (st, []))
     | ListSelector series \<Rightarrow>
         (case read_series ps rq junk series (st, []) of
           None \<Rightarrow> None
         | Some (Inl e, st') \<Rightarrow> Some (Inl e, st')
         | Some (Inr _, st') \<Rightarrow> Some (Inr OkStatus, st'))
     | QuerySelector query \<Rightarrow>
         (case search_series sq batch_size parse (db_sqlite st) query keep_batch [] of
           (found, batches) \<Rightarrow>
             (case read_batches ps rq junk batches (st, []) of
               None \<Rightarrow> None
             | Some (Inl (SqliteErr _), st') \<Rightarrow> Some (Inr OkStatus, st')
             | Some (Inl e, st') \<Rightarrow> Some (Inl e, st')
             | Some (Inr _, st') \<Rightarrow>
                 (case found of
                   Inr _ \<Rightarrow> Some (Inr OkStatus, st')
                 | Inl (SqliteErr _) \<Rightarrow> Some (Inr OkStatus, st')
                 | Inl e \<Rightarrow> Some (Inl e, st')))))"

section \<open>The search and the controller service\<close>

text \<open>The batches reach the client as they are; an \<open>SqliteError\<close> is only logged.\<close>

definition rpc_search_series ::
  "'db sqlite \<Rightarrow> int \<Rightarrow> (string \<Rightarrow> labels option) \<Rightarrow> 'db \<Rightarrow> series_query \<Rightarrow> rpc_status res \<times> labels list list" where
  "rpc_search_series sq batch_size parse db query =
     (case search_series sq batch_size parse db query keep_batch [] of
       (Inr _, results) \<Rightarrow> (Inr OkStatus, results)
     | (Inl (SqliteErr _), results) \<Rightarrow> (Inr OkStatus, results)
     | (Inl e, results) \<Rightarrow> (Inl e, results))"

definition rpc_search_labels ::
  "'db sqlite \<Rightarrow> int \<Rightarrow> 'db \<Rightarrow> labels_query \<Rightarrow> rpc_status res \<times> string list list" where
  "rpc_search_labels sq batch_size db query =
     (case search_labels sq batch_size db query keep_batch [] of
       (Inr _, results) \<Rightarrow> (Inr OkStatus, results)
     | (Inl (SqliteErr _), results) \<Rightarrow> (Inr OkStatus, results)
     | (Inl e, results) \<Rightarrow> (Inl e, results))"

text \<open>\<open>LocateSeries\<close> and \<open>ExchangeState\<close> answer without doing anything.\<close>

definition locate_series :: "series_query \<Rightarrow> rpc_status" where "locate_series query = OkStatus"

definition exchange_state :: "'a \<Rightarrow> rpc_status" where "exchange_state request = OkStatus"

section \<open>Reading through the service\<close>

text \<open>The series of the list are each stored in one sparse file, holding \<open>pts\<close> of their labels.\<close>

definition stored_series :: "db_params \<Rightarrow> 'db database \<Rightarrow> (labels \<Rightarrow> datapoint list) \<Rightarrow> labels \<Rightarrow> bool" where
  "stored_series ps st pts labels \<longleftrightarrow> labels \<noteq> [] \<and>
     (\<exists>sr. map_of (db_series st) (series_key labels) = Some sr \<and> only_in_file (dp_config ps) (db_world st) (pts labels) sr)"

text \<open>What the stream says of the series: its labels on chunks that are its newest datapoints in range.\<close>

definition answers_series :: "read_request \<Rightarrow> (labels \<Rightarrow> datapoint list) \<Rightarrow> labels \<Rightarrow> datapoint list list \<Rightarrow> bool" where
  "answers_series rq pts labels chunks \<longleftrightarrow> list_all (\<lambda>c. c \<noteq> []) chunks \<and>
     concat chunks = newest_in_range (rq_start_time rq) (rq_end_time rq) (pts labels)"

definition results_of :: "labels list \<Rightarrow> datapoint list list list \<Rightarrow> read_result list" where
  "results_of series chunks = concat (map2 (\<lambda>labels. map (Pair labels)) series chunks)"

lemma read_series_stored:
  assumes "0 < db_num_workers st" and "\<not> worker_busy (db_world st)" and "0 < read_buffer_size (dp_config ps)"
    and "list_all (stored_series ps st pts) series"
  shows "\<exists>st' chunks. read_series ps rq junk series (st, seen) = Some (Inr (), (st', seen @ results_of series chunks)) \<and>
    list_all2 (answers_series rq pts) series chunks"
  using assms
proof (induction series arbitrary: st seen)
  case Nil
  then show ?case by (simp add: results_of_def)
next
  case (Cons labels series)
  then obtain sr where sr: "labels \<noteq> []" "map_of (db_series st) (series_key labels) = Some sr"
    "only_in_file (dp_config ps) (db_world st) (pts labels) sr" by (auto simp: stored_series_def)
  have keep: "respond labels c seen = (Inr (), seen @ [Pair labels c])" for c seen by (simp add: respond_def)
  from db_read_file [where keep = "respond labels" and form = "Pair labels" and seen = seen and start_time = "rq_start_time rq"
      and end_time = "rq_end_time rq" and lim = "rq_datapoint_limit rq" and latest = "rq_prefer_latest rq" and junk = junk,
      OF sr(2,1) Cons.prems(1-3) sr(3) keep]
  obtain cs where
    rd: "db_read ps labels (rq_start_time rq) (rq_end_time rq) (rq_datapoint_limit rq) (rq_prefer_latest rq) junk (respond labels) (st, seen) =
      Some (Inr (), (st\<lparr>db_series := AList.update (series_key labels) sr (db_series st)\<rparr>, seen @ map (Pair labels) cs))"
    and cs: "answers_series rq pts labels cs"
    by (auto simp: answers_series_def list_all_iff)
  let ?st = "st\<lparr>db_series := AList.update (series_key labels) sr (db_series st)\<rparr>"
  have "map_of (AList.update (series_key labels) sr (db_series st)) = map_of (db_series st)"
    using sr(2) by (simp add: update_conv' map_upd_triv)
  then have "stored_series ps ?st pts = stored_series ps st pts" by (simp add: stored_series_def fun_eq_iff)
  then have rest: "0 < db_num_workers ?st" "\<not> worker_busy (db_world ?st)" "list_all (stored_series ps ?st pts) series"
    using Cons.prems by simp_all
  obtain st' chunks where "read_series ps rq junk series (?st, seen @ map (Pair labels) cs) =
      Some (Inr (), (st', (seen @ map (Pair labels) cs) @ results_of series chunks))"
    "list_all2 (answers_series rq pts) series chunks"
    using Cons.IH [OF rest(1,2) Cons.prems(3) rest(3)] by blast
  with rd cs show ?case by (intro exI [of _ st'] exI [of _ "cs # chunks"]) (simp add: results_of_def)
qed

text \<open>
  Claim C7. The read service, asked for a list of series that are each stored in one sparse file,
  answers OK and streams, series after series in the order of the request, results that carry the
  labels of the series and whose datapoints, put together, are the newest of every timestamp in
  the range.
\<close>

theorem read_rpc_streams_newest:
  assumes "0 < db_num_workers st" and "\<not> worker_busy (db_world st)" and "0 < read_buffer_size (dp_config ps)"
    and "list_all (stored_series ps st pts) series" and "rq_selector rq = ListSelector series"
  shows "\<exists>st' chunks. read_datapoints ps sq batch_size parse rq junk st = Some (Inr OkStatus, (st', results_of series chunks)) \<and>
    list_all2 (answers_series rq pts) series chunks"
  using read_series_stored [OF assms(1-4), of rq junk "[]"] assms(5) by (auto simp: read_datapoints_def)

lemma read_datapoints_readable:
  assumes "readable ps labels pts st" and "0 < read_buffer_size (dp_config ps)" and "rq_selector rq = ListSelector [labels]"
  shows "\<exists>st' results. read_datapoints ps sq batch_size parse rq junk st = Some (Inr OkStatus, (st', results)) \<and>
    list_all (\<lambda>r. fst r = labels \<and> snd r \<noteq> []) results \<and>
    concat (map snd results) = newest_in_range (rq_start_time rq) (rq_end_time rq) pts"
proof -
  have keep: "respond labels c seen = (Inr (), seen @ [Pair labels c])" for c seen by (simp add: respond_def)
  from db_read_readable [where keep = "respond labels" and form = "Pair labels" and seen = "[]" and start_time = "rq_start_time rq"
      and end_time = "rq_end_time rq" and lim = "rq_datapoint_limit rq" and latest = "rq_prefer_latest rq" and junk = junk,
      OF assms(1,2) keep]
  obtain st' chunks where
    "db_read ps labels (rq_start_time rq) (rq_end_time rq) (rq_datapoint_limit rq) (rq_prefer_latest rq) junk (respond labels) (st, []) =
      Some (Inr (), (st', map (Pair labels) chunks))"
    "concat chunks = newest_in_range (rq_start_time rq) (rq_end_time rq) pts" "list_all (\<lambda>c. c \<noteq> []) chunks"
    by (auto simp: list_all_iff)
  then show ?thesis using assms(3)
    by (intro exI [of _ st'] exI [of _ "map (Pair labels) chunks"]) (auto simp: read_datapoints_def list_all_iff o_def)
qed

text \<open>An SQLite in which every call succeeds and nothing is found.\<close>

definition silent_sqlite :: "unit sqlite" where
  "silent_sqlite = \<lparr>sq_prepare_ok = (\<lambda>sql db. True), sq_bind_ok = (\<lambda>stmt val db. True), sq_exec = (\<lambda>sql db. (True, db)), sq_step_done = (\<lambda>stmt db. (True, db)),
     sq_rows = (\<lambda>stmt db. ([], True)), sq_last_insert_rowid = (\<lambda>db. 0), sq_errmsg = (\<lambda>db. []), sq_printf_w = (\<lambda>s. s),
     sq_stale = (\<lambda>s. s)\<rparr>"

definition demo_request :: read_request where
  "demo_request = \<lparr>rq_selector = ListSelector [[(''host'', ''a'')]], rq_start_time = 0, rq_end_time = 100,
     rq_datapoint_limit = 0, rq_prefer_latest = False\<rparr>"

theorem read_rpc_streams_newest_witness:
  "\<exists>st' chunks. read_datapoints one_chunk_params silent_sqlite 1024 (\<lambda>row. None) demo_request (Datapoint 0 0 0) file_database =
      Some (Inr OkStatus, (st', map (Pair [(''host'', ''a'')]) chunks)) \<and>
    concat chunks = demo_points"
proof -
  note f = file_database_reads
  let ?labels = "[(''host'', ''a'')]"
  have rq: "rq_selector demo_request = ListSelector [?labels]" "rq_start_time demo_request = 0" "rq_end_time demo_request = 100"
    by (simp_all add: demo_request_def)
  have "list_all (stored_series one_chunk_params file_database (\<lambda>_. demo_points)) [?labels]"
    using f(1,5) by (simp add: stored_series_def)
  from read_rpc_streams_newest [OF f(2-4) this rq(1), of silent_sqlite 1024 "\<lambda>row. None" "Datapoint 0 0 0"]
  show ?thesis using f(6) by (fastforce simp: list_all2_Cons1 results_of_def answers_series_def rq)
qed

text \<open>
  A full worker queue ends the whole write stream: the exception leaves the
  handler, and neither this operation nor any after it is written.
\<close>

theorem busy_worker_ends_write_stream:
  assumes "map_of (db_series st) (series_key labels) = Some sr" and "labels \<noteq> []"
    and "0 < db_num_workers st" and "worker_busy (db_world st)"
  shows "write_datapoints ps sq ((labels, pts) # ops) written st = (Inl WorkerThreadTooBusy, st)"
  using assms series_key_nonempty [OF assms(2)]
  by (simp add: db_write_def get_series_def get_worker_def Let_def)

definition busy_database :: "unit database" where
  "busy_database = file_database\<lparr>db_world := busy_world\<rparr>"

theorem busy_worker_ends_write_stream_witness:
  "write_datapoints demo_params silent_sqlite
      [([(''host'', ''a'')], [Datapoint 30 1 5]), ([(''host'', ''b'')], [Datapoint 10 1 5])] 0 busy_database =
    (Inl WorkerThreadTooBusy, busy_database)"
proof -
  have "map_of (db_series busy_database) (series_key [(''host'', ''a'')]) = Some file_series" "0 < db_num_workers busy_database"
    using file_database_reads(1,2) by (simp_all add: busy_database_def)
  moreover have "worker_busy (db_world busy_database)"
    by (simp add: busy_database_def worker_busy_def busy_world_def demo_world_def)
  ultimately show ?thesis by (intro busy_worker_ends_write_stream) simp_all
qed

end
