(* ===== verification/DatabaseState.thy ===== *)
theory DatabaseState
  imports Services
begin

text \<open>
  The state of a database: what holds of every series it keeps, and what a write does to the
  datapoints it has buffered.
\<close>

section \<open>Well-formed databases\<close>

definition series_ok :: "db_params \<Rightarrow> string \<Rightarrow> series \<Rightarrow> bool" where
  "series_ok ps key sr \<longleftrightarrow>
     sr_keystr sr = key \<and> series_key (sr_labels sr) = key \<and> key \<noteq> '''' \<and> sr_keyint sr = dp_hash ps key \<and>
     wb_ok (sr_buffer sr)"

definition database_ok :: "db_params \<Rightarrow> 'db database \<Rightarrow> bool" where
  "database_ok ps st \<longleftrightarrow>
     0 < db_num_workers st \<and> distinct (map fst (db_series st)) \<and> list_all (\<lambda>(key, sr). series_ok ps key sr) (db_series st)"

definition params_ok :: "db_params \<Rightarrow> bool" where
  "params_ok ps \<longleftrightarrow> wb_ok (dp_empty_buffer ps) \<and> wb_points (dp_empty_buffer ps) = []"

text \<open>The abstraction: the datapoints in memory, by key.\<close>

definition buffered :: "'db database \<Rightarrow> string \<Rightarrow> datapoint list" where
  "buffered st key = (case map_of (db_series st) key of None \<Rightarrow> [] | Some sr \<Rightarrow> wb_points (sr_buffer sr))"

lemma database_ok_series: "database_ok ps st \<Longrightarrow> map_of (db_series st) key = Some sr \<Longrightarrow> series_ok ps key sr"
  by (auto simp: database_ok_def list_all_iff dest!: map_of_SomeD)

lemma set_update: "set (AList.update k v xs) \<subseteq> insert (k, v) (set xs)"
  by (induction xs) auto

lemma database_ok_update:
  assumes "database_ok ps st" and "series_ok ps key sr"
  shows "database_ok ps (st\<lparr>db_series := AList.update key sr (db_series st)\<rparr>)"
  using assms set_update [of key sr "db_series st"]
  by (auto simp: database_ok_def list_all_iff distinct_update)

lemma database_ok_sqlite [simp]: "database_ok ps (st\<lparr>db_sqlite := db\<rparr>) = database_ok ps st"
  by (simp add: database_ok_def)

lemma buffered_sqlite [simp]: "buffered (st\<lparr>db_sqlite := db\<rparr>) = buffered st"
  by (rule ext) (simp add: buffered_def)

lemma buffered_update [simp]:
  "buffered (st\<lparr>db_series := AList.update key sr (db_series st)\<rparr>) = (buffered st)(key := wb_points (sr_buffer sr))"
  "buffered (st\<lparr>db_sqlite := db, db_series := AList.update key sr (db_series st)\<rparr>) =
    (buffered st)(key := wb_points (sr_buffer sr))"
  by (rule ext, simp add: buffered_def update_conv')+

text \<open>The constructor starts from no series.\<close>

lemma Database_ok: "Database ps index dir db s = Inr st \<Longrightarrow> database_ok ps st \<and> buffered st = (\<lambda>key. [])"
  by (auto simp: Database_def Let_def start_threads database_ok_def buffered_def split: if_splits sum.splits prod.splits)

section \<open>Indexing fails with an SqliteError only\<close>

definition sqlite_errors :: "('a, 'db) prog \<Rightarrow> bool" where
  "sqlite_errors m \<longleftrightarrow> (\<forall>s e s'. m s = (Inl e, s') \<longrightarrow> (\<exists>msg. e = SqliteErr msg))"

named_theorems sqlite_errors

lemma sqlite_errors_bind [sqlite_errors]:
  "sqlite_errors m \<Longrightarrow> (\<And>x. sqlite_errors (f x)) \<Longrightarrow> sqlite_errors (bindM m f)"
  unfolding sqlite_errors_def bindM_def by (clarsimp split: prod.splits sum.splits) blast

lemma sqlite_errors_basic [sqlite_errors]:
  "sqlite_errors (returnM x)" "sqlite_errors (throwM (SqliteErr msg))" "sqlite_errors (getsM g)"
  "sqlite_errors (sql_prepare sq sql)" "sqlite_errors (sql_execute sq stmt)" "sqlite_errors (sql_exec sq sql msg)"
  "sqlite_errors (bind_text sq val stmt)" "sqlite_errors (bind_int64 sq n stmt)"
  by (auto simp: sqlite_errors_def run_simps sql_prepare_def sql_execute_def sql_exec_def sql_error_def
      bind_text_def bind_int64_def stmt_error_def split: prod.splits bool.splits if_splits)

lemma index_labels_errors [sqlite_errors]: "sqlite_errors (index_labels sq series_id ls)"
  by (induction ls) (auto simp: index_label_def Let_def intro!: sqlite_errors)

lemma index_series_errors: "sqlite_errors (index_series sq serialize labels keystr)"
  unfolding index_series_def
  by (intro sqlite_errors) (auto split: option.split intro!: sqlite_errors)

lemma index_series_cases:
  obtains db' where "index_series sq serialize labels keystr db = (Inr (), db')"
  | msg db' where "index_series sq serialize labels keystr db = (Inl (SqliteErr msg), db')"
proof -
  obtain r db' where r: "index_series sq serialize labels keystr db = (r, db')" by (rule prod.exhaust)
  with index_series_errors [of sq serialize labels keystr] that show ?thesis
    unfolding sqlite_errors_def by (cases r) auto
qed

section \<open>Writing\<close>

lemma strip_slashes_nonempty: "c \<in> set p \<Longrightarrow> c \<noteq> CHR ''/'' \<Longrightarrow> strip_slashes p \<noteq> []"
  by (auto simp: strip_slashes_def dropWhile_eq_Nil_conv)

lemma Series_ok:
  assumes "params_ok ps" and "labels \<noteq> []"
  obtains sr where "Series (dp_empty_buffer ps) (dp_hash ps) root labels (series_key labels) = Inr sr"
    and "series_ok ps (series_key labels) sr" and "wb_points (sr_buffer sr) = []"
  using assms strip_slashes_nonempty [of "CHR ''d''" "root @ ''datapoints/'' @ q" for q] series_key_nonempty [OF assms(2)]
  by (simp add: Series_def series_init_def DatapointDirectory_def Let_def series_ok_def params_ok_def)

text \<open>What \<open>aligned_alloc\<close> answers to the buffer of a series, which may yet have to be made.\<close>

definition memory :: "db_params \<Rightarrow> 'db database \<Rightarrow> string \<Rightarrow> bool list" where
  "memory ps st key = (case map_of (db_series st) key of
     None \<Rightarrow> wb_heap (dp_empty_buffer ps) | Some sr \<Rightarrow> wb_heap (sr_buffer sr))"

lemma get_series_ok:
  assumes "database_ok ps st" and "params_ok ps" and "labels \<noteq> []"
  obtains st1 sr where "get_series ps labels st = (Inr (series_key labels), st1)" and "database_ok ps st1"
    and "map_of (db_series st1) (series_key labels) = Some sr" and "buffered st1 = buffered st"
    and "db_world st1 = db_world st" and "wb_heap (sr_buffer sr) = memory ps st (series_key labels)"
proof (cases "map_of (db_series st) (series_key labels)")
  case (Some sr)
  with assms that [of st sr] show ?thesis by (simp add: get_series_def Let_def series_key_nonempty memory_def)
next
  case None
  let ?key = "series_key labels"
  obtain sr where sr: "Series (dp_empty_buffer ps) (dp_hash ps) (db_root_dir st) labels ?key = Inr sr"
    "series_ok ps ?key sr" "wb_points (sr_buffer sr) = []"
    using Series_ok [OF assms(2,3)] by metis
  let ?st1 = "st\<lparr>db_series := AList.update ?key sr (db_series st)\<rparr>"
  have "get_series ps labels st = (Inr ?key, ?st1)"
    using None sr(1) assms(3) by (simp add: get_series_def Let_def series_key_nonempty)
  moreover have "buffered ?st1 = buffered st"
    using None sr(3) by (auto simp: buffered_def update_conv')
  moreover have "wb_heap (sr_buffer sr) = memory ps st ?key"
    using None sr(1) by (auto simp: memory_def Series_def bindE_eq_Inr)
  ultimately show ?thesis using that [of ?st1 sr] database_ok_update [OF assms(1) sr(2)]
    by (simp add: update_conv')
qed

text \<open>The effect of a write: \<open>n\<close> of the datapoints to be stored are stored.\<close>

definition write_effect ::
  "db_params \<Rightarrow> 'db database \<Rightarrow> (string \<times> string) list \<Rightarrow> datapoint list \<Rightarrow> unit res \<Rightarrow> nat \<Rightarrow> 'db database \<Rightarrow> bool" where
  "write_effect ps st labels points result n st' \<longleftrightarrow>
    (if labels = [] then result = Inl (InvalidSeriesProto ''At least one label is required'') \<and> buffered st' = buffered st
     else if worker_busy (db_world st) then result = Inl WorkerThreadTooBusy \<and> buffered st' = buffered st
     else result = Inr () \<and> buffered st' = (buffered st)(series_key labels :=
         buffered st (series_key labels) @ take n (live_points points)) \<and>
       (n = length (live_points points) \<or> n < length (live_points points) \<and> False \<in> set (memory ps st (series_key labels))))"

lemma db_write_effect:
  assumes "database_ok ps st" and "params_ok ps" and run: "db_write ps sq labels points st = (result, st')"
  obtains n where "database_ok ps st'" and "db_world st' = db_world st" and "write_effect ps st labels points result n st'"
proof (cases "labels = []")
  case True
  with assms show ?thesis by (intro that [of 0]) (auto simp: db_write_def get_series_def series_key_def write_effect_def)
next
  case False
  let ?key = "series_key labels"
  obtain st1 sr where st1: "get_series ps labels st = (Inr ?key, st1)" "database_ok ps st1"
    "map_of (db_series st1) ?key = Some sr" "buffered st1 = buffered st" "db_world st1 = db_world st"
    "wb_heap (sr_buffer sr) = memory ps st ?key"
    by (rule get_series_ok [OF assms(1,2) False])
  have sr: "series_ok ps ?key sr" using database_ok_series [OF st1(2,3)] .
  then have "wb_ok (sr_buffer sr)" by (simp add: series_ok_def)
  then obtain r n b where b: "wb_append points (sr_buffer sr) = (r, b)" "appended points (sr_buffer sr) r n b"
    by (rule wb_append_spec)
  then have n: "wb_ok b" "wb_points b = wb_points (sr_buffer sr) @ take n (live_points points)"
    "n = length (live_points points) \<or> n < length (live_points points) \<and> False \<in> set (memory ps st ?key)"
    by (auto simp: appended_def st1(6))
  have worker: "get_worker st1 sr = Inr (sr_keyint sr mod db_num_workers st1)"
    using st1(2) by (simp add: get_worker_def database_ok_def)
  have ok: "series_ok ps ?key (sr\<lparr>sr_buffer := b\<rparr>)" "series_ok ps ?key (sr\<lparr>sr_buffer := b, sr_is_indexed := True\<rparr>)"
    using sr n(1) by (simp_all add: series_ok_def)
  have old: "buffered st ?key = wb_points (sr_buffer sr)" unfolding st1(4) [symmetric] using st1(3) by (simp add: buffered_def)
  note facts = st1(1,3-5) worker old b(1) n(2) database_ok_update [OF st1(2) ok(1)]
    database_ok_update [of ps "st1\<lparr>db_sqlite := db\<rparr>" for db, simplified, OF st1(2) ok(2)]
  have "database_ok ps st' \<and> db_world st' = db_world st \<and> write_effect ps st labels points result n st'"
  proof (cases "worker_busy (db_world st)")
    case True
    with False facts run st1(2) show ?thesis by (simp add: db_write_def Let_def write_effect_def)
  next
    case free: False
    obtain sqlite where "result = Inr () \<and> (st' = st1\<lparr>db_series := AList.update ?key (sr\<lparr>sr_buffer := b\<rparr>) (db_series st1)\<rparr> \<or>
      st' = st1\<lparr>db_series := AList.update ?key (sr\<lparr>sr_buffer := b\<rparr>) (db_series st1), db_sqlite := sqlite\<rparr> \<or>
      st' = st1\<lparr>db_sqlite := sqlite, db_series := AList.update ?key (sr\<lparr>sr_buffer := b, sr_is_indexed := True\<rparr>) (db_series st1)\<rparr>)"
    proof (cases rule: index_series_cases [of sq "dp_serialize ps" "sr_labels sr" "sr_keystr sr" "db_sqlite st1"])
      case (1 db)
      with run facts free that [of db] show ?thesis by (auto simp: db_write_def Let_def series_write_def split: if_splits)
    next
      case (2 msg db)
      with run facts free that [of db] show ?thesis by (auto simp: db_write_def Let_def series_write_def split: if_splits)
    qed
    then show ?thesis using False free facts n(3) by (auto simp: write_effect_def)
  qed
  then show ?thesis using that by blast
qed

text \<open>
  Claim C5. A write keeps the database well formed whatever becomes of it, and never touches a
  file.  With labels and a worker that takes the task it succeeds, and appends the datapoints that
  are not NaN to the buffer of the series the labels name and to no other, even where indexing
  then fails: all of them, unless the system refuses the buffer memory; then only those for which
  there was memory, and the caller is told that the write succeeded all the same, because
  the \<open>bad_alloc\<close> stays in the future of the task.  Without labels or with a full queue it fails and buffers nothing.
\<close>

theorem database_write_appends:
  assumes "database_ok ps st" and "params_ok ps" and "live = filter (\<lambda>p. \<not> isnan (dp_value p)) points"
  shows "case db_write ps sq labels points st of (result, st') \<Rightarrow>
    database_ok ps st' \<and> db_world st' = db_world st \<and>
    (if labels = [] then result = Inl (InvalidSeriesProto ''At least one label is required'') \<and> buffered st' = buffered st
     else if worker_busy (db_world st) then result = Inl WorkerThreadTooBusy \<and> buffered st' = buffered st
     else result = Inr () \<and>
       (\<exists>n. buffered st' = (buffered st)(series_key labels := buffered st (series_key labels) @ take n live) \<and>
         (n = length live \<or> n < length live \<and> False \<in> set (memory ps st (series_key labels)))))"
proof (rule case_prodI2)
  fix result st'
  assume "db_write ps sq labels points st = (result, st')"
  then obtain n where "database_ok ps st'" "db_world st' = db_world st" "write_effect ps st labels points result n st'"
    by (metis db_write_effect [OF assms(1,2)])
  then show "database_ok ps st' \<and> db_world st' = db_world st \<and>
    (if labels = [] then result = Inl (InvalidSeriesProto ''At least one label is required'') \<and> buffered st' = buffered st
     else if worker_busy (db_world st) then result = Inl WorkerThreadTooBusy \<and> buffered st' = buffered st
     else result = Inr () \<and>
       (\<exists>n. buffered st' = (buffered st)(series_key labels := buffered st (series_key labels) @ take n live) \<and>
         (n = length live \<or> n < length live \<and> False \<in> set (memory ps st (series_key labels)))))"
    unfolding write_effect_def assms(3) live_points_def
    by (cases "labels = []"; cases "worker_busy (db_world st)") (simp_all, blast)
qed

definition app_series :: series where
  "app_series = (demo_series [Datapoint 10 0 5, Datapoint 20 0 5, Datapoint 30 0 5] True)
     \<lparr>sr_labels := [(''app'', ''x'')], sr_keystr := ''app=x;''\<rparr>"

theorem database_write_appends_witness:
  "case db_write demo_params silent_sqlite [(''app'', ''x'')] [Datapoint 40 0 5] (demo_database [(''app=x;'', app_series)]) of (result, st') \<Rightarrow>
    buffered st' ''app=x;'' = [Datapoint 10 0 5, Datapoint 20 0 5, Datapoint 30 0 5, Datapoint 40 0 5]"
proof -
  let ?st = "demo_database [(''app=x;'', app_series)]"
  have key: "series_key [(''app'', ''x'')] = ''app=x;''" by (simp add: series_key_def)
  have buffer: "wb_ok (sr_buffer app_series)"
    "wb_points (sr_buffer app_series) = [Datapoint 10 0 5, Datapoint 20 0 5, Datapoint 30 0 5]"
    using demo_series_buffer by (simp_all add: app_series_def)
  have st: "database_ok demo_params ?st" "\<not> worker_busy (db_world ?st)" "buffered ?st ''app=x;'' = wb_points (sr_buffer app_series)"
    using key buffer(1)
    by (simp_all add: database_ok_def demo_database_def series_ok_def app_series_def demo_series_def demo_params_def
        worker_busy_def demo_world_def buffered_def)
  have ps: "params_ok demo_params"
    by (simp add: params_ok_def demo_params_def wb_ok_new)
  have live: "\<not> isnan 0" by (simp add: isnan_def dbl_exp_def)
  have point: "[Datapoint 40 0 5] = filter (\<lambda>p. \<not> isnan (dp_value p)) [Datapoint 40 0 5]" using live by (simp add: Datapoint_def)
  have "memory demo_params ?st ''app=x;'' = []"
    by (simp add: memory_def demo_database_def app_series_def demo_series_def)
  with database_write_appends [OF st(1) ps point, where sq = silent_sqlite and labels = "[(''app'', ''x'')]"] show ?thesis
    using st(2,3) key buffer(2) by (auto split: prod.splits)
qed

end
