(* ===== verification/DatabaseSteps.thy ===== *)
theory DatabaseSteps
  imports DatabaseState "HOL-Library.Multiset"
begin

text \<open>
  The database as a machine: its operations as steps, an invariant every reachable state
  satisfies, and the abstract specification they refine.
\<close>

section \<open>Buffers under the operations\<close>

text \<open>The same datapoints, perhaps in another order.\<close>

definition same_buffer :: "write_buffer \<Rightarrow> write_buffer \<Rightarrow> bool" where
  "same_buffer b b' \<longleftrightarrow> (wb_ok b \<longrightarrow> wb_ok b' \<and> mset (wb_points b') = mset (wb_points b))"

definition same_dbuffer :: "dbuffer \<Rightarrow> dbuffer \<Rightarrow> bool" where
  "same_dbuffer d d' \<longleftrightarrow> (case d of RawBuf r \<Rightarrow> d' = RawBuf r | WBuf b \<Rightarrow> (\<exists>b'. d' = WBuf b' \<and> same_buffer b b'))"

lemma same_buffer_refl [simp, intro]: "same_buffer b b"
  by (simp add: same_buffer_def)

lemma same_buffer_trans [trans]: "same_buffer a b \<Longrightarrow> same_buffer b c \<Longrightarrow> same_buffer a c"
  by (simp add: same_buffer_def)

lemma same_buffer_sort [intro]: "same_buffer b (wb_sort b)"
  by (simp add: same_buffer_def wb_sort_spec)

lemma same_dbuffer_refl [simp, intro]: "same_dbuffer d d"
  by (simp add: same_dbuffer_def split: dbuffer.splits)

lemma same_dbuffer_trans [trans]: "same_dbuffer a b \<Longrightarrow> same_dbuffer b c \<Longrightarrow> same_dbuffer a c"
  by (auto simp: same_dbuffer_def split: dbuffer.splits intro: same_buffer_trans)

lemma iovector_buffer:
  "snd (wb_get_iovector pos m t b) = b \<or> snd (wb_get_iovector pos m t b) = wb_sort b"
  unfolding wb_get_iovector_def Let_def if_distrib [of snd] snd_conv if_cancel by simp

lemma iovector_same_buffer: "wo_get_iovector w = (q, d) \<Longrightarrow> same_dbuffer (wo_buffer w) d"
  using iovector_buffer [of "wo_cursor w" "wo_max_writable_datapoints w" "wo_max_writable_timestamp w"]
  by (auto simp: wo_get_iovector_def db_get_iovector_def same_dbuffer_def split: dbuffer.splits prod.splits)
    (metis same_buffer_refl same_buffer_sort snd_conv)

lemma sparse_write_same_buffer: "sparse_write cfg dir w f s = ((q, f', d), s') \<Longrightarrow> same_dbuffer (wo_buffer w) d"
  by (auto simp: sparse_write_def Let_def split: sum.splits prod.splits dest: iovector_same_buffer)

lemma af_write_same_buffer: "af_write cfg dir w f s = ((q, f', d), s') \<Longrightarrow> same_dbuffer (wo_buffer w) d"
  by (auto simp: af_write_def split: any_file.splits prod.splits dest: sparse_write_same_buffer)

lemma dw_create_same_buffer:
  "dw_create cfg path st = (q, st') \<Longrightarrow> same_dbuffer (wo_buffer (dw_op st)) (wo_buffer (dw_op st'))"
  by (auto simp: dw_create_def Let_def split: sum.splits prod.splits dest!: sparse_write_same_buffer)

lemma dw_skip_op [simp]: "dw_op (dw_skip st) = dw_op st"
  by (simp add: dw_skip_def split: list.splits)

lemma dir_write_step_same_buffer:
  "dir_write_step cfg path st = (q, st') \<Longrightarrow> same_dbuffer (wo_buffer (dw_op st)) (wo_buffer (dw_op st'))"
  by (auto simp: dir_write_step_def Let_def split: list.splits sum.splits prod.splits if_splits
      dest!: af_write_same_buffer dw_create_same_buffer intro: same_dbuffer_trans)

lemma dir_write_loop_same_buffer:
  assumes "dir_write_loop cfg path st = Some y"
  shows "same_dbuffer (wo_buffer (dw_op st)) (wo_buffer (dw_op (snd y)))"
proof (rule dir_write_loop.raw_induct
    [where P = "\<lambda>cfg path st y. same_dbuffer (wo_buffer (dw_op st)) (wo_buffer (dw_op (snd y)))", OF _ assms])
  fix loop cfg path and st :: "'a dw_state" and y
  assume IH: "\<And>path st b y. loop path st b = Some y \<Longrightarrow> same_dbuffer (wo_buffer (dw_op b)) (wo_buffer (dw_op (snd y)))"
    and run: "(if wo_complete (dw_op st) then Some (Inr (), st)
      else case dir_write_step cfg path st of (Inl e, st') \<Rightarrow> Some (Inl e, st') | (Inr x, st') \<Rightarrow> loop cfg path st') = Some y"
  show "same_dbuffer (wo_buffer (dw_op st)) (wo_buffer (dw_op (snd y)))"
  proof (cases "wo_complete (dw_op st)")
    case False
    obtain q st' where step: "dir_write_step cfg path st = (q, st')" by (rule prod.exhaust)
    note same = dir_write_step_same_buffer [OF step]
    show ?thesis
    proof (cases q)
      case (Inl e)
      with False run step same show ?thesis by auto
    next
      case (Inr u)
      with False run step have "loop cfg path st' = Some y" by simp
      from same_dbuffer_trans [OF same IH [OF this]] show ?thesis .
    qed
  qed (use run in auto)
qed

lemma dir_write_same_buffer:
  "dir_write cfg d w s = Some ((q, d', w'), s') \<Longrightarrow> same_dbuffer (wo_buffer w) (wo_buffer w')"
  by (auto simp: dir_write_def split: prod.splits sum.splits option.splits if_splits
      dest!: dir_write_loop_same_buffer)

section \<open>Series under the operations\<close>

text \<open>The identity of a series.\<close>

definition same_name :: "series \<Rightarrow> series \<Rightarrow> bool" where
  "same_name sr sr' \<longleftrightarrow> sr_labels sr' = sr_labels sr \<and> sr_keystr sr' = sr_keystr sr \<and> sr_keyint sr' = sr_keyint sr"

definition same_series :: "series \<Rightarrow> series \<Rightarrow> bool" where
  "same_series sr sr' \<longleftrightarrow> same_name sr sr' \<and> same_buffer (sr_buffer sr) (sr_buffer sr')"

lemma same_series_refl [simp, intro]: "same_series sr sr"
  by (simp add: same_series_def same_name_def)

lemma same_series_trans: "same_series a b \<Longrightarrow> same_series b c \<Longrightarrow> same_series a c"
  by (auto simp: same_series_def same_name_def intro: same_buffer_trans)

lemma series_read_same: "series_read cfg s sr r = Some ((q, sr'), r') \<Longrightarrow> same_series sr sr'"
  by (auto simp: series_read_def same_series_def same_name_def Let_def split: option.splits prod.splits sum.splits if_splits)

text \<open>A flush empties the buffer where it succeeds, and loses nothing of it where it fails.\<close>

lemma flush_same:
  assumes "flush_buffered_datapoints cfg sr s = Some ((q, sr'), s')" and "wb_ok (sr_buffer sr)"
  shows "same_name sr sr' \<and> wb_ok (sr_buffer sr') \<and>
    (case q of Inr _ \<Rightarrow> wb_points (sr_buffer sr') = [] | Inl _ \<Rightarrow> same_buffer (sr_buffer sr) (sr_buffer sr'))"
proof (cases "wb_is_empty (sr_buffer sr)")
  case True
  then have "wb_points (sr_buffer sr) = []" using assms(2) by (simp add: wb_points_def wb_is_empty_def)
  with True assms show ?thesis by (auto simp: flush_buffered_datapoints_def same_name_def)
next
  case False
  let ?b = "if \<not> wb_is_sorted (sr_buffer sr) then wb_sort (sr_buffer sr) else sr_buffer sr"
  obtain p d w where wr: "dir_write cfg (sr_dir sr) (WriteOperation (WBuf ?b)) s = Some ((p, d, w), s')"
    and q: "q = p" and sr': "sr' = sr\<lparr>sr_dir := d, sr_buffer :=
      (case p of Inl _ \<Rightarrow> (case wo_buffer w of WBuf b' \<Rightarrow> b' | RawBuf _ \<Rightarrow> ?b)
       | Inr _ \<Rightarrow> wb_clear (case wo_buffer w of WBuf b' \<Rightarrow> b' | RawBuf _ \<Rightarrow> ?b))\<rparr>"
    using assms(1) False
    by (auto simp: flush_buffered_datapoints_def Let_def split: option.splits prod.splits sum.splits)
  from dir_write_same_buffer [OF wr] obtain b' where b': "wo_buffer w = WBuf b'" "same_buffer ?b b'"
    by (auto simp: same_dbuffer_def WriteOperation_def)
  moreover have "same_buffer (sr_buffer sr) ?b" by auto
  ultimately have "same_buffer (sr_buffer sr) b'" by (blast intro: same_buffer_trans)
  then show ?thesis using assms(2) b'(1) q sr'
    by (auto simp: same_name_def same_buffer_def wb_ok_clear split: sum.splits)
qed

section \<open>The database under reads and flushes\<close>

lemmas db_read_loop_induct = db_read_loop.raw_induct
  [where xa = "(((((read, busy), callback), x), r), s)", simplified prod.case, consumes 1, case_names step]
  for read busy callback x r s

text \<open>Whatever one read of the loop keeps, the loop keeps.\<close>

lemma db_read_loop_preserves:
  assumes "db_read_loop read busy callback x r s = Some y"
    and step: "\<And>x r q x1 r1. read x r = Some ((q, x1), r1) \<Longrightarrow> R x x1"
    and refl: "\<And>x. R x x" and trans: "\<And>x y z. R x y \<Longrightarrow> R y z \<Longrightarrow> R x z"
  shows "R x (snd (fst y))"
proof -
  let ?keeps = "\<lambda>read. \<forall>x r q x1 r1. read x r = Some ((q, x1), r1) \<longrightarrow> R x x1"
  have "?keeps read \<longrightarrow> R x (snd (fst y))"
  proof (rule db_read_loop_induct
      [where P = "\<lambda>read busy callback x r s y. ?keeps read \<longrightarrow> R x (snd (fst y))", OF _ assms(1)], intro impI, goal_cases)
    case (1 loop read busy callback x r s y)
    show ?case
    proof (cases "ro_complete r \<or> busy")
      case False
      with 1(2) obtain q x1 r1 where rd: "read x r = Some ((q, x1), r1)" by (auto split: option.splits)
      then have R: "R x x1" using 1(3) by blast
      show ?thesis
      proof (cases "ro_datapoints_in_buffer r1 = 0")
        case False
        obtain p s1 where cb: "callback (ro_contents r1) s = (p, s1)" by fastforce
        show ?thesis
        proof (cases p)
          case (Inr u)
          with False \<open>\<not> (ro_complete r \<or> busy)\<close> rd cb 1(2) have "loop read busy callback x1 (ro_clear_buffer r1) s1 = Some y"
            by simp
          with 1(1,3) have "R x1 (snd (fst y))" by blast
          with R show ?thesis by (rule trans)
        qed (use False \<open>\<not> (ro_complete r \<or> busy)\<close> rd cb 1(2) R in auto)
      qed (use False rd 1(2) R in auto)
    qed (use 1(2) refl in \<open>auto split: if_splits\<close>)
  qed
  then show ?thesis using step by blast
qed

lemma same_series_ok: "series_ok ps key sr \<Longrightarrow> same_series sr sr' \<Longrightarrow> series_ok ps key sr'"
  by (auto simp: series_ok_def same_series_def same_name_def same_buffer_def)

text \<open>The abstract state: the datapoints in memory of each key, in no order.\<close>

definition contents :: "'db database \<Rightarrow> string \<Rightarrow> datapoint multiset" where
  "contents st key = mset (buffered st key)"

lemma contents_cong: "buffered st = buffered st' \<Longrightarrow> contents st = contents st'"
  by (rule ext) (simp add: contents_def)

lemma contents_update [simp]:
  "contents (st\<lparr>db_series := AList.update key sr (db_series st)\<rparr>) = (contents st)(key := mset (wb_points (sr_buffer sr)))"
  by (rule ext) (simp add: contents_def)

lemma contents_at: "map_of (db_series st) key = Some sr \<Longrightarrow> contents st key = mset (wb_points (sr_buffer sr))"
  by (simp add: contents_def buffered_def)

lemma get_series_cases:
  assumes "database_ok ps st" and "params_ok ps"
  obtains e where "get_series ps labels st = (Inl e, st)"
  | st1 sr where "get_series ps labels st = (Inr (series_key labels), st1)" and "database_ok ps st1"
    and "map_of (db_series st1) (series_key labels) = Some sr" and "contents st1 = contents st"
proof (cases "labels = []")
  case True
  then show ?thesis using that(1) by (simp add: get_series_def series_key_def)
next
  case False
  show ?thesis
  proof (rule get_series_ok [OF assms False])
    fix st1 sr
    assume "get_series ps labels st = (Inr (series_key labels), st1)" "database_ok ps st1"
      "map_of (db_series st1) (series_key labels) = Some sr" "buffered st1 = buffered st"
    then show ?thesis by (metis that(2) contents_cong)
  qed
qed

lemma db_read_keeps:
  assumes "database_ok ps st" and "params_ok ps"
    and run: "db_read ps labels start_time end_time datapoint_limit prefer_latest junk callback (st, s) = Some (res, (st', s'))"
  shows "database_ok ps st' \<and> contents st' = contents st"
  using assms(1,2)
proof (cases rule: get_series_cases [where labels = labels])
  case (1 e)
  with run assms(1) show ?thesis by (simp add: db_read_def)
next
  case (2 st1 sr)
  note ok = database_ok_series [OF 2(2,3)]
  have worker: "get_worker st1 sr = Inr (sr_keyint sr mod db_num_workers st1)"
    using 2(2) by (simp add: get_worker_def database_ok_def)
  from run 2(1,3) worker obtain r y sr1 where
    loop: "db_read_loop (series_read (dp_config ps) (db_world st1)) (worker_busy (db_world st1)) callback sr r s = Some y"
    and sr1: "sr1 = snd (fst y)"
    and st': "st' = st1\<lparr>db_series := AList.update (series_key labels) sr1 (db_series st1)\<rparr>"
    by (auto simp: db_read_def Let_def split: option.splits)
  have same: "same_series sr sr1" unfolding sr1
    by (rule db_read_loop_preserves [OF loop]) (auto intro: series_read_same same_series_trans)
  with ok have "mset (wb_points (sr_buffer sr1)) = contents st (series_key labels)"
    using contents_at [OF 2(3)] 2(4) by (simp add: same_series_def same_buffer_def series_ok_def)
  then have "(contents st)(series_key labels := mset (wb_points (sr_buffer sr1))) = contents st" by auto
  then show ?thesis using st' 2(4) database_ok_update [OF 2(2) same_series_ok [OF ok same]] by simp
qed

lemma db_world_ok [simp]:
  "database_ok ps (st\<lparr>db_world := s\<rparr>) = database_ok ps st"
  "database_ok ps (st\<lparr>db_series := xs, db_world := s\<rparr>) = database_ok ps (st\<lparr>db_series := xs\<rparr>)"
  "contents (st\<lparr>db_world := s\<rparr>) = contents st"
  "contents (st\<lparr>db_series := xs, db_world := s\<rparr>) = contents (st\<lparr>db_series := xs\<rparr>)"
  by (simp_all add: database_ok_def contents_def buffered_def fun_eq_iff)

text \<open>A flush empties some buffers and leaves the others what they hold.\<close>

definition clear_keys :: "'k set \<Rightarrow> ('k \<Rightarrow> 'a multiset) \<Rightarrow> 'k \<Rightarrow> 'a multiset" where
  "clear_keys K m = (\<lambda>key. if key \<in> K then {#} else m key)"

lemma clear_keys_empty [simp]: "clear_keys {} m = m"
  by (simp add: clear_keys_def)

lemma clear_keys_insert: "clear_keys K (clear_keys {key} m) = clear_keys (insert key K) m"
  by (auto simp: clear_keys_def fun_eq_iff)

lemma flush_one_clears:
  assumes "database_ok ps st" and "map_of (db_series st) key = Some sr"
    and "flush_buffered_datapoints cfg sr s = Some ((q, sr'), s')"
    and "st' = st\<lparr>db_series := AList.update key sr' (db_series st)\<rparr>"
  shows "database_ok ps st'" and "contents st' = clear_keys (case q of Inr _ \<Rightarrow> {key} | Inl _ \<Rightarrow> {}) (contents st)"
proof -
  have ok: "series_ok ps key sr" by (rule database_ok_series [OF assms(1,2)])
  then have wb: "wb_ok (sr_buffer sr)" by (simp add: series_ok_def)
  note f = flush_same [OF assms(3) wb]
  from f ok have "series_ok ps key sr'" by (simp add: series_ok_def same_name_def)
  then show "database_ok ps st'" unfolding assms(4) by (rule database_ok_update [OF assms(1)])
  show "contents st' = clear_keys (case q of Inr _ \<Rightarrow> {key} | Inl _ \<Rightarrow> {}) (contents st)"
    using f wb contents_at [OF assms(2)] unfolding assms(4)
    by (auto simp: clear_keys_def fun_eq_iff same_buffer_def split: sum.splits)
qed

lemma buffered_contents:
  assumes "database_ok ps st" and "map_of (db_series st) key = Some sr"
  shows "size (contents st key) = series_datapoints_buffered sr"
proof -
  have "wb_ok (sr_buffer sr)" using database_ok_series [OF assms] by (simp add: series_ok_def)
  then show ?thesis by (simp add: contents_at [OF assms(2)] series_datapoints_buffered_def wb_size_points)
qed

text \<open>
  The round over \<open>keys\<close> empties the first \<open>j\<close> buffers that are not empty: all of them, or as many as
  make the count a multiple of fifty, or those before the one whose flush failed.
\<close>

lemma flush_round_clears:
  assumes "flush_round cfg resort_at keys n (xs, s) = Some (res, (xs', s'))"
    and "set keys \<subseteq> fst ` set xs" and "distinct keys" and "database_ok ps (st\<lparr>db_series := xs\<rparr>)"
    and "full = filter (\<lambda>key. contents (st\<lparr>db_series := xs\<rparr>) key \<noteq> {#}) keys"
  shows "database_ok ps (st\<lparr>db_series := xs'\<rparr>) \<and>
    (\<exists>j. contents (st\<lparr>db_series := xs'\<rparr>) = clear_keys (set (take j full)) (contents (st\<lparr>db_series := xs\<rparr>)) \<and>
      (case res of Inl e \<Rightarrow> j < length full
       | Inr m \<Rightarrow> m = n + j \<and> j \<le> length full \<and> (j = length full \<or> 0 < j \<and> m mod 50 = 0)))"
  using assms
proof (induction keys arbitrary: n xs s full)
  case Nil
  then show ?case by (auto intro: exI [of _ 0])
next
  case (Cons key keys)
  let ?st = "st\<lparr>db_series := xs\<rparr>" and ?full = "filter (\<lambda>key. contents (st\<lparr>db_series := xs\<rparr>) key \<noteq> {#}) keys"
  from Cons.prems(2) obtain sr where sr: "map_of xs key = Some sr"
    by (metis domIff dom_map_of_conv_image_fst insert_subset list.simps(15) not_Some_eq)
  have size: "size (contents ?st key) = series_datapoints_buffered sr"
    using buffered_contents [OF Cons.prems(4), of key sr] sr by simp
  show ?case
  proof (cases "series_datapoints_buffered sr = 0")
    case True
    with size have "full = ?full" by (simp add: Cons.prems(5))
    with Cons.IH [of n xs s full] Cons.prems(1-4) sr True show ?thesis by simp
  next
    case False
    with size have full: "full = key # ?full" by (auto simp: Cons.prems(5))
    from False obtain q sr' s1 where fl: "flush_buffered_datapoints cfg sr s = Some ((q, sr'), s1)"
      using Cons.prems(1) sr by (auto simp: Let_def split: option.splits)
    let ?xs = "AList.update key sr' xs"
    have one: "database_ok ps (st\<lparr>db_series := ?xs\<rparr>)"
      "contents (st\<lparr>db_series := ?xs\<rparr>) = clear_keys (case q of Inr _ \<Rightarrow> {key} | Inl _ \<Rightarrow> {}) (contents ?st)"
      using flush_one_clears [OF Cons.prems(4) _ fl refl] sr by simp_all
    show ?thesis
    proof (cases q)
      case (Inl e)
      then have "xs' = ?xs" "res = Inl e" using Cons.prems(1) sr False fl by (auto simp: Let_def)
      with one Inl full show ?thesis by (auto intro: exI [of _ 0])
    next
      case (Inr u)
      show ?thesis
      proof (cases "(n + 1) mod 50 = 0 \<and> resort_at (n + 1)")
        case True
        then have "xs' = ?xs" "res = Inr (n + 1)" using Cons.prems(1) sr False fl Inr by (auto simp: Let_def)
        with one Inr full True show ?thesis by (auto intro: exI [of _ 1])
      next
        case go: False
        then have run: "flush_round cfg resort_at keys (n + 1) (?xs, s1) = Some (res, (xs', s'))"
          using Cons.prems(1) sr False fl Inr by (auto simp: Let_def)
        have sub: "set keys \<subseteq> fst ` set ?xs" using Cons.prems(2) by (auto simp: dom_update)
        have same: "?full = filter (\<lambda>key. contents (st\<lparr>db_series := ?xs\<rparr>) key \<noteq> {#}) keys"
          using Cons.prems(3) by (intro filter_cong) (auto simp: one(2) Inr clear_keys_def)
        from Cons.IH [OF run sub _ one(1) same] Cons.prems(3) obtain j where
          ok: "database_ok ps (st\<lparr>db_series := xs'\<rparr>)" and
          j: "contents (st\<lparr>db_series := xs'\<rparr>) = clear_keys (set (take j ?full)) (contents (st\<lparr>db_series := ?xs\<rparr>))"
          "case res of Inl e \<Rightarrow> j < length ?full
           | Inr m \<Rightarrow> m = n + 1 + j \<and> j \<le> length ?full \<and> (j = length ?full \<or> 0 < j \<and> m mod 50 = 0)" by auto
        have "contents (st\<lparr>db_series := xs'\<rparr>) = clear_keys (set (take (Suc j) full)) (contents ?st)"
          by (simp add: j(1) one(2) Inr clear_keys_insert full)
        with ok j(2) show ?thesis by (intro conjI exI [of _ "Suc j"]) (auto simp: full split: sum.splits)
      qed
    qed
  qed
qed

text \<open>The \<open>n\<close> largest of the bags that are not empty, whichever of those of one size.\<close>

definition largest :: "('k \<Rightarrow> 'a multiset) \<Rightarrow> nat \<Rightarrow> 'k set \<Rightarrow> bool" where
  "largest m n K \<longleftrightarrow> finite K \<and> card K = n \<and>
     (\<forall>key \<in> K. m key \<noteq> {#} \<and> (\<forall>other. other \<notin> K \<longrightarrow> size (m other) \<le> size (m key)))"

lemma largest_take:
  assumes "distinct keys" and "sorted_wrt (\<lambda>a b. size (m b) \<le> size (m a)) keys" and "\<And>key. key \<notin> set keys \<Longrightarrow> m key = {#}"
    and "full = filter (\<lambda>key. m key \<noteq> {#}) keys" and "j \<le> length full"
  shows "largest m j (set (take j full))"
    and "(\<forall>key. key \<notin> set (take j full) \<longrightarrow> m key = {#}) \<longleftrightarrow> j = length full"
proof -
  have dist: "distinct full" using assms(1,4) by simp
  have sorted: "sorted_wrt (\<lambda>a b. size (m b) \<le> size (m a)) full" unfolding assms(4) by (rule sorted_wrt_filter [OF assms(2)])
  then have split: "\<forall>a \<in> set (take j full). \<forall>b \<in> set (drop j full). size (m b) \<le> size (m a)"
    by (metis append_take_drop_id sorted_wrt_append)
  have full: "key \<in> set full \<longleftrightarrow> m key \<noteq> {#}" for key using assms(3,4) by auto
  have rest: "key \<in> set (drop j full)" if "m key \<noteq> {#}" "key \<notin> set (take j full)" for key
    using that full [of key] by (metis Un_iff append_take_drop_id set_append)
  have sub: "set (take j full) \<subseteq> set full" by (rule set_take_subset)
  have "size (m other) \<le> size (m key)" if "key \<in> set (take j full)" "other \<notin> set (take j full)" for key other
    using that split rest [of other] by (cases "m other = {#}") auto
  moreover have "m key \<noteq> {#}" if "key \<in> set (take j full)" for key using that sub full by blast
  ultimately have "\<forall>key \<in> set (take j full). m key \<noteq> {#} \<and> (\<forall>other. other \<notin> set (take j full) \<longrightarrow> size (m other) \<le> size (m key))"
    by blast
  moreover have "card (set (take j full)) = j" using dist assms(5) by (simp add: distinct_card)
  ultimately show "largest m j (set (take j full))" unfolding largest_def by (intro conjI finite_set)
  have disj: "set (drop j full) \<inter> set (take j full) = {}" using set_take_disj_set_drop_if_distinct [OF dist le_refl, of j] by auto
  have "m key \<noteq> {#}" if "key \<in> set (drop j full)" for key
    using that set_drop_subset [of j full] full [of key] by blast
  with disj rest have "(\<forall>key. key \<notin> set (take j full) \<longrightarrow> m key = {#}) \<longleftrightarrow> set (drop j full) = {}"
    by (metis disjoint_iff equals0I equals0D)
  then show "(\<forall>key. key \<notin> set (take j full) \<longrightarrow> m key = {#}) \<longleftrightarrow> j = length full" using assms(5) by auto
qed

lemma flush_order_keys:
  assumes "database_ok ps st"
  shows "distinct (flush_order (db_series st))" and "set (flush_order (db_series st)) = fst ` set (db_series st)"
    and "sorted_wrt (\<lambda>a b. size (contents st b) \<le> size (contents st a)) (flush_order (db_series st))"
    and "key \<notin> set (flush_order (db_series st)) \<Longrightarrow> contents st key = {#}"
proof -
  let ?f = "\<lambda>s. - int (series_datapoints_buffered (snd s))"
  have dist: "distinct (map fst (db_series st))" using assms by (simp add: database_ok_def)
  have "mset (flush_order (db_series st)) = mset (map fst (db_series st))" by (simp add: flush_order_def)
  then show "distinct (flush_order (db_series st))" using dist mset_eq_imp_distinct_iff by blast
  show keys: "set (flush_order (db_series st)) = fst ` set (db_series st)" by (simp add: flush_order_def)
  then show "contents st key = {#}" if "key \<notin> set (flush_order (db_series st))"
    using that by (auto simp: contents_def buffered_def image_iff split: option.splits dest!: map_of_SomeD)
  have size: "size (contents st (fst x)) = series_datapoints_buffered (snd x)" if "x \<in> set (db_series st)" for x
    using that dist buffered_contents [OF assms, of "fst x" "snd x"] by simp
  have "sorted_wrt (\<lambda>x y. ?f x \<le> ?f y) (sort_key ?f (db_series st))"
    using sorted_sort_key [of ?f "db_series st"] by (simp add: sorted_wrt_map)
  then have "sorted_wrt (\<lambda>x y. size (contents st (fst y)) \<le> size (contents st (fst x))) (sort_key ?f (db_series st))"
    by (rule sorted_wrt_mono_rel [rotated]) (simp add: size)
  then show "sorted_wrt (\<lambda>a b. size (contents st b) \<le> size (contents st a)) (flush_order (db_series st))"
    by (simp add: flush_order_def sorted_wrt_map)
qed

text \<open>What a pass of the flusher does to the bags, by the result it has.\<close>

definition bags_flushed :: "('k \<Rightarrow> 'a multiset) \<Rightarrow> nat res \<Rightarrow> 'k set \<Rightarrow> bool" where
  "bags_flushed m res K \<longleftrightarrow> (case res of
     Inr n \<Rightarrow> largest m n K \<and> ((\<forall>key. key \<notin> K \<longrightarrow> m key = {#}) \<or> 0 < n \<and> n mod 50 = 0)
   | Inl e \<Rightarrow> (\<exists>n. largest m n K) \<and> (\<exists>key. key \<notin> K \<and> m key \<noteq> {#}))"

lemma flush_clears:
  assumes "database_ok ps st" and "flush_write_buffers cfg resort_at st = Some (res, st')"
  shows "database_ok ps st' \<and> (\<exists>K. contents st' = clear_keys K (contents st) \<and> bags_flushed (contents st) res K)"
proof -
  from assms(2) obtain xs s where
    run: "flush_round cfg resort_at (flush_order (db_series st)) 0 (db_series st, db_world st) = Some (res, (xs, s))"
    and st': "st' = st\<lparr>db_series := xs, db_world := s\<rparr>"
    by (auto simp: flush_write_buffers_def split: option.splits)
  note keys = flush_order_keys [OF assms(1)]
  define full where "full = filter (\<lambda>key. contents st key \<noteq> {#}) (flush_order (db_series st))"
  from flush_round_clears [OF run _ keys(1), of ps st full] keys(2) assms(1) obtain j where
    ok: "database_ok ps (st\<lparr>db_series := xs\<rparr>)" and clear: "contents (st\<lparr>db_series := xs\<rparr>) = clear_keys (set (take j full)) (contents st)"
    and j: "case res of Inl e \<Rightarrow> j < length full
       | Inr m \<Rightarrow> m = 0 + j \<and> j \<le> length full \<and> (j = length full \<or> 0 < j \<and> m mod 50 = 0)" by (auto simp: full_def)
  from j have "j \<le> length full" by (auto split: sum.splits)
  note l = largest_take [OF keys(1,3,4) full_def this]
  have "bags_flushed (contents st) res (set (take j full))"
    using j l by (auto simp: bags_flushed_def split: sum.splits)
  with ok clear show ?thesis by (auto simp: st')
qed

section \<open>The database as a machine\<close>

text \<open>
  What happens to a database: a request to write, a request to read, whose datapoints go to a
  callback with a state of its own, a pass of the flusher thread, and the queue of the worker filling and
  draining.  An event says what was asked and what came of it; for a write also whether the system
  has refused no memory to the buffer of the series.
\<close>

datatype db_event =
    Written "(string \<times> string) list" "datapoint list" bool "unit res"
  | ReadAnswered "(string \<times> string) list" "unit res" "datapoint list list"
  | Flushed "nat res"
  | QueueMoved nat

inductive db_step :: "db_params \<Rightarrow> 'db sqlite \<Rightarrow> 'db database \<Rightarrow> db_event \<Rightarrow> 'db database \<Rightarrow> bool"
  for ps :: db_params and sq :: "'db sqlite" where
  step_write: "db_write ps sq labels points st = (res, st') \<Longrightarrow>
      db_step ps sq st (Written labels points (False \<notin> set (memory ps st (series_key labels))) res) st'"
| step_read: "db_read ps labels start_time end_time datapoint_limit prefer_latest junk callback (st, []) = Some (res, (st', batches)) \<Longrightarrow>
      db_step ps sq st (ReadAnswered labels res batches) st'"
| step_flush: "flush_write_buffers (dp_config ps) resort_at st = Some (res, st') \<Longrightarrow> db_step ps sq st (Flushed res) st'"
| step_queue: "db_step ps sq st (QueueMoved n) (st\<lparr>db_world := (db_world st)\<lparr>w_queue := n\<rparr>\<rparr>)"

inductive_cases db_step_cases: "db_step ps sq st event st'"

text \<open>The events of a process since it has opened its database.\<close>

inductive db_run :: "db_params \<Rightarrow> 'db sqlite \<Rightarrow> (string \<Rightarrow> (string set, 'db) prog) \<Rightarrow> db_event list \<Rightarrow> 'db database \<Rightarrow> bool"
  for ps :: db_params and sq :: "'db sqlite" and index :: "string \<Rightarrow> (string set, 'db) prog" where
  opened: "Database ps index dir db s = Inr st \<Longrightarrow> db_run ps sq index [] st"
| stepped: "db_run ps sq index events st \<Longrightarrow> db_step ps sq st event st' \<Longrightarrow> db_run ps sq index (events @ [event]) st'"

text \<open>
  The specification: a bag of datapoints for every key.  A write that succeeds adds the datapoints
  that are not NaN to the bag of the labels, all of them where no memory is refused; one that fails
  adds none.  A read changes no bag.  A pass of the flusher that succeeds empties as many bags as
  it says, of the largest, and leaves none unless it was cut short at a multiple of fifty; one that
  fails has emptied some of the largest and leaves a bag that is not empty.  Nothing else changes.
\<close>

inductive bag_step :: "(string \<Rightarrow> datapoint multiset) \<Rightarrow> db_event \<Rightarrow> (string \<Rightarrow> datapoint multiset) \<Rightarrow> bool" where
  bag_accept: "labels \<noteq> [] \<Longrightarrow> n \<le> length (live_points points) \<Longrightarrow> (mem_ok \<longrightarrow> n = length (live_points points)) \<Longrightarrow>
    key = series_key labels \<Longrightarrow>
    bag_step m (Written labels points mem_ok (Inr ())) (m(key := m key + mset (take n (live_points points))))"
| bag_reject: "bag_step m (Written labels points mem_ok (Inl e)) m"
| bag_read: "bag_step m (ReadAnswered labels res batches) m"
| bag_flush: "bags_flushed m res K \<Longrightarrow> bag_step m (Flushed res) (clear_keys K m)"
| bag_queue: "bag_step m (QueueMoved n) m"

inductive bag_run :: "db_event list \<Rightarrow> (string \<Rightarrow> datapoint multiset) \<Rightarrow> bool" where
  bags_empty: "bag_run [] (\<lambda>key. {#})"
| bags_stepped: "bag_run events m \<Longrightarrow> bag_step m event m' \<Longrightarrow> bag_run (events @ [event]) m'"

lemma db_step_refines:
  assumes "params_ok ps" and "database_ok ps st" and "db_step ps sq st event st'"
  shows "database_ok ps st' \<and> bag_step (contents st) event (contents st')"
  using assms(3)
proof cases
  case (step_write labels points res)
  let ?key = "series_key labels"
  from db_write_effect [OF assms(2,1) step_write(2)] obtain n where
    ok: "database_ok ps st'" and w: "write_effect ps st labels points res n st'" by blast
  show ?thesis
  proof (cases "labels = [] \<or> worker_busy (db_world st)")
    case True
    with w obtain e where "res = Inl e" "contents st' = contents st"
      by (auto simp: write_effect_def intro: contents_cong split: if_splits)
    with ok step_write(1) show ?thesis by (simp add: bag_reject)
  next
    case False
    let ?mem_ok = "False \<notin> set (memory ps st ?key)"
    from False w have res: "res = Inr ()" and n: "n \<le> length (live_points points)" "?mem_ok \<longrightarrow> n = length (live_points points)"
      and buf: "buffered st' = (buffered st)(?key := buffered st ?key @ take n (live_points points))"
      by (auto simp: write_effect_def)
    then have "contents st' = (contents st)(?key := contents st ?key + mset (take n (live_points points)))"
      by (intro ext) (simp add: contents_def)
    with ok step_write(1) res bag_accept [OF _ n refl, of labels "contents st"] False show ?thesis by simp
  qed
next
  case (step_read labels start_time end_time datapoint_limit prefer_latest junk callback res batches)
  from db_read_keeps [OF assms(2,1) step_read(2)] step_read(1) show ?thesis by (simp add: bag_read)
next
  case (step_flush resort_at res)
  from flush_clears [OF assms(2) step_flush(2)] obtain K where
    "database_ok ps st'" "contents st' = clear_keys K (contents st)" "bags_flushed (contents st) res K" by blast
  with step_flush(1) show ?thesis by (simp add: bag_flush)
next
  case (step_queue n)
  with assms(2) show ?thesis by (simp add: bag_queue)
qed

text \<open>
  Claim C3. The database implements the bags of datapoints, event by event.  Whatever is asked of
  it, whatever the flusher thread does and whatever becomes of either, every state a process reaches
  after it has opened its database is well formed (one series for each key, filed under the key of
  its labels with the hash of that key, its write buffer's allocations fitting its count), and the
  events that have led there are a run of the specification from empty bags to what is then in memory.
\<close>

theorem database_refines_bags:
  assumes "params_ok ps" and "db_run ps sq index events st"
  shows "database_ok ps st \<and> bag_run events (contents st)"
  using assms(2)
proof induction
  case (opened dir db s st)
  then have "contents st = (\<lambda>key. {#})" by (simp add: Database_ok contents_def fun_eq_iff)
  with opened show ?case by (simp add: Database_ok bags_empty)
next
  case (stepped events st event st')
  with db_step_refines [OF assms(1), of st sq event st'] show ?case by (blast intro: bags_stepped)
qed

text \<open>A database opened in an empty directory, and its first write.\<close>

lemma demo_open:
  "Database demo_params (\<lambda>dir db. (Inr {}, db)) ''d'' () (demo_world []) = Inr (demo_database [])"
proof -
  have "fs_stat ''d/'' (demo_world []) = Inr DirNode" by code_simp
  from create_directory_fuel_cases(1) [OF this, of 3]
  have "create_directory ''d/'' (demo_world []) = (Inr (), demo_world [])"
    by (simp add: create_directory_def numeral_3_eq_3)
  moreover have "threads_ok demo_params" by (simp add: threads_ok_def demo_params_def)
  ultimately show ?thesis unfolding Database_def start_threads Let_def by (simp add: demo_params_def demo_database_def)
qed

theorem database_refines_bags_witness:
  "\<exists>st. db_run demo_params silent_sqlite (\<lambda>dir db. (Inr {}, db)) [Written [(''app'', ''x'')] [Datapoint 40 0 5] True (Inr ())] st \<and>
    database_ok demo_params st \<and> contents st ''app=x;'' = {#Datapoint 40 0 5#} \<and>
    bag_run [Written [(''app'', ''x'')] [Datapoint 40 0 5] True (Inr ())] (contents st)"
proof -
  let ?labels = "[(''app'', ''x'')]" and ?st = "demo_database []"
  have key: "series_key ?labels = ''app=x;''" by (simp add: series_key_def)
  have ps: "params_ok demo_params" by (simp add: params_ok_def demo_params_def wb_ok_new)
  note open0 = opened [OF demo_open, of silent_sqlite]
  obtain res st where w: "db_write demo_params silent_sqlite ?labels [Datapoint 40 0 5] ?st = (res, st)"
    by (rule prod.exhaust)
  from db_write_effect [OF conjunct1 [OF Database_ok [OF demo_open]] ps w] obtain n where
    n: "write_effect demo_params ?st ?labels [Datapoint 40 0 5] res n st" by blast
  have free: "\<not> worker_busy (db_world ?st)" by (simp add: demo_database_def worker_busy_def demo_world_def)
  have mem: "memory demo_params ?st ''app=x;'' = []"
    by (simp add: memory_def demo_database_def demo_params_def WriteBuffer_def)
  have "\<not> isnan 0" by (simp add: isnan_def dbl_exp_def)
  then have live: "live_points [Datapoint 40 0 5] = [Datapoint 40 0 5]" by (simp add: live_points_def Datapoint_def)
  have "buffered ?st ''app=x;'' = []" by (simp add: buffered_def demo_database_def)
  with n free key mem live have "res = Inr ()" "contents st ''app=x;'' = {#Datapoint 40 0 5#}"
    by (auto simp: write_effect_def contents_def)
  moreover note reach = stepped [OF open0 step_write [OF w]]
  ultimately show ?thesis using database_refines_bags [OF ps reach] reach key mem by auto
qed

end
