(* ===== verification/EndToEnd.thy ===== *)
theory EndToEnd
  imports DatabaseSteps
begin

text \<open>
  From the write service to the read service through the file system: what a client writes to
  an empty database is what a client reads back once the flusher thread has run.
\<close>

section \<open>Writing one series\<close>

text \<open>
  The database after the datapoints of \<open>ops\<close>, one operation after the other, have been written
  to the series made of \<open>labels\<close>, its only one.  The buffer's flag says whether each operation
  was in timestamp order in itself; no memory has been or will be refused to it.
\<close>

definition in_order :: "datapoint list \<Rightarrow> bool" where
  "in_order op \<longleftrightarrow> sorted (map dp_timestamp (live_points op))"

definition holds_ops :: "'db database \<Rightarrow> labels \<Rightarrow> series \<Rightarrow> datapoint list list \<Rightarrow> 'db database \<Rightarrow> bool" where
  "holds_ops st0 labels sr0 ops st \<longleftrightarrow> db_root_dir st = db_root_dir st0 \<and>
     db_world st = db_world st0 \<and> db_num_workers st = db_num_workers st0 \<and>
     (\<exists>sr. db_series st = [(series_key labels, sr)] \<and> sr_dir sr = sr_dir sr0 \<and> sr_labels sr = sr_labels sr0 \<and> wb_ok (sr_buffer sr) \<and>
       False \<notin> set (wb_heap (sr_buffer sr)) \<and> wb_points (sr_buffer sr) = live_points (concat ops) \<and> (wb_sorted (sr_buffer sr) \<longleftrightarrow> list_all in_order ops))"

definition new_params_ok :: "db_params \<Rightarrow> bool" where
  "new_params_ok ps \<longleftrightarrow> params_ok ps \<and> wb_sorted (dp_empty_buffer ps) \<and> False \<notin> set (wb_heap (dp_empty_buffer ps))"

lemma live_points_append: "live_points (xs @ ys) = live_points xs @ live_points ys"
  by (simp add: live_points_def)

lemma db_write_holds:
  assumes "labels \<noteq> []" and "0 < db_num_workers st0" and "\<not> worker_busy (db_world st0)"
    and "get_series ps labels st = (Inr (series_key labels), st1)" and "holds_ops st0 labels sr0 ops st1"
  shows "\<exists>st'. db_write ps sq labels op st = (Inr (), st') \<and> holds_ops st0 labels sr0 (ops @ [op]) st'"
proof -
  let ?key = "series_key labels"
  from assms(5) obtain sr where sr: "db_series st1 = [(?key, sr)]" "sr_dir sr = sr_dir sr0" "sr_labels sr = sr_labels sr0"
    "wb_ok (sr_buffer sr)" "wb_points (sr_buffer sr) = live_points (concat ops)"
    "wb_sorted (sr_buffer sr) \<longleftrightarrow> list_all in_order ops" "False \<notin> set (wb_heap (sr_buffer sr))"
    and st1: "db_root_dir st1 = db_root_dir st0" "db_world st1 = db_world st0" "db_num_workers st1 = db_num_workers st0"
    by (auto simp: holds_ops_def)
  obtain b where b: "wb_append op (sr_buffer sr) = (Inr (), b)" "wb_ok b"
    "wb_points b = wb_points (sr_buffer sr) @ live_points op"
    "wb_sorted b \<longleftrightarrow> wb_sorted (sr_buffer sr) \<and> sorted (map dp_timestamp (live_points op))"
    "False \<notin> set (wb_heap b)"
    by (rule wb_append_granted [OF sr(4,7), of op]) blast
  have worker: "get_worker st1 sr = Inr (sr_keyint sr mod db_num_workers st1)"
    using assms(2) st1(3) by (simp add: get_worker_def)
  have holds: "holds_ops st0 labels sr0 (ops @ [op]) (st1\<lparr>db_series := [(?key, sr\<lparr>sr_buffer := b\<rparr>)]\<rparr>)"
    "holds_ops st0 labels sr0 (ops @ [op]) (st1\<lparr>db_series := [(?key, sr\<lparr>sr_buffer := b\<rparr>)], db_sqlite := db\<rparr>)"
    "holds_ops st0 labels sr0 (ops @ [op]) (st1\<lparr>db_sqlite := db, db_series := [(?key, sr\<lparr>sr_buffer := b, sr_is_indexed := True\<rparr>)]\<rparr>)" for db
    using sr(2,3,5,6) b(2-5) st1 by (simp_all add: holds_ops_def live_points_append in_order_def)
  show ?thesis
  proof (cases "sr_is_indexed sr")
    case True
    with holds(1) show ?thesis using assms(3,4) st1(2) sr(1) worker b(1)
      by (simp add: db_write_def Let_def series_write_def)
  next
    case False
    show ?thesis
    proof (cases rule: index_series_cases [of sq "dp_serialize ps" "sr_labels sr" "sr_keystr sr" "db_sqlite st1"])
      case (1 db)
      with False holds(3) [of db] show ?thesis using assms(3,4) st1(2) sr(1) worker b(1)
        by (simp add: db_write_def Let_def series_write_def)
    next
      case (2 msg db)
      with False holds(2) [of db] show ?thesis using assms(3,4) st1(2) sr(1) worker b(1)
        by (simp add: db_write_def Let_def series_write_def)
    qed
  qed
qed

lemma write_datapoints_holds:
  assumes "labels \<noteq> []" and "0 < db_num_workers st0" and "\<not> worker_busy (db_world st0)"
  shows "get_series ps labels st = (Inr (series_key labels), st1) \<Longrightarrow> holds_ops st0 labels sr0 before st1 \<Longrightarrow> ops \<noteq> [] \<Longrightarrow>
    \<exists>st'. write_datapoints ps sq (map (Pair labels) ops) n st = (Inr (n + length (concat ops)), st') \<and>
      holds_ops st0 labels sr0 (before @ ops) st'"
proof (induction ops arbitrary: n st st1 before)
  case (Cons op ops)
  from db_write_holds [OF assms Cons.prems(1,2)] obtain st' where
    w: "db_write ps sq labels op st = (Inr (), st')" "holds_ops st0 labels sr0 (before @ [op]) st'" by blast
  show ?case
  proof (cases "ops = []")
    case True
    with w show ?thesis by simp
  next
    case False
    from w(2) have "map_of (db_series st') (series_key labels) \<noteq> None" by (auto simp: holds_ops_def)
    then have "get_series ps labels st' = (Inr (series_key labels), st')"
      using series_key_nonempty [OF assms(1)] by (auto simp: get_series_def)
    from Cons.IH [OF this w(2) False, of "n + length op"] w(1) show ?thesis by (auto simp: add.assoc)
  qed
qed simp

lemma get_series_new:
  assumes "new_params_ok ps" and "db_series st = []" and "labels \<noteq> []"
    and "Series (dp_empty_buffer ps) (dp_hash ps) (db_root_dir st) labels (series_key labels) = Inr sr"
  shows "\<exists>st1. get_series ps labels st = (Inr (series_key labels), st1) \<and> holds_ops st labels sr [] st1"
proof -
  from assms(4) have "sr_buffer sr = dp_empty_buffer ps" by (auto simp: Series_def bindE_eq_Inr)
  with assms show ?thesis
    by (simp add: get_series_def series_key_nonempty holds_ops_def new_params_ok_def params_ok_def live_points_def Let_def)
qed

section \<open>Flushing one series\<close>

lemma flush_one_series:
  assumes "db_series st = [(key, sr)]" and "wb_points (sr_buffer sr) \<noteq> []" and "wb_ok (sr_buffer sr)"
    and "flush_buffered_datapoints cfg sr (db_world st) = Some ((Inr (), sr'), s')"
  shows "flush_write_buffers cfg resort_at st = Some (Inr 1, st\<lparr>db_series := [(key, sr')], db_world := s'\<rparr>)"
proof -
  have "series_datapoints_buffered sr \<noteq> 0"
    using assms(2) wb_size_points [OF assms(3)] by (simp add: series_datapoints_buffered_def)
  then show ?thesis using assms(1,4) by (simp add: flush_write_buffers_def flush_order_def)
qed

section \<open>One round\<close>

text \<open>What can be written to one new sparse file: it fits, and no datapoint overlaps another.\<close>

definition fits_one_file :: "config \<Rightarrow> datapoint list \<Rightarrow> bool" where
  "fits_one_file cfg pts \<longleftrightarrow> pts \<noteq> [] \<and> list_all dp_ok pts \<and> disjoint_points pts \<and> one_duration pts \<and>
     list_all (\<lambda>p. 0 \<le> dp_duration p) pts \<and>
     length pts * datapoint_size \<le> min (sparse_file_optimize_size cfg) (sparse_file_max_size cfg)"

lemma fits_one_file_D:
  assumes "fits_one_file cfg pts"
  shows "pts \<noteq> []" and "list_all dp_ok pts" and "disjoint_points pts" and "one_duration pts"
    and "list_all (\<lambda>p. 0 \<le> dp_duration p) pts"
    and "length pts * datapoint_size \<le> min (sparse_file_optimize_size cfg) (sparse_file_max_size cfg)"
  using assms by (simp_all add: fits_one_file_def)

text \<open>
  Before a round, the series made of \<open>labels\<close> is there or can be made, nothing of it is in
  memory and \<open>old\<close> is on disk under \<open>dir\<close>; after a round the series is there and \<open>old\<close> is in one
  file.  Where \<open>single\<close> is set, the directory holds nothing but that file.
\<close>

definition ready :: "db_params \<Rightarrow> labels \<Rightarrow> string \<Rightarrow> bool \<Rightarrow> datapoint list \<Rightarrow> 'db database \<Rightarrow> bool" where
  "ready ps labels dir single old st \<longleftrightarrow> 0 < db_num_workers st \<and> \<not> worker_busy (db_world st) \<and> writes_ok (db_world st) \<and>
     (\<exists>st1 sr. get_series ps labels st = (Inr (series_key labels), st1) \<and> holds_ops st labels sr [] st1 \<and>
        dir_path (sr_dir sr) = dir \<and> stored (db_world st) old (sr_dir sr) \<and>
        (single \<longrightarrow> at_most_one (db_world st) (sr_dir sr)))"

definition settled :: "labels \<Rightarrow> string \<Rightarrow> bool \<Rightarrow> datapoint list \<Rightarrow> 'db database \<Rightarrow> bool" where
  "settled labels dir single old st \<longleftrightarrow> 0 < db_num_workers st \<and> \<not> worker_busy (db_world st) \<and> writes_ok (db_world st) \<and>
     (\<exists>sr. db_series st = [(series_key labels, sr)] \<and> wb_ok (sr_buffer sr) \<and> wb_points (sr_buffer sr) = [] \<and>
        False \<notin> set (wb_heap (sr_buffer sr)) \<and> wb_sorted (sr_buffer sr) \<and> dir_path (sr_dir sr) = dir \<and> in_one_file (db_world st) old (sr_dir sr) \<and>
        (single \<longrightarrow> alone (db_world st) (sr_dir sr)))"

lemma settled_ready:
  assumes "labels \<noteq> []" and "settled labels dir single old st"
  shows "ready ps labels dir single old st"
proof -
  from assms(2) obtain sr where sr: "db_series st = [(series_key labels, sr)]" "wb_ok (sr_buffer sr)" "wb_points (sr_buffer sr) = []"
    "wb_sorted (sr_buffer sr)" "dir_path (sr_dir sr) = dir" "False \<notin> set (wb_heap (sr_buffer sr))"
    and one: "in_one_file (db_world st) old (sr_dir sr)"
    and single: "single \<longrightarrow> alone (db_world st) (sr_dir sr)" by (auto simp: settled_def)
  have "get_series ps labels st = (Inr (series_key labels), st)"
    using sr(1) series_key_nonempty [OF assms(1)] by (simp add: get_series_def)
  moreover have "holds_ops st labels sr [] st" using sr by (simp add: holds_ops_def live_points_def)
  moreover have "single \<longrightarrow> at_most_one (db_world st) (sr_dir sr)"
    using single one alone_at_most_one by (auto simp: in_one_file_def)
  ultimately show ?thesis using assms(2) sr(5) in_one_file_stored [OF one]
    by (auto simp: settled_def ready_def)
qed

lemma in_one_file_only:
  assumes "in_one_file s old (sr_dir sr)" and "fits_one_file cfg old" and "config_ok cfg"
    and "wb_ok (sr_buffer sr)" and "wb_points (sr_buffer sr) = []" and "wb_sorted (sr_buffer sr)"
  shows "only_in_file cfg s old sr"
proof -
  note fits = fits_one_file_D [OF assms(2)]
  have "sparse_contents cfg (enc_all dp_encode old) = old" using fits(2,6) by (intro sparse_contents_encoded) simp_all
  moreover have "wb_size (sr_buffer sr) = 0" using wb_size_points [OF assms(4)] assms(5) by simp
  ultimately show ?thesis
    using assms(1,3,6) fits(3-5) by (auto simp: only_in_file_def in_one_file_def wb_is_sorted_def list_all_iff)
qed

lemma settled_readable:
  assumes "settled labels dir single old st" and "labels \<noteq> []" and "fits_one_file (dp_config ps) old" and "config_ok (dp_config ps)"
  shows "readable ps labels old st"
proof -
  from assms(1) obtain sr where sr: "db_series st = [(series_key labels, sr)]" "wb_ok (sr_buffer sr)" "wb_points (sr_buffer sr) = []"
    "wb_sorted (sr_buffer sr)" "in_one_file (db_world st) old (sr_dir sr)" by (auto simp: settled_def)
  from in_one_file_only [OF sr(5) assms(3,4) sr(2-4)] have "only_in_file (dp_config ps) (db_world st) old sr" .
  moreover have "scanned (db_world st) (sr_dir sr) (sr_dir sr)" using sr(5) by (simp add: scanned_def in_one_file_def)
  moreover have "get_series ps labels st = (Inr (series_key labels), st)"
    using sr(1) series_key_nonempty [OF assms(2)] by (simp add: get_series_def)
  ultimately show ?thesis using assms(1) sr(1) by (auto simp: readable_def settled_def)
qed

lemma settled_buffered: "settled labels dir single old st \<Longrightarrow> buffered st = (\<lambda>key. [])"
  by (auto simp: settled_def buffered_def)

lemma one_round:
  assumes "labels \<noteq> []" and "ready ps labels dir single old st" and "pts = live_points (concat ops)" and "pts \<noteq> []"
    and "list_all in_order ops \<longrightarrow> in_order (concat ops)"
    and "length (old @ pts) * datapoint_size \<le> min (sparse_file_optimize_size (dp_config ps)) (sparse_file_max_size (dp_config ps))"
    and "sparse_file_max_size (dp_config ps) div datapoint_size < 2147483647" and "list_all dp_ok pts" and "none_earlier old pts"
  shows "\<exists>st1 st2. write_datapoints ps sq (map (Pair labels) ops) 0 st = (Inr (length (concat ops)), st1) \<and>
    flush_write_buffers (dp_config ps) resort_at st1 = Some (Inr 1, st2) \<and>
    settled labels dir single (old @ sort_key dp_timestamp pts) st2 \<and> grown (db_world st) (db_world st2)"
proof -
  let ?key = "series_key labels" and ?cfg = "dp_config ps"
  from assms(3,4) have "ops \<noteq> []" by (auto simp: live_points_def)
  from assms(2) obtain st0 sr0 where free: "0 < db_num_workers st" "\<not> worker_busy (db_world st)"
    and granted: "writes_ok (db_world st)"
    and new: "get_series ps labels st = (Inr ?key, st0)" "holds_ops st labels sr0 [] st0"
    and disk: "stored (db_world st) old (sr_dir sr0)" "dir_path (sr_dir sr0) = dir"
      "single \<longrightarrow> at_most_one (db_world st) (sr_dir sr0)" by (auto simp: ready_def)
  from write_datapoints_holds [OF assms(1) free new \<open>ops \<noteq> []\<close>, of sq 0]
  obtain st1 where wr: "write_datapoints ps sq (map (Pair labels) ops) 0 st = (Inr (length (concat ops)), st1)"
    and st1: "holds_ops st labels sr0 ops st1" by auto
  from st1 obtain sr where sr: "db_series st1 = [(?key, sr)]" "sr_dir sr = sr_dir sr0" "wb_ok (sr_buffer sr)"
    "wb_points (sr_buffer sr) = pts" "wb_sorted_ok (sr_buffer sr)" "False \<notin> set (wb_heap (sr_buffer sr))"
    and world: "db_world st1 = db_world st" "db_num_workers st1 = db_num_workers st"
    using assms(3,5) by (auto simp: holds_ops_def wb_sorted_ok_def in_order_def)
  have "stored (db_world st1) old (sr_dir sr)" using disk(1) sr(2) world(1) by simp
  from series_flush_stored [OF this sr(3,5) sr(4) [symmetric] assms(4,6-9)] granted world(1) obtain d' s' b where
    fl: "flush_buffered_datapoints ?cfg sr (db_world st1) = Some ((Inr (), sr\<lparr>sr_dir := d', sr_buffer := wb_clear b\<rparr>), s')"
    and b: "in_one_file s' (old @ sort_key dp_timestamp pts) d'" "wb_ok b" "dir_path d' = dir_path (sr_dir sr)"
      "grown (db_world st1) s'" "at_most_one (db_world st1) (sr_dir sr) \<Longrightarrow> alone s' d'"
      "wb_heap b = wb_heap (sr_buffer sr)"
    by metis
  have "wb_points (sr_buffer sr) \<noteq> []" using sr(4) assms(4) by simp
  note flush_one_series [OF sr(1) this sr(3) fl, of resort_at]
  moreover have "settled labels dir single (old @ sort_key dp_timestamp pts)
      (st1\<lparr>db_series := [(?key, sr\<lparr>sr_dir := d', sr_buffer := wb_clear b\<rparr>)], db_world := s'\<rparr>)"
    using free world b disk sr(2,6) granted grown_busy [OF b(4)] grown_writes [OF b(4)] wb_ok_clear [OF b(2)] wb_points_clear [of b]
    by (simp add: settled_def wb_clear_def wb_points_def)
  moreover have "grown (db_world st) s'" using b(4) world(1) by simp
  ultimately show ?thesis using wr by fastforce
qed

section \<open>Rounds of writes and flushes\<close>

text \<open>
  Each round is a stream of write operations for one series followed by a pass of the flusher
  thread.  The result lists what the service has counted and how many series were flushed.
\<close>

primrec write_flush_rounds ::
  "db_params \<Rightarrow> 'db sqlite \<Rightarrow> (nat \<Rightarrow> bool) \<Rightarrow> labels \<Rightarrow> datapoint list list list \<Rightarrow> 'db database \<Rightarrow>
     ((nat \<times> nat) list res \<times> 'db database) option" where
  "write_flush_rounds ps sq resort_at labels [] st = Some (Inr [], st)"
| "write_flush_rounds ps sq resort_at labels (ops # rounds) st =
     (case write_datapoints ps sq (map (Pair labels) ops) 0 st of
       (Inl e, st1) \<Rightarrow> Some (Inl e, st1)
     | (Inr written, st1) \<Rightarrow>
         (case flush_write_buffers (dp_config ps) resort_at st1 of
           None \<Rightarrow> None
         | Some (Inl e, st2) \<Rightarrow> Some (Inl e, st2)
         | Some (Inr flushed, st2) \<Rightarrow>
             (case write_flush_rounds ps sq resort_at labels rounds st2 of
               None \<Rightarrow> None
             | Some (r, st3) \<Rightarrow> Some (bindE r (\<lambda>counts. Inr ((written, flushed) # counts)), st3))))"

text \<open>What is on disk after the rounds, in the order of the file, and what was written.\<close>

definition flushed_points :: "datapoint list list list \<Rightarrow> datapoint list" where
  "flushed_points rounds = concat (map (\<lambda>ops. sort_key dp_timestamp (live_points (concat ops))) rounds)"

definition written_points :: "datapoint list list list \<Rightarrow> datapoint list" where
  "written_points rounds = concat (map (\<lambda>ops. live_points (concat ops)) rounds)"

lemma flushed_written:
  "length (flushed_points rounds) = length (written_points rounds)"
  "set (flushed_points rounds) = set (written_points rounds)"
  "filter (\<lambda>p. dp_timestamp p = t) (flushed_points rounds) = filter (\<lambda>p. dp_timestamp p = t) (written_points rounds)"
  by (induction rounds) (simp_all add: flushed_points_def written_points_def sort_key_stable)

lemma newest_flushed: "newest_in_range lo hi (flushed_points rounds) = newest_in_range lo hi (written_points rounds)"
  by (simp add: newest_in_range_def flushed_written)

lemma fits_one_file_flushed: "fits_one_file cfg (written_points rounds) \<Longrightarrow> fits_one_file cfg (flushed_points rounds)"
  using disjoint_points_subset [of "written_points rounds" "flushed_points rounds"]
    one_duration_subset [of "written_points rounds" "flushed_points rounds"]
    flushed_written(1,2) [of rounds] length_0_conv [of "flushed_points rounds"]
  by (auto simp: fits_one_file_def list_all_iff)

text \<open>A round the flusher can keep up with: something to flush, and order within each operation is order among them.\<close>

definition round_ok :: "datapoint list list \<Rightarrow> bool" where
  "round_ok ops \<longleftrightarrow> live_points (concat ops) \<noteq> [] \<and> (list_all in_order ops \<longrightarrow> in_order (concat ops))"

lemma none_earlier_append:
  "old \<noteq> [] \<Longrightarrow> none_earlier old (ps @ qs) \<Longrightarrow> none_earlier old ps \<and> none_earlier (old @ xs) qs"
  by (auto simp: none_earlier_def)

lemma rounds_settled:
  assumes "labels \<noteq> []" and "sparse_file_max_size (dp_config ps) div datapoint_size < 2147483647" and "old \<noteq> []"
    and "settled labels dir single old st" and "list_all round_ok rounds" and "none_earlier old (written_points rounds)"
    and "list_all dp_ok (written_points rounds)"
    and "length (old @ written_points rounds) * datapoint_size \<le>
      min (sparse_file_optimize_size (dp_config ps)) (sparse_file_max_size (dp_config ps))"
  shows "\<exists>st'. write_flush_rounds ps sq resort_at labels rounds st =
      Some (Inr (map (\<lambda>ops. (length (concat ops), 1)) rounds), st') \<and>
    settled labels dir single (old @ flushed_points rounds) st' \<and> grown (db_world st) (db_world st')"
  using assms(3-8)
proof (induction rounds arbitrary: old st)
  case Nil
  then show ?case by (simp add: flushed_points_def)
next
  case (Cons ops rounds)
  let ?pts = "live_points (concat ops)"
  have w: "written_points (ops # rounds) = ?pts @ written_points rounds" by (simp add: written_points_def)
  note earlier = none_earlier_append [OF Cons.prems(1) Cons.prems(4) [unfolded w]]
  have len: "length (old @ ?pts) * datapoint_size \<le> min (sparse_file_optimize_size (dp_config ps)) (sparse_file_max_size (dp_config ps))"
    using Cons.prems(6) unfolding w datapoint_size_def by simp
  have r: "?pts \<noteq> []" "list_all in_order ops \<longrightarrow> in_order (concat ops)" "list_all dp_ok ?pts"
    using Cons.prems(3,5) by (simp_all add: w round_ok_def)
  from one_round [OF assms(1) settled_ready [OF assms(1) Cons.prems(2)] refl r(1,2) len assms(2) r(3) earlier [THEN conjunct1]]
  obtain st1 st2 where run: "write_datapoints ps sq (map (Pair labels) ops) 0 st = (Inr (length (concat ops)), st1)"
    "flush_write_buffers (dp_config ps) resort_at st1 = Some (Inr 1, st2)"
    and st2: "settled labels dir single (old @ sort_key dp_timestamp ?pts) st2" "grown (db_world st) (db_world st2)" by blast
  have "list_all round_ok rounds" "list_all dp_ok (written_points rounds)" "old @ sort_key dp_timestamp ?pts \<noteq> []"
    "length ((old @ sort_key dp_timestamp ?pts) @ written_points rounds) * datapoint_size \<le>
      min (sparse_file_optimize_size (dp_config ps)) (sparse_file_max_size (dp_config ps))"
    using Cons.prems by (simp_all add: w add.assoc)
  from Cons.IH [OF this(3) st2(1) this(1) earlier [THEN conjunct2] this(2,4)] run grown_trans [OF st2(2)] show ?case
    by (auto simp: flushed_points_def)
qed

text \<open>
  The same from the start, where nothing need be on disk yet: nothing is earlier than the
  earliest datapoint on disk, or of the first round if there is none.
\<close>

fun starts_first :: "datapoint list \<Rightarrow> datapoint list list list \<Rightarrow> bool" where
  "starts_first old [] \<longleftrightarrow> True"
| "starts_first old (ops # rounds) \<longleftrightarrow>
     (if old = [] then none_earlier (live_points (concat ops)) (written_points rounds)
      else none_earlier old (written_points (ops # rounds)))"

lemma rounds_ready:
  assumes "labels \<noteq> []" and "sparse_file_max_size (dp_config ps) div datapoint_size < 2147483647"
    and "ready ps labels dir single old st" and "list_all round_ok rounds" and "rounds \<noteq> []" and "starts_first old rounds"
    and "list_all dp_ok (written_points rounds)"
    and "length (old @ written_points rounds) * datapoint_size \<le>
      min (sparse_file_optimize_size (dp_config ps)) (sparse_file_max_size (dp_config ps))"
  shows "\<exists>st'. write_flush_rounds ps sq resort_at labels rounds st =
      Some (Inr (map (\<lambda>ops. (length (concat ops), 1)) rounds), st') \<and>
    settled labels dir single (old @ flushed_points rounds) st' \<and> grown (db_world st) (db_world st')"
proof -
  from assms(5) obtain ops rest where rounds: "rounds = ops # rest" by (cases rounds) auto
  let ?pts = "live_points (concat ops)" and ?cfg = "dp_config ps"
  let ?old = "old @ sort_key dp_timestamp ?pts"
  have w: "written_points rounds = ?pts @ written_points rest" by (simp add: rounds written_points_def)
  have r: "?pts \<noteq> []" "list_all in_order ops \<longrightarrow> in_order (concat ops)" "list_all dp_ok ?pts" "list_all round_ok rest"
    using assms(4) assms(7) [unfolded w] by (simp_all add: rounds round_ok_def)
  then have ne: "sort_key dp_timestamp ?pts \<noteq> []" using length_0_conv [of "sort_key dp_timestamp ?pts"] by simp
  have earlier: "none_earlier old ?pts" "none_earlier ?old (written_points rest)"
    using assms(6) r(1) by (auto simp: rounds none_earlier_def written_points_def split: if_splits)
  have len: "length (old @ ?pts) * datapoint_size \<le> min (sparse_file_optimize_size ?cfg) (sparse_file_max_size ?cfg)"
    using assms(8) unfolding w datapoint_size_def by simp
  from one_round [OF assms(1,3) refl r(1,2) len assms(2) r(3) earlier(1)]
  obtain st1 st2 where run: "write_datapoints ps sq (map (Pair labels) ops) 0 st = (Inr (length (concat ops)), st1)"
    "flush_write_buffers ?cfg resort_at st1 = Some (Inr 1, st2)"
    and st2: "settled labels dir single ?old st2" "grown (db_world st) (db_world st2)" by blast
  have rest: "?old \<noteq> []" "list_all dp_ok (written_points rest)"
    "length (?old @ written_points rest) * datapoint_size \<le> min (sparse_file_optimize_size ?cfg) (sparse_file_max_size ?cfg)"
    using assms(7,8) ne by (simp_all add: w)
  obtain st3 where "write_flush_rounds ps sq resort_at labels rest st2 = Some (Inr (map (\<lambda>ops. (length (concat ops), 1)) rest), st3)"
    "settled labels dir single (?old @ flushed_points rest) st3" "grown (db_world st2) (db_world st3)"
    using rounds_settled [OF assms(1,2) rest(1) st2(1) r(4) earlier(2) rest(2,3)] by blast
  then show ?thesis using run grown_trans [OF st2(2)] by (simp add: rounds flushed_points_def)
qed

section \<open>From client to client\<close>

text \<open>
  Claim C1. From client to client: some rounds, each a stream of write requests for one
  series followed by a pass of the flusher thread, on a database that has no series yet, and then
  a read request for that series.  The write service accepts every stream whole; every pass
  flushes the one series and leaves nothing in memory; the read service answers OK and streams
  exactly the newest datapoint of every timestamp in the range, in order.

  The scope: all datapoints of all rounds together fit one sparse file that is not yet due for the
  optimiser (\<open>fits_one_file\<close>: by default 4096 bytes, 170 datapoints), none reaches into a later one,
  those of one timestamp have one duration, and none is earlier than the earliest of the first round.
  Needed are also a free worker, room for the new file, memory for the buffer, no write the
  kernel fails (it may interrupt writes or take them in parts), and in each round
  operations that are in order among each other wherever each is in order in itself, since that
  is all the buffer keeps track of.  Outside of that scope there are more files than one, and with three or more a
  request can hang.
\<close>

theorem written_flushed_read_back:
  assumes "new_params_ok ps" and "config_ok (dp_config ps)" and "sparse_file_max_size (dp_config ps) div datapoint_size < 2147483647"
    and "0 < read_buffer_size (dp_config ps)" and "0 < db_num_workers st" and "\<not> worker_busy (db_world st)"
    and "db_series st = []" and "labels \<noteq> []"
    and "Series (dp_empty_buffer ps) (dp_hash ps) (db_root_dir st) labels (series_key labels) = Inr sr0"
    and "room_for (sr_dir sr0) (db_world st)" and "list_all round_ok (ops # rounds)"
    and "none_earlier (live_points (concat ops)) (written_points rounds)"
    and "fits_one_file (dp_config ps) (written_points (ops # rounds))" and "rq_selector rq = ListSelector [labels]"
    and "writes_ok (db_world st)"
  shows "\<exists>st1 st2 results.
    write_flush_rounds ps sq resort_at labels (ops # rounds) st =
      Some (Inr (map (\<lambda>ops. (length (concat ops), 1)) (ops # rounds)), st1) \<and>
    buffered st1 = (\<lambda>key. []) \<and>
    read_datapoints ps sq batch_size parse rq junk st1 = Some (Inr OkStatus, (st2, results)) \<and>
    list_all (\<lambda>r. fst r = labels \<and> snd r \<noteq> []) results \<and>
    concat (map snd results) =
      newest_in_range (rq_start_time rq) (rq_end_time rq) (written_points (ops # rounds))"
proof -
  note fits = fits_one_file_D [OF assms(13)]
  obtain st0 where "get_series ps labels st = (Inr (series_key labels), st0)" "holds_ops st labels sr0 [] st0"
    using get_series_new [OF assms(1,7-9)] by blast
  moreover have "stored (db_world st) [] (sr_dir sr0)" using assms(10) by (simp add: stored_def)
  ultimately have start: "ready ps labels (dir_path (sr_dir sr0)) False [] st" using assms(5,6,15) by (auto simp: ready_def)
  have first: "starts_first [] (ops # rounds)" using assms(12) by simp
  obtain st1 where
    run: "write_flush_rounds ps sq resort_at labels (ops # rounds) st = Some (Inr (map (\<lambda>ops. (length (concat ops), 1)) (ops # rounds)), st1)"
    and settled: "settled labels (dir_path (sr_dir sr0)) False (flushed_points (ops # rounds)) st1"
    using rounds_ready [OF assms(8,3) start assms(11) list.distinct(2) first fits(2)] fits(6) by fastforce
  from read_datapoints_readable [OF settled_readable [OF settled assms(8) fits_one_file_flushed [OF assms(13)] assms(2)] assms(4,14)]
  show ?thesis using run settled_buffered [OF settled] by (simp add: newest_flushed)
qed

text \<open>A database without series, in whose directory there is room for the files of one.\<close>

definition fresh_dir :: string where
  "fresh_dir = ''d/datapoints/0000/000000000000''"

definition fresh_database :: "unit database" where
  "fresh_database = (demo_database [])\<lparr>db_world := (demo_world [])\<lparr>fs_dirs := [fresh_dir, ''d'']\<rparr>\<rparr>"

definition fresh_series :: series where
  "fresh_series = \<lparr>sr_labels = [(''host'', ''a'')], sr_keystr = ''host=a;'', sr_keyint = 0, sr_is_indexed = False,
     sr_buffer = WriteBuffer 4096 1 (Datapoint 0 0 0) [], sr_dir = \<lparr>dir_path = fresh_dir, dir_filenames_read = False, dir_files = []\<rparr>\<rparr>"

lemma fresh_directory: "series_init ''d/'' 0 = Inr (sr_dir fresh_series)"
  by code_simp

lemma fresh_database_room:
  "db_series fresh_database = []" "0 < db_num_workers fresh_database" "\<not> worker_busy (db_world fresh_database)"
  "Series (dp_empty_buffer one_chunk_params) (dp_hash one_chunk_params) (db_root_dir fresh_database) [(''host'', ''a'')]
     (series_key [(''host'', ''a'')]) = Inr fresh_series"
  "room_for (sr_dir fresh_series) (db_world fresh_database)"
proof -
  show "db_series fresh_database = []" "0 < db_num_workers fresh_database" "\<not> worker_busy (db_world fresh_database)"
    by (simp_all add: fresh_database_def demo_database_def worker_busy_def demo_world_def)
  show "Series (dp_empty_buffer one_chunk_params) (dp_hash one_chunk_params) (db_root_dir fresh_database) [(''host'', ''a'')]
     (series_key [(''host'', ''a'')]) = Inr fresh_series"
    using fresh_directory
    by (simp add: Series_def fresh_database_def demo_database_def one_chunk_params_def demo_params_def fresh_series_def series_key_def)
  have stat: "fs_stat fresh_dir (db_world fresh_database) = Inr DirNode" by code_simp
  from create_directory_fuel_cases(1) [OF this]
  have made: "create_directory fresh_dir (db_world fresh_database) = (Inr (), db_world fresh_database)"
    by (simp add: create_directory_def del: create_directory_fuel.simps)
  have "leaf_dir fresh_dir (db_world fresh_database)" by code_simp
  with made show "room_for (sr_dir fresh_series) (db_world fresh_database)"
    by (simp add: room_for_def fresh_series_def dir_entries_def fresh_database_def demo_world_def)
qed

lemma fresh_database_writes: "writes_ok (db_world fresh_database)"
  by (simp add: writes_ok_def fresh_database_def demo_world_def)

theorem written_flushed_read_back_witness:
  "\<exists>st1 st2 results.
    write_flush_rounds one_chunk_params silent_sqlite (\<lambda>k. False) [(''host'', ''a'')]
      [[[Datapoint 10 1 5, Datapoint 20 2 5]], [[Datapoint 20 3 5]]] fresh_database = Some (Inr [(2, 1), (1, 1)], st1) \<and>
    read_datapoints one_chunk_params silent_sqlite 1024 (\<lambda>row. None) demo_request (Datapoint 0 0 0) st1 =
      Some (Inr OkStatus, (st2, results)) \<and>
    concat (map snd results) = [Datapoint 10 1 5, Datapoint 20 3 5]"
proof -
  let ?op = "[[Datapoint 10 1 5, Datapoint 20 2 5]]" and ?rounds = "[[[Datapoint 20 3 5]]]" and ?ps = one_chunk_params
  let ?pts = "[Datapoint 10 1 5, Datapoint 20 2 5, Datapoint 20 3 5]"
  have "wb_sorted (WriteBuffer 4096 1 (Datapoint 0 0 0) [])" "wb_heap (WriteBuffer 4096 1 (Datapoint 0 0 0) []) = []"
    by (simp_all add: WriteBuffer_def)
  then have ps: "new_params_ok ?ps"
    by (simp add: new_params_ok_def params_ok_def one_chunk_params_def demo_params_def wb_ok_new)
  have sizes: "sparse_file_max_size (dp_config ?ps) = 4194304" "sparse_file_optimize_size (dp_config ?ps) = 4096"
    "read_buffer_size (dp_config ?ps) = 1"
    by (simp_all add: one_chunk_params_def demo_params_def demo_config_def default_config_def)
  have conf: "config_ok (dp_config ?ps)" "sparse_file_max_size (dp_config ?ps) div datapoint_size < 2147483647"
    "0 < read_buffer_size (dp_config ?ps)"
    unfolding config_ok_def sizes datapoint_size_def by simp_all
  have "\<not> isnan 1" "\<not> isnan 2" "\<not> isnan 3" by (simp_all add: isnan_def dbl_exp_def)
  then have live: "written_points (?op # ?rounds) = ?pts" "list_all round_ok (?op # ?rounds)"
    "none_earlier (live_points (concat ?op)) (written_points ?rounds)"
    by (simp_all add: written_points_def live_points_def round_ok_def in_order_def none_earlier_def Datapoint_def)
  have pts: "list_all dp_ok ?pts" "disjoint_points ?pts" "one_duration ?pts" "list_all (\<lambda>p. 0 \<le> dp_duration p) ?pts"
    "newest_in_range 0 100 ?pts = [Datapoint 10 1 5, Datapoint 20 3 5]" by code_simp+
  then have fits: "fits_one_file (dp_config ?ps) (written_points (?op # ?rounds))"
    unfolding live(1) by (simp add: fits_one_file_def sizes datapoint_size_def)
  have rq: "rq_selector demo_request = ListSelector [[(''host'', ''a'')]]" "rq_start_time demo_request = 0"
    "rq_end_time demo_request = 100" by (simp_all add: demo_request_def)
  note room = fresh_database_room fresh_database_writes
  have ne: "[(''host'', ''a'')] \<noteq> []" by simp
  from written_flushed_read_back [OF ps conf(1-3) room(2,3,1) ne room(4,5) live(2,3) fits rq(1) room(6),
      of silent_sqlite "\<lambda>k. False" 1024 "\<lambda>row. None" "Datapoint 0 0 0"]
  show ?thesis unfolding rq live(1) pts(5) by (simp add: numeral_2_eq_2) blast
qed

end
