(* ===== verification/ManyFiles.thy ===== *)
theory ManyFiles
  imports ChunkedRead "HOL-Library.Multiset"
begin

text \<open>
  A series over several sparse files: what a read of its directory returns, and that a new
  process finds the files again.
\<close>

section \<open>Several files\<close>

text \<open>A file on disk that holds the datapoints beside it, within the range of its name.\<close>

definition file_holds :: "config \<Rightarrow> string \<Rightarrow> 'a posix_scheme \<Rightarrow> sparse_file \<times> datapoint list \<Rightarrow> bool" where
  "file_holds cfg dir s fp \<longleftrightarrow>
     (\<exists>bytes. file_at (sparse_get_path dir (fst fp)) s = Some bytes \<and> sparse_contents cfg bytes = snd fp) \<and>
     min_timestamp (fst fp) \<le> max_timestamp (fst fp) \<and>
     list_all (\<lambda>p. min_timestamp (fst fp) \<le> dp_timestamp p \<and> dp_timestamp p \<le> max_timestamp (fst fp)) (snd fp)"

text \<open>Each file ends before the next begins.\<close>

definition files_apart :: "(sparse_file \<times> datapoint list) list \<Rightarrow> bool" where
  "files_apart = sorted_wrt (\<lambda>x y. max_timestamp (fst x) < min_timestamp (fst y))"

definition all_points :: "(sparse_file \<times> datapoint list) list \<Rightarrow> datapoint list" where
  "all_points fps = concat (map snd fps)"

lemma all_points_simps [simp]:
  "all_points [] = []" "all_points (fp # fps) = snd fp @ all_points fps" "all_points (xs @ ys) = all_points xs @ all_points ys"
  by (simp_all add: all_points_def)

lemma newest_cong:
  "(\<And>p. p \<in> set pts \<Longrightarrow> lo \<le> dp_timestamp p \<and> dp_timestamp p < hi \<longleftrightarrow> lo' \<le> dp_timestamp p \<and> dp_timestamp p < hi') \<Longrightarrow>
    newest_in_range lo hi pts = newest_in_range lo' hi' pts"
  unfolding newest_in_range_def by (simp cong: filter_cong)

lemma newest_none:
  "(\<And>p. p \<in> set pts \<Longrightarrow> \<not> (lo \<le> dp_timestamp p \<and> dp_timestamp p < hi)) \<Longrightarrow> newest_in_range lo hi pts = []"
  by (auto simp: newest_in_range_def filter_empty_conv)

lemma sorted_list_of_set_append:
  assumes "finite A" and "finite B" and "\<And>a b. a \<in> A \<Longrightarrow> b \<in> B \<Longrightarrow> a < (b :: int)"
  shows "sorted_list_of_set (A \<union> B) = sorted_list_of_set A @ sorted_list_of_set B"
  using assms by (intro sorted_distinct_set_unique) (auto simp: sorted_append intro: less_imp_le)

lemma newest_append:
  assumes "\<And>p q. p \<in> set xs \<Longrightarrow> q \<in> set ys \<Longrightarrow> dp_timestamp p < dp_timestamp q"
  shows "newest_in_range lo hi (xs @ ys) = newest_in_range lo hi xs @ newest_in_range lo hi ys"
proof -
  let ?R = "\<lambda>p. lo \<le> dp_timestamp p \<and> dp_timestamp p < hi"
  have "sorted_list_of_set (dp_timestamp ` set (filter ?R xs) \<union> dp_timestamp ` set (filter ?R ys)) =
      sorted_list_of_set (dp_timestamp ` set (filter ?R xs)) @ sorted_list_of_set (dp_timestamp ` set (filter ?R ys))"
    using assms by (intro sorted_list_of_set_append) auto
  moreover have "filter (\<lambda>q. dp_timestamp q = dp_timestamp p) ys = []" if "p \<in> set xs" for p
    using assms [OF that] by (fastforce simp: filter_empty_conv)
  moreover have "filter (\<lambda>q. dp_timestamp q = dp_timestamp p) xs = []" if "p \<in> set ys" for p
    using assms [OF _ that] by (fastforce simp: filter_empty_conv)
  ultimately show ?thesis by (simp add: newest_in_range_def image_Un)
qed

lemma files_apart_points:
  assumes "files_apart (xs @ ys)" and "list_all (file_holds cfg dir s) (xs @ ys)"
    and "p \<in> set (all_points xs)" and "q \<in> set (all_points ys)"
  shows "dp_timestamp p < dp_timestamp q"
proof -
  from assms(3,4) obtain x y where "x \<in> set xs" "p \<in> set (snd x)" "y \<in> set ys" "q \<in> set (snd y)"
    by (auto simp: all_points_def)
  moreover from this assms(1) have "max_timestamp (fst x) < min_timestamp (fst y)"
    by (auto simp: files_apart_def sorted_wrt_append)
  moreover from calculation assms(2) have "dp_timestamp p \<le> max_timestamp (fst x)" "min_timestamp (fst y) \<le> dp_timestamp q"
    by (auto simp: file_holds_def list_all_iff)
  ultimately show ?thesis by simp
qed

section \<open>Reading them\<close>

text \<open>One file: what it adds, and where the read stands afterwards.\<close>

lemma read_one_of_files:
  assumes "config_ok cfg" and "leaf_dir dir s" and "file_holds cfg dir s fp"
    and "disjoint_points (snd fp)" and "one_duration (snd fp)" and "ro_ok r"
  obtains r' where "af_read cfg dir (Sparse (fst fp)) s r = (Inr (), r')" and "ro_ok r'" and "tracks r r'"
    and "ro_contents r' = ro_contents r @
      take (ro_space_left r) (newest_in_range (ro_next_time r) (ro_end_time r) (snd fp))"
proof -
  from assms(3) obtain bytes where bytes: "file_at (sparse_get_path dir (fst fp)) s = Some bytes"
    "sparse_contents cfg bytes = snd fp" by (auto simp: file_holds_def)
  have stat: "fs_stat (sparse_get_path dir (fst fp)) s = Inr (RegNode bytes)"
    by (rule fs_stat_sparse [OF assms(2) bytes(1)])
  obtain r' where r': "sparse_read cfg dir (fst fp) s r = (Inr (), r')" "ro_ok r'"
    "ro_contents r' = ro_contents r @
      take (ro_space_left r) (newest_in_range (ro_next_time r) (ro_end_time r) (snd fp))"
    using sparse_read_newest [OF assms(1) stat assms(6)] assms(4,5) bytes(2) by metis
  show ?thesis
    by (rule that [of r']) (use r' sparse_read_tracks [OF r'(1)] in \<open>auto simp: af_read_def\<close>)
qed

lemma tracks_trans:
  assumes "tracks a b" and "tracks b c" shows "tracks a c"
proof -
  from assms obtain qs rs where "same_request a b" "same_request b c"
    "ro_contents b = ro_contents a @ qs" "ro_next_time b = (if qs = [] then ro_next_time a else wrap64 (dp_next (last qs)))"
    "ro_contents c = ro_contents b @ rs" "ro_next_time c = (if rs = [] then ro_next_time b else wrap64 (dp_next (last rs)))"
    by (auto simp: tracks_def)
  then show ?thesis
    unfolding tracks_def by (intro conjI exI [of _ "qs @ rs"]) (auto intro: same_request_trans)
qed

text \<open>Where nothing of the remaining files is lost by what has been read.\<close>

lemma newest_after:
  assumes "ro_next_time r' = (if qs = [] then ro_next_time r else wrap64 (dp_next (last qs)))" and "set qs \<subseteq> set pts"
    and "disjoint_points (pts @ rest)" and "\<And>p q. p \<in> set pts \<Longrightarrow> q \<in> set rest \<Longrightarrow> dp_timestamp p < dp_timestamp q"
    and "\<forall>q \<in> set qs. ro_next_time r \<le> dp_timestamp q"
  shows "newest_in_range (ro_next_time r') hi rest = newest_in_range (ro_next_time r) hi rest"
proof (cases "qs = []")
  case False
  then have l: "last qs \<in> set pts" "ro_next_time r \<le> dp_timestamp (last qs)" using assms(2,5) by auto
  with assms(3) have "i64_ok (dp_next (last qs))" "\<forall>q \<in> set rest. dp_next (last qs) \<le> dp_timestamp q"
    using assms(4) by (auto simp: disjoint_points_def list_all_iff)
  with False assms(1,4) l show ?thesis by (intro newest_cong) (fastforce simp: wrap64_id)
qed (simp add: assms(1))

lemma dir_read_loop_files:
  assumes "config_ok cfg" and "leaf_dir dir s" and "list_all (file_holds cfg dir s) fps" and "files_apart fps"
    and "disjoint_points (all_points fps)" and "one_duration (all_points fps)" and "ro_ok r"
  shows "\<exists>r'. dir_read_loop cfg dir s (map (\<lambda>fp. Sparse (fst fp)) fps) r = (Inr (), r') \<and> ro_ok r' \<and> tracks r r' \<and>
    ro_contents r' = ro_contents r @
      take (ro_space_left r) (newest_in_range (ro_next_time r) (ro_end_time r) (all_points fps))"
  using assms(3-)
proof (induction fps arbitrary: r)
  case Nil
  then show ?case by (simp add: tracks_refl newest_in_range_def)
next
  case (Cons fp fps)
  let ?lo = "ro_next_time r" and ?hi = "ro_end_time r"
  have rest: "list_all (file_holds cfg dir s) fps" "files_apart fps" "disjoint_points (all_points fps)"
    "one_duration (all_points fps)" "disjoint_points (snd fp)" "one_duration (snd fp)" "file_holds cfg dir s fp"
    using Cons.prems(1,2) disjoint_points_subset [OF Cons.prems(3)] one_duration_subset [OF Cons.prems(4)]
    by (auto simp: files_apart_def)
  have before: "dp_timestamp p < dp_timestamp q" if "p \<in> set (snd fp)" "q \<in> set (all_points fps)" for p q
    using files_apart_points [of "[fp]" fps cfg dir s p q] Cons.prems(1,2) that by simp
  have split: "newest_in_range lo ?hi (all_points (fp # fps)) =
      newest_in_range lo ?hi (snd fp) @ newest_in_range lo ?hi (all_points fps)" for lo
    using newest_append [OF before] by simp
  consider "ro_space_left r = 0" | "ro_complete r" | "max_timestamp (fst fp) < ?lo" "ro_space_left r \<noteq> 0" "\<not> ro_complete r"
    | "?hi \<le> min_timestamp (fst fp)" "\<not> max_timestamp (fst fp) < ?lo"
    | "ro_space_left r \<noteq> 0" "\<not> ro_complete r" "\<not> max_timestamp (fst fp) < ?lo" "\<not> ?hi \<le> min_timestamp (fst fp)"
    by blast
  then show ?case
  proof cases
    case 1
    then show ?thesis using Cons.prems(5) by (simp add: tracks_refl)
  next
    case 2
    then have "newest_in_range ?lo ?hi (all_points (fp # fps)) = []"
      by (intro newest_none) (auto simp: ro_complete_def)
    with 2 Cons.prems(5) show ?thesis by (simp add: tracks_refl)
  next
    case 3
    then have "newest_in_range ?lo ?hi (snd fp) = []"
      using rest(7) by (intro newest_none) (fastforce simp: file_holds_def list_all_iff)
    with 3 split Cons.IH [OF rest(1-4) Cons.prems(5)] show ?thesis by (simp add: af_max_def)
  next
    case 4
    have "newest_in_range ?lo ?hi (all_points (fp # fps)) = []"
    proof (rule newest_none)
      fix p assume "p \<in> set (all_points (fp # fps))"
      then have "min_timestamp (fst fp) \<le> dp_timestamp p"
        using Cons.prems(1,2) by (fastforce simp: all_points_def file_holds_def list_all_iff files_apart_def)
      with 4 show "\<not> (?lo \<le> dp_timestamp p \<and> dp_timestamp p < ?hi)" by simp
    qed
    with 4 Cons.prems(5) show ?thesis by (auto simp: af_max_def af_min_def tracks_refl)
  next
    case 5
    let ?new = "take (ro_space_left r) (newest_in_range ?lo ?hi (snd fp))"
    obtain r1 where r1: "af_read cfg dir (Sparse (fst fp)) s r = (Inr (), r1)" "ro_ok r1" "tracks r r1"
      "ro_contents r1 = ro_contents r @ ?new"
      by (rule read_one_of_files [OF assms(1,2) rest(7,5,6) Cons.prems(5)])
    obtain r' where r': "dir_read_loop cfg dir s (map (\<lambda>fp. Sparse (fst fp)) fps) r1 = (Inr (), r')" "ro_ok r'" "tracks r1 r'"
      "ro_contents r' = ro_contents r1 @
         take (ro_space_left r1) (newest_in_range (ro_next_time r1) (ro_end_time r1) (all_points fps))"
      using Cons.IH [OF rest(1-4) r1(2)] by blast
    have same: "same_request r r1" and next1: "ro_next_time r1 = (if ?new = [] then ?lo else wrap64 (dp_next (last ?new)))"
      using r1(3,4) by (auto simp: tracks_def)
    have new: "set ?new \<subseteq> set (snd fp)" "\<forall>q \<in> set ?new. ?lo \<le> dp_timestamp q"
      using last_of.chosen_subset [of "snd fp"]
      by (auto simp: newest_per_timestamp in_range_def dest!: in_set_takeD)
    have later: "newest_in_range (ro_next_time r1) (ro_end_time r1) (all_points fps) = newest_in_range ?lo ?hi (all_points fps)"
      using newest_after [where hi = ?hi, OF next1 new(1) _ before new(2)] Cons.prems(3) same by (simp add: same_request_def)
    have "length (ro_contents r1) = length (ro_contents r) + length ?new" using r1(4) by simp
    then have "ro_space_left r1 = ro_space_left r - length (newest_in_range ?lo ?hi (snd fp))"
      using length_ro_contents [OF r1(2)] length_ro_contents [OF Cons.prems(5)] same r1(2) Cons.prems(5)
      by (simp add: same_request_def ro_datapoints_in_buffer_def)
    with r1 r' 5 later split show ?thesis
      by (intro exI [of _ r']) (auto simp: af_max_def af_min_def intro: tracks_trans)
  qed
qed
lemma files_apart_mins:
  assumes "files_apart fps" and "list_all (file_holds cfg dir s) fps"
  shows "sorted_wrt (<) (map (\<lambda>fp. min_timestamp (fst fp)) fps)"
  using assms
proof (induction fps)
  case (Cons fp fps)
  then have "min_timestamp (fst fp) < min_timestamp (fst x)" if "x \<in> set fps" for x
    using that by (fastforce simp: files_apart_def file_holds_def)
  with Cons show ?case by (simp add: files_apart_def)
qed simp

lemma filter_sorted_takeWhile: "sorted (map g xs) \<Longrightarrow> filter (\<lambda>x. g x \<le> t) xs = takeWhile (\<lambda>x. g x \<le> (t :: int)) xs"
proof (induction xs)
  case (Cons x xs)
  then have "\<forall>y \<in> set xs. g x \<le> g y" by simp
  then have "filter (\<lambda>x. g x \<le> t) xs = []" if "\<not> g x \<le> t"
    using that by (force simp: filter_empty_conv)
  with Cons show ?case by simp
qed simp

text \<open>What the search passes over ends before the read.\<close>

lemma files_before_found:
  assumes "files_apart fps" and "list_all (file_holds cfg dir s) fps"
    and "find_first_potential_file (map (\<lambda>fp. Sparse (fst fp)) fps) t = Some i" and "p \<in> set (all_points (take i fps))"
  shows "dp_timestamp p < t"
proof -
  let ?files = "map (\<lambda>fp. Sparse (fst fp)) fps"
  have mins: "sorted_wrt (<) (map af_min ?files)"
    using files_apart_mins [OF assms(1,2)] by (simp add: af_min_def o_def)
  have found: "i = length (filter (\<lambda>f. af_min f \<le> t) ?files) - 1"
    using find_halving_right [OF mins, of "length ?files" t i] assms(3) mins
    by (simp add: find_first_halving strict_sorted_imp_sorted starts_by_def)
  from assms(4) have "0 < i" by (cases i) auto
  with found have len: "i < length (filter (\<lambda>f. af_min f \<le> t) ?files)" by simp
  also have "\<dots> \<le> length fps" using length_filter_le [of "\<lambda>f. af_min f \<le> t" ?files] by (simp only: length_map)
  finally have i: "i < length fps" .
  have "af_min (?files ! i) \<le> t"
  proof -
    have "filter (\<lambda>f. af_min f \<le> t) ?files = takeWhile (\<lambda>f. af_min f \<le> t) ?files"
      by (rule filter_sorted_takeWhile [OF strict_sorted_imp_sorted [OF mins]])
    with len show ?thesis by (metis nth_mem set_takeWhileD takeWhile_nth)
  qed
  then have start: "min_timestamp (fst (fps ! i)) \<le> t" using i by (simp add: af_min_def)
  from assms(4) obtain x where x: "x \<in> set (take i fps)" "p \<in> set (snd x)" by (auto simp: all_points_def)
  then obtain j where j: "j < i" "x = fps ! j" using i by (auto simp: in_set_conv_nth)
  with assms(1) i have "max_timestamp (fst x) < min_timestamp (fst (fps ! i))"
    by (simp add: files_apart_def sorted_wrt_iff_nth_less)
  moreover have "dp_timestamp p \<le> max_timestamp (fst x)"
    using assms(2) x by (fastforce simp: file_holds_def list_all_iff dest: in_set_takeD)
  ultimately show ?thesis using start by simp
qed

lemma dir_read_files:
  assumes "dir_filenames_read d" and "dir_files d = map (\<lambda>fp. Sparse (fst fp)) fps" and "leaf_dir (dir_path d) s"
    and "list_all (file_holds cfg (dir_path d) s) fps" and "files_apart fps"
    and "disjoint_points (all_points fps)" and "one_duration (all_points fps)" and "config_ok cfg" and "ro_ok r"
    and "find_first_potential_file (dir_files d) (ro_next_time r) \<noteq> None"
  shows "\<exists>r'. dir_read cfg s d r = Some ((Inr (), d), r') \<and> ro_ok r' \<and> tracks r r' \<and>
    ro_contents r' = ro_contents r @
      take (ro_space_left r) (newest_in_range (ro_next_time r) (ro_end_time r) (all_points fps))"
proof -
  from assms(10) obtain i where i: "find_first_potential_file (dir_files d) (ro_next_time r) = Some i" by blast
  have split: "all_points fps = all_points (take i fps) @ all_points (drop i fps)"
    by (simp flip: all_points_simps(3))
  have parts: "list_all (file_holds cfg (dir_path d) s) (take i fps @ drop i fps)" "files_apart (take i fps @ drop i fps)"
    using assms(4,5) by simp_all
  have rest: "list_all (file_holds cfg (dir_path d) s) (drop i fps)" "files_apart (drop i fps)"
    "disjoint_points (all_points (drop i fps))" "one_duration (all_points (drop i fps))"
    using parts disjoint_points_subset [OF assms(6)] one_duration_subset [OF assms(7)] split
    by (auto simp: files_apart_def sorted_wrt_append list_all_append simp del: append_take_drop_id)
  have "newest_in_range (ro_next_time r) (ro_end_time r) (all_points (take i fps)) = []"
    using files_before_found [OF assms(5,4), of "ro_next_time r" i] i assms(2) by (intro newest_none) fastforce
  moreover have "newest_in_range lo hi (all_points fps) =
      newest_in_range lo hi (all_points (take i fps)) @ newest_in_range lo hi (all_points (drop i fps))" for lo hi
    unfolding split by (rule newest_append) (rule files_apart_points [OF parts(2,1)])
  ultimately show ?thesis
    using dir_read_loop_files [OF assms(8,3) rest assms(9)] assms(1,2) i
    by (auto simp: dir_read_def drop_map)
qed


section \<open>After a restart\<close>

lemma mset_map_reorder: "mset ns = mset (map f ys) \<Longrightarrow> \<exists>zs. mset zs = mset ys \<and> ns = map f zs"
proof (induction ns arbitrary: ys)
  case (Cons n ns)
  then have "n \<in> f ` set ys" by (metis list.set_intros(1) set_map set_mset_mset)
  then obtain y where y: "y \<in> set ys" "n = f y" by blast
  with Cons.prems have "mset ns = mset (map f (remove1 y ys))"
    by (simp add: image_mset_Diff) (metis add_mset_remove_trivial)
  from Cons.IH [OF this] obtain zs where "mset zs = mset (remove1 y ys)" "ns = map f zs" by blast
  with y show ?case by (intro exI [of _ "y # zs"]) simp
qed simp

lemma sort_key_of_mset:
  assumes "mset xs = mset ys" and "sorted_wrt (<) (map f ys)"
  shows "sort_key f xs = ys"
proof -
  have "distinct (map f ys)" and s: "sorted (map f ys)"
    using assms(2) by (auto simp: strict_sorted_iff)
  then have "inj_on f (set ys)" by (simp add: distinct_map)
  moreover have "set xs = set ys" using assms(1) by (metis set_mset_mset)
  ultimately have "sort_key f xs = sort_key f ys"
    by (intro sort_key_inj_key_eq) (use assms(1) in auto)
  with s show ?thesis by (simp add: sort_key_id_if_sorted)
qed

lemma plain_sparse_entry: "plain_sparse f \<Longrightarrow> files_of_entry cfg path (sparse_basename f @ NUL # tail) s = Inr [Sparse f]"
  by (simp add: plain_sparse_def sparse_name_read_back)

lemma files_of_plain_entries:
  "list_all plain_sparse fs \<Longrightarrow> files_of_entries cfg path (map sparse_basename fs) s = Inr (map Sparse fs)"
  by (induction fs) (simp_all add: plain_sparse_entry)

text \<open>
  The scan of a directory that holds the sparse files and nothing else, in whatever order
  \<open>readdir\<close> gives their names.
\<close>

lemma read_filenames_back:
  assumes "is_dir (strip_slashes (dir_path d)) s" and "list_all plain_sparse fs"
    and "mset (dir_entries (dir_path d) s) = mset (map sparse_basename fs)" and "sorted_wrt (<) (map min_timestamp fs)"
  shows "read_filenames cfg s d = Inr (d\<lparr>dir_files := map Sparse fs, dir_filenames_read := True\<rparr>)"
proof -
  obtain gs where gs: "mset gs = mset fs" "dir_entries (dir_path d) s = map sparse_basename gs"
    using mset_map_reorder [OF assms(3)] by blast
  have "set gs = set fs" using gs(1) by (metis set_mset_mset)
  then have "files_of_entries cfg (dir_path d) (dir_entries (dir_path d) s) s = Inr (map Sparse gs)"
    using gs(2) assms(2) by (simp add: files_of_plain_entries list_all_iff)
  moreover have "sort_key af_min (map Sparse gs) = map Sparse fs"
    using gs(1) assms(4) by (intro sort_key_of_mset) (simp_all add: o_def af_min_def)
  ultimately show ?thesis using assms(1) by (simp add: read_filenames_def)
qed


section \<open>Two files\<close>

definition two_files :: "(sparse_file \<times> datapoint list) list" where
  "two_files = [(SparseFile 10 20 False, [Datapoint 10 1 5, Datapoint 20 2 5]), (SparseFile 30 30 False, [Datapoint 30 3 5, Datapoint 30 4 5])]"

definition two_files_world :: "unit world_scheme" where
  "two_files_world = demo_world [(''d/30-30'', enc_all dp_encode [Datapoint 30 3 5, Datapoint 30 4 5]),
     (''d/10-20'', enc_all dp_encode [Datapoint 10 1 5, Datapoint 20 2 5])]"

lemma two_files_ok:
  "list_all (file_holds demo_config ''d'' two_files_world) two_files" "files_apart two_files"
  "disjoint_points (all_points two_files)" "one_duration (all_points two_files)"
  "leaf_dir ''d'' two_files_world" "is_dir ''d'' two_files_world"
  "list_all (\<lambda>fp. plain_sparse (fst fp)) two_files" "length two_files \<le> 2"
  "mset (dir_entries ''d'' two_files_world) = mset (map (\<lambda>fp. sparse_basename (fst fp)) two_files)"
  "newest_in_range 15 100 (all_points two_files) = [Datapoint 20 2 5, Datapoint 30 4 5]"
proof -
  have paths: "sparse_get_path ''d'' (SparseFile 10 20 False) = ''d/10-20''" "sparse_get_path ''d'' (SparseFile 30 30 False) = ''d/30-30''"
    by code_simp+
  have dps: "list_all dp_ok [Datapoint 10 1 5, Datapoint 20 2 5]" "list_all dp_ok [Datapoint 30 3 5, Datapoint 30 4 5]" by code_simp+
  have max: "sparse_file_max_size demo_config = 4194304" by (simp add: demo_config_def default_config_def)
  have "sparse_contents demo_config (enc_all dp_encode [Datapoint 10 1 5, Datapoint 20 2 5]) = [Datapoint 10 1 5, Datapoint 20 2 5]"
    "sparse_contents demo_config (enc_all dp_encode [Datapoint 30 3 5, Datapoint 30 4 5]) = [Datapoint 30 3 5, Datapoint 30 4 5]"
    by (rule sparse_contents_encoded, rule dps, simp add: datapoint_size_def max)+
  then show "list_all (file_holds demo_config ''d'' two_files_world) two_files"
    by (simp add: two_files_def file_holds_def paths file_at_def two_files_world_def demo_world_def)
      (simp add: SparseFile_def Datapoint_def)
  have "disjoint_points (all_points two_files) \<and> one_duration (all_points two_files)" by code_simp
  then show "disjoint_points (all_points two_files)" "one_duration (all_points two_files)" by simp_all
  show "files_apart two_files" by (simp add: two_files_def files_apart_def SparseFile_def)
  show "leaf_dir ''d'' two_files_world" by (simp add: two_files_world_def demo_leaf)
  show "is_dir ''d'' two_files_world" by (simp add: two_files_world_def demo_world_def is_dir_def)
  show "list_all (\<lambda>fp. plain_sparse (fst fp)) two_files"
    by (simp add: two_files_def plain_sparse_def SparseFile_def i64_ok_def INT64_MIN_def INT64_MAX_def)
  show "length two_files \<le> 2" by (simp add: two_files_def)
  have "sparse_basename (SparseFile 10 20 False) = ''10-20''" "sparse_basename (SparseFile 30 30 False) = ''30-30''" by code_simp+
  then show "mset (dir_entries ''d'' two_files_world) = mset (map (\<lambda>fp. sparse_basename (fst fp)) two_files)"
    by (simp add: two_files_def dir_entries_def two_files_world_def demo_world_def)
  show "newest_in_range 15 100 (all_points two_files) = [Datapoint 20 2 5, Datapoint 30 4 5]" by code_simp
qed



end
