(* ===== verification/Durability.thy ===== *)
theory Durability
  imports EndToEnd ManyFiles
begin

text \<open>
  One server after the other over the same data directory: what has been flushed is there for the
  next one, what has not been flushed is lost.
\<close>

section \<open>Runs of the server\<close>

text \<open>
  One process: the database is opened over what is on disk, with no task queued yet; rounds of
  writes and flushes follow, then writes after which no flush comes.  The destructor of the
  database writes nothing, so SQLite and the file system are all the next process finds.
\<close>

definition server_run ::
  "db_params \<Rightarrow> 'db sqlite \<Rightarrow> (string \<Rightarrow> (string set, 'db) prog) \<Rightarrow> (nat \<Rightarrow> bool) \<Rightarrow> string \<Rightarrow> labels \<Rightarrow>
     datapoint list list list \<times> datapoint list list \<Rightarrow> 'db \<times> world \<Rightarrow>
     ((((nat \<times> nat) list \<times> nat) \<times> ('db \<times> world)) res) option" where
  "server_run ps sq index resort_at dir labels work disk =
     (case Database ps index dir (fst disk) ((snd disk)\<lparr>w_queue := 0\<rparr>) of
       Inl e \<Rightarrow> Some (Inl e)
     | Inr st \<Rightarrow>
         (case write_flush_rounds ps sq resort_at labels (fst work) st of
           None \<Rightarrow> None
         | Some (Inl e, st1) \<Rightarrow> Some (Inl e)
         | Some (Inr counts, st1) \<Rightarrow>
             (case write_datapoints ps sq (map (Pair labels) (snd work)) 0 st1 of
               (Inl e, st2) \<Rightarrow> Some (Inl e)
             | (Inr written, st2) \<Rightarrow> Some (Inr ((counts, written), (db_sqlite st2, db_world st2))))))"

primrec server_runs ::
  "db_params \<Rightarrow> 'db sqlite \<Rightarrow> (string \<Rightarrow> (string set, 'db) prog) \<Rightarrow> (nat \<Rightarrow> bool) \<Rightarrow> string \<Rightarrow> labels \<Rightarrow>
     (datapoint list list list \<times> datapoint list list) list \<Rightarrow> 'db \<times> world \<Rightarrow>
     ((((nat \<times> nat) list \<times> nat) list \<times> ('db \<times> world)) res) option" where
  "server_runs ps sq index resort_at dir labels [] disk = Some (Inr ([], disk))"
| "server_runs ps sq index resort_at dir labels (work # works) disk =
     (case server_run ps sq index resort_at dir labels work disk of
       None \<Rightarrow> None
     | Some (Inl e) \<Rightarrow> Some (Inl e)
     | Some (Inr (reply, disk1)) \<Rightarrow>
         (case server_runs ps sq index resort_at dir labels works disk1 of
           None \<Rightarrow> None
         | Some (Inl e) \<Rightarrow> Some (Inl e)
         | Some (Inr (replies, disk2)) \<Rightarrow> Some (Inr (reply # replies, disk2))))"

section \<open>A directory found again\<close>

lemma dir_entries_at:
  assumes "n \<in> set (dir_entries path s)"
  shows "CHR ''/'' \<notin> set n" and "file_at (path @ ''/'' @ n) s \<noteq> None"
proof -
  from assms obtain g where g: "g \<in> set (fs_files s)" "prefix (path @ ''/'') (fst g)" "n = drop (length (path @ ''/'')) (fst g)"
    and slash: "CHR ''/'' \<notin> set (drop (length (path @ ''/'')) (fst g))" by (auto simp: dir_entries_def Let_def)
  show "CHR ''/'' \<notin> set n" using slash g(3) by simp
  from g(2,3) have "fst g = path @ ''/'' @ n" by (auto simp: prefix_def)
  with g(1) have "path @ ''/'' @ n \<in> fst ` set (fs_files s)" by force
  then show "file_at (path @ ''/'' @ n) s \<noteq> None" by (simp add: file_at_def map_of_eq_None_iff)
qed

lemma at_dir_entries:
  assumes "CHR ''/'' \<notin> set n" and "file_at (path @ ''/'' @ n) s \<noteq> None"
  shows "n \<in> set (dir_entries path s)"
proof -
  from assms(2) obtain bs where "(path @ ''/'' @ n, bs) \<in> set (fs_files s)"
    by (auto simp: file_at_def dest: map_of_SomeD)
  with assms(1) show ?thesis by (force simp: dir_entries_def)
qed

lemma distinct_dir_entries:
  assumes "files_distinct s"
  shows "distinct (dir_entries path s)"
proof -
  let ?P = "\<lambda>g. prefix (path @ ''/'') (fst g) \<and> CHR ''/'' \<notin> set (drop (length (path @ ''/'')) (fst g))"
  have "distinct (map fst (filter ?P (fs_files s)))"
    using assms by (simp add: files_distinct_def distinct_map_filter)
  moreover have "inj_on (drop (length (path @ ''/''))) (set (map fst (filter ?P (fs_files s))))"
    by (auto simp: inj_on_def prefix_def)
  ultimately have "distinct (map (drop (length (path @ ''/''))) (map fst (filter ?P (fs_files s))))"
    by (simp only: distinct_map)
  then show ?thesis by (simp add: dir_entries_def o_def)
qed

lemma alone_entries:
  assumes "alone s d" and "in_one_file s pts d" and "dir_files d = [Sparse f]"
  shows "dir_entries (dir_path d) s = [sparse_basename f]"
proof -
  let ?es = "dir_entries (dir_path d) s"
  have "file_at (dir_path d @ ''/'' @ sparse_basename f) s \<noteq> None"
    using assms(2,3) by (force simp: in_one_file_def sparse_get_path_def)
  then have "sparse_basename f \<in> set ?es" by (intro at_dir_entries sparse_basename_slash_free)
  moreover have "n = sparse_basename f" if "n \<in> set ?es" for n
    using assms(1,3) dir_entries_at [OF that] unfolding alone_def by force
  ultimately have "set ?es = {sparse_basename f}" by blast
  moreover have "distinct ?es" using assms(1) by (simp add: alone_def distinct_dir_entries)
  ultimately have "length ?es = 1" using distinct_card [of ?es] by simp
  with \<open>set ?es = {sparse_basename f}\<close> show ?thesis by (cases ?es) simp_all
qed

lemma found_again:
  assumes "alone s d" and "in_one_file s pts d" and "dir_path new = dir_path d" and "\<not> dir_filenames_read new"
  obtains d1 where "scanned s new d1" and "in_one_file s pts d1" and "alone s d1"
proof -
  from assms(1) obtain f where f: "dir_files d = [Sparse f]" "plain_sparse f" by (auto simp: alone_def)
  let ?d1 = "new\<lparr>dir_files := [Sparse f], dir_filenames_read := True\<rparr>"
  have "is_dir (strip_slashes (dir_path new)) s" using assms(2,3) by (simp add: in_one_file_def)
  moreover have "mset (dir_entries (dir_path new) s) = mset (map sparse_basename [f])"
    using alone_entries [OF assms(1,2) f(1)] assms(3) by simp
  ultimately have "read_filenames cfg s new = Inr ?d1" for cfg
    using read_filenames_back [of new s "[f]" cfg] f(2) by simp
  then have "scanned s new ?d1" using assms(4) by (simp add: scanned_def)
  moreover have "in_one_file s pts ?d1" using assms(2,3) f(1) by (simp add: in_one_file_def)
  moreover have "alone s ?d1" using assms(1,3) f(1) by (simp add: alone_def)
  ultimately show ?thesis by (rule that)
qed

section \<open>From one process to the next\<close>

definition data_root :: "string \<Rightarrow> string" where
  "data_root dir = (if last dir \<noteq> CHR ''/'' then dir @ ''/'' else dir)"

lemma Database_opens:
  assumes "dir \<noteq> ''''" and "is_dir (strip_slashes (data_root dir)) s" and "index (data_root dir) db = (Inr x, db')"
    and "threads_ok ps"
  shows "Database ps index dir db s = Inr \<lparr>db_root_dir = data_root dir, db_num_workers = nat (max (dp_db_worker_threads ps) 1),
     db_series = [], db_sqlite = db', db_world = s\<rparr>"
proof -
  have "data_root dir \<noteq> ''''" using assms(1) by (simp add: data_root_def)
  from create_directory_fuel_cases(1) [OF fs_stat_dir [OF this assms(2)]]
  have "create_directory (data_root dir) s = (Inr (), s)"
    by (simp add: create_directory_def del: create_directory_fuel.simps)
  then show ?thesis using assms(1,3,4) unfolding Database_def start_threads Let_def by (simp add: data_root_def [symmetric])
qed

text \<open>
  What a process leaves for the next: \<open>old\<close> is on disk for the directory object \<open>d\<close> of a series
  made anew, in the only file of the directory, and nothing waits for the optimiser.
\<close>

definition kept :: "string \<Rightarrow> directory \<Rightarrow> datapoint list \<Rightarrow> world \<Rightarrow> bool" where
  "kept root d old s \<longleftrightarrow> w_queue s = 0 \<and> 0 < w_queue_limit s \<and> writes_ok s \<and> is_dir (strip_slashes root) s \<and>
     \<not> dir_filenames_read d \<and> stored s old d \<and> at_most_one s d"

lemma kept_free: "kept root d old s \<Longrightarrow> \<not> worker_busy s \<and> s\<lparr>w_queue := 0\<rparr> = s"
  by (simp add: kept_def worker_busy_def)

lemma kept_ready:
  assumes "kept root (sr_dir sr0) old (db_world st)" and "new_params_ok ps" and "labels \<noteq> []"
    and "Series (dp_empty_buffer ps) (dp_hash ps) (db_root_dir st) labels (series_key labels) = Inr sr0"
    and "db_series st = []" and "0 < db_num_workers st"
  shows "ready ps labels (dir_path (sr_dir sr0)) True old st"
  using get_series_new [OF assms(2,5,3,4)] kept_free [OF assms(1)] assms(1,6) by (auto simp: ready_def kept_def)

lemma settled_kept:
  assumes "settled labels (dir_path d) True old st" and "kept root d before s" and "grown s (db_world st)"
  shows "kept root d old (db_world st)"
proof -
  from assms(1) obtain sr :: series where "alone (db_world st) (sr_dir sr)" "in_one_file (db_world st) old (sr_dir sr)"
    "dir_path (sr_dir sr) = dir_path d" by (auto simp: settled_def)
  then obtain d1 where d1: "scanned (db_world st) d d1" "in_one_file (db_world st) old d1" "alone (db_world st) d1"
    using found_again assms(2) unfolding kept_def by metis
  have "files_distinct (db_world st)" using d1(3) by (simp add: alone_def)
  with d1 have "stored (db_world st) old d" "at_most_one (db_world st) d" by (auto simp: stored_def at_most_one_def)
  with assms(2,3) grown_writes [OF assms(3)] show ?thesis by (auto simp: kept_def grown_def is_dir_def)
qed

text \<open>Writes that no flush follows are accepted and change nothing on disk.\<close>

lemma unflushed_writes:
  assumes "ready ps labels dir single old st" and "labels \<noteq> []"
  shows "\<exists>st'. write_datapoints ps sq (map (Pair labels) ops) 0 st = (Inr (length (concat ops)), st') \<and> db_world st' = db_world st"
proof (cases "ops = []")
  case False
  from assms(1) obtain st1 sr where "0 < db_num_workers st" "\<not> worker_busy (db_world st)"
    "get_series ps labels st = (Inr (series_key labels), st1)" "holds_ops st labels sr [] st1" by (auto simp: ready_def)
  from write_datapoints_holds [OF assms(2) this False, of sq 0] show ?thesis by (auto simp: holds_ops_def)
qed simp

lemma written_points_append [simp]: "written_points (xs @ ys) = written_points xs @ written_points ys"
  by (simp add: written_points_def)

lemma flushed_points_append [simp]: "flushed_points (xs @ ys) = flushed_points xs @ flushed_points ys"
  by (simp add: flushed_points_def)

lemma starts_first_append:
  assumes "starts_first old (xs @ ys)" and "list_all round_ok xs"
  shows "starts_first old xs \<and> starts_first (old @ flushed_points xs) ys"
proof (cases xs)
  case Nil
  with assms(1) show ?thesis by (simp add: flushed_points_def)
next
  case (Cons ops xs')
  let ?pts = "live_points (concat ops)"
  have "?pts \<noteq> []" using assms(2) Cons by (simp add: round_ok_def)
  then have "set (sort_key dp_timestamp ?pts) \<noteq> {}" "set (flushed_points xs) = set (sort_key dp_timestamp ?pts) \<union> set (flushed_points xs')"
    using Cons by (simp_all add: flushed_points_def)
  with assms(1) Cons show ?thesis
    by (cases ys) (auto simp: none_earlier_def written_points_def split: if_splits, blast+)
qed

lemma server_run_kept:
  assumes "new_params_ok ps" and "sparse_file_max_size (dp_config ps) div datapoint_size < 2147483647"
    and "dir \<noteq> ''''" and "labels \<noteq> []" and "\<And>db. \<exists>x db'. index (data_root dir) db = (Inr x, db')"
    and "Series (dp_empty_buffer ps) (dp_hash ps) (data_root dir) labels (series_key labels) = Inr sr0"
    and "kept (data_root dir) (sr_dir sr0) old s" and "list_all round_ok rounds" and "starts_first old rounds"
    and "list_all dp_ok (written_points rounds)"
    and "length (old @ written_points rounds) * datapoint_size \<le>
      min (sparse_file_optimize_size (dp_config ps)) (sparse_file_max_size (dp_config ps))"
    and "threads_ok ps"
  shows "\<exists>db' s'. server_run ps sq index resort_at dir labels (rounds, ops) (db, s) =
      Some (Inr ((map (\<lambda>ops. (length (concat ops), 1)) rounds, length (concat ops)), (db', s'))) \<and>
    kept (data_root dir) (sr_dir sr0) (old @ flushed_points rounds) s'"
proof -
  let ?dir = "dir_path (sr_dir sr0)" and ?root = "data_root dir"
  from assms(5) obtain x db1 where index: "index ?root db = (Inr x, db1)" by blast
  let ?st = "\<lparr>db_root_dir = ?root, db_num_workers = nat (max (dp_db_worker_threads ps) 1), db_series = [],
    db_sqlite = db1, db_world = s\<rparr>"
  have "s\<lparr>w_queue := 0\<rparr> = s" using kept_free [OF assms(7)] by blast
  with assms(7) have open_db: "Database ps index dir db (s\<lparr>w_queue := 0\<rparr>) = Inr ?st"
    using Database_opens [where index = index, OF assms(3) _ index assms(12)] by (metis kept_def)
  have start: "ready ps labels ?dir True old ?st" using assms(7,6) by (intro kept_ready [OF _ assms(1,4)]) simp_all
  obtain st1 where
    rounds: "write_flush_rounds ps sq resort_at labels rounds ?st = Some (Inr (map (\<lambda>ops. (length (concat ops), 1)) rounds), st1)"
    and st1: "ready ps labels ?dir True (old @ flushed_points rounds) st1" "kept ?root (sr_dir sr0) (old @ flushed_points rounds) (db_world st1)"
  proof (cases "rounds = []")
    case True
    with start assms(7) show ?thesis by (intro that [of ?st]) (simp_all add: flushed_points_def)
  next
    case False
    from rounds_ready [OF assms(4,2) start assms(8) False assms(9-11)] obtain st1 where
      "write_flush_rounds ps sq resort_at labels rounds ?st = Some (Inr (map (\<lambda>ops. (length (concat ops), 1)) rounds), st1)"
      and st1: "settled labels ?dir True (old @ flushed_points rounds) st1" "grown (db_world ?st) (db_world st1)" by blast
    moreover have "kept ?root (sr_dir sr0) old (db_world ?st)" using assms(7) by simp
    ultimately show ?thesis using that settled_ready [OF assms(4) st1(1)] settled_kept [OF st1(1) _ st1(2)] by blast
  qed
  from unflushed_writes [OF st1(1) assms(4)] obtain st2 where
    "write_datapoints ps sq (map (Pair labels) ops) 0 st1 = (Inr (length (concat ops)), st2)" "db_world st2 = db_world st1" by blast
  with open_db rounds st1(2) show ?thesis by (auto simp: server_run_def)
qed

lemma server_runs_kept:
  assumes "new_params_ok ps" and "sparse_file_max_size (dp_config ps) div datapoint_size < 2147483647"
    and "dir \<noteq> ''''" and "labels \<noteq> []" and "\<And>db. \<exists>x db'. index (data_root dir) db = (Inr x, db')"
    and "Series (dp_empty_buffer ps) (dp_hash ps) (data_root dir) labels (series_key labels) = Inr sr0"
    and "kept (data_root dir) (sr_dir sr0) old s" and "rounds = concat (map fst works)" and "list_all round_ok rounds"
    and "starts_first old rounds" and "list_all dp_ok (written_points rounds)"
    and "length (old @ written_points rounds) * datapoint_size \<le>
      min (sparse_file_optimize_size (dp_config ps)) (sparse_file_max_size (dp_config ps))"
    and "threads_ok ps"
  shows "\<exists>db' s'. server_runs ps sq index resort_at dir labels works (db, s) =
      Some (Inr (map (\<lambda>w. (map (\<lambda>ops. (length (concat ops), 1)) (fst w), length (concat (snd w)))) works, (db', s'))) \<and>
    kept (data_root dir) (sr_dir sr0) (old @ flushed_points rounds) s'"
  using assms(7-)
proof (induction works arbitrary: old rounds db s)
  case Nil
  then show ?case by (simp add: flushed_points_def)
next
  case (Cons w works)
  let ?rest = "concat (map fst works)" and ?old = "old @ flushed_points (fst w)"
  have split: "rounds = fst w @ ?rest" using Cons.prems(2) by simp
  have ok: "list_all round_ok (fst w)" "list_all round_ok ?rest" using Cons.prems(3) by (simp_all add: split)
  note first = starts_first_append [OF Cons.prems(4) [unfolded split] ok(1)]
  have pts: "list_all dp_ok (written_points (fst w))" "list_all dp_ok (written_points ?rest)"
    using Cons.prems(5) by (simp_all add: split)
  have room: "length (old @ written_points (fst w)) * datapoint_size \<le> min (sparse_file_optimize_size (dp_config ps)) (sparse_file_max_size (dp_config ps))"
    "length (?old @ written_points ?rest) * datapoint_size \<le> min (sparse_file_optimize_size (dp_config ps)) (sparse_file_max_size (dp_config ps))"
    using Cons.prems(6) by (simp_all add: split flushed_written algebra_simps)
  obtain db1 s1 where one: "server_run ps sq index resort_at dir labels w (db, s) =
      Some (Inr ((map (\<lambda>ops. (length (concat ops), 1)) (fst w), length (concat (snd w))), (db1, s1)))"
    "kept (data_root dir) (sr_dir sr0) ?old s1"
    using server_run_kept [where index = index, OF assms(1-6) Cons.prems(1) ok(1) conjunct1 [OF first] pts(1) room(1) Cons.prems(7), of sq resort_at "snd w" db]
    by auto
  from Cons.IH [OF one(2) refl ok(2) conjunct2 [OF first] pts(2) room(2) Cons.prems(7), of db1] one(1) show ?case
    by (auto simp: split)
qed

section \<open>What the last process reads\<close>

text \<open>
  Claim C2. Servers one after the other over one data directory, each taking rounds of writes and
  flushes for a series and then writes that no flush follows before it ends, and a last one that
  is asked for the series: every write is accepted, every flush succeeds, every process finds the
  file of the ones before and goes on with it, and the last one streams exactly the newest
  datapoint of every timestamp in the range among those that were flushed.  What was not is
  lost, for the destructor of the database flushes nothing.

  The scope is that of claim C1, over all the servers: the flushed datapoints of all of them together
  fit one sparse file that is not yet due for the optimiser (by default 4096 bytes, 170 datapoints),
  none reaches into a later one, those of one timestamp have one duration, and none is earlier than
  the earliest of the very first round.  Needed are also an existing data directory with room for the
  file and nothing of the series yet, an index that opens, the threads of a database, a queue, memory for the buffer and
  no write the kernel fails.
\<close>

theorem flushed_survives_restarts:
  assumes "new_params_ok ps" and "config_ok (dp_config ps)" and "sparse_file_max_size (dp_config ps) div datapoint_size < 2147483647"
    and "0 < read_buffer_size (dp_config ps)" and "dir \<noteq> ''''" and "labels \<noteq> []"
    and "\<And>db. \<exists>x db'. index (data_root dir) db = (Inr x, db')"
    and "Series (dp_empty_buffer ps) (dp_hash ps) (data_root dir) labels (series_key labels) = Inr sr0"
    and "room_for (sr_dir sr0) s" and "is_dir (strip_slashes (data_root dir)) s" and "files_distinct s"
    and "w_queue s = 0" and "0 < w_queue_limit s"
    and "rounds = concat (map fst works)" and "list_all round_ok rounds" and "starts_first [] rounds"
    and "fits_one_file (dp_config ps) (written_points rounds)" and "rq_selector rq = ListSelector [labels]"
    and "writes_ok s" and "threads_ok ps"
  shows "\<exists>db' s' st st' results.
    server_runs ps sq index resort_at dir labels works (db, s) =
      Some (Inr (map (\<lambda>w. (map (\<lambda>ops. (length (concat ops), 1)) (fst w), length (concat (snd w)))) works, (db', s'))) \<and>
    Database ps index dir db' (s'\<lparr>w_queue := 0\<rparr>) = Inr st \<and>
    read_datapoints ps sq batch_size parse rq junk st = Some (Inr OkStatus, (st', results)) \<and>
    list_all (\<lambda>r. fst r = labels \<and> snd r \<noteq> []) results \<and>
    concat (map snd results) = newest_in_range (rq_start_time rq) (rq_end_time rq) (written_points rounds)"
proof -
  let ?root = "data_root dir" and ?pts = "flushed_points rounds"
  note fits = fits_one_file_D [OF assms(17)]
  have series: "\<not> dir_filenames_read (sr_dir sr0)" "sr_buffer sr0 = dp_empty_buffer ps"
    using assms(8) by (auto simp: Series_def series_init_def DatapointDirectory_def Let_def bindE_eq_Inr split: if_splits)
  have "kept ?root (sr_dir sr0) [] s"
    using assms(9-13,19) series(1) by (simp add: kept_def stored_def at_most_one_def)
  then obtain db' s' where runs: "server_runs ps sq index resort_at dir labels works (db, s) =
      Some (Inr (map (\<lambda>w. (map (\<lambda>ops. (length (concat ops), 1)) (fst w), length (concat (snd w)))) works, (db', s')))"
    and kept: "kept ?root (sr_dir sr0) ?pts s'"
    using server_runs_kept [where index = index, OF assms(1,3,5-8) _ assms(14-16) fits(2) _ assms(20)] fits(6) by fastforce
  from assms(7) obtain x db1 where index: "index ?root db' = (Inr x, db1)" by blast
  let ?st = "\<lparr>db_root_dir = ?root, db_num_workers = nat (max (dp_db_worker_threads ps) 1), db_series = [],
    db_sqlite = db1, db_world = s'\<rparr>"
  have "s'\<lparr>w_queue := 0\<rparr> = s'" using kept_free [OF kept] by blast
  with kept have open_db: "Database ps index dir db' (s'\<lparr>w_queue := 0\<rparr>) = Inr ?st"
    using Database_opens [where index = index, OF assms(5) _ index assms(20)] by (metis kept_def)
  have "?pts \<noteq> []" using fits_one_file_D(1) [OF fits_one_file_flushed [OF assms(17)]] .
  with kept obtain d1 where d1: "scanned s' (sr_dir sr0) d1" "in_one_file s' ?pts d1" by (auto simp: kept_def stored_def)
  have buffer: "wb_ok (sr_buffer sr0)" "wb_points (sr_buffer sr0) = []" "wb_sorted (sr_buffer sr0)"
    using assms(1) by (simp_all add: series(2) new_params_ok_def params_ok_def)
  have "only_in_file (dp_config ps) s' ?pts (sr0\<lparr>sr_dir := d1\<rparr>)"
    using in_one_file_only [of s' ?pts "sr0\<lparr>sr_dir := d1\<rparr>"] fits_one_file_flushed [OF assms(17)] assms(2) buffer d1(2) by simp
  moreover have "get_series ps labels ?st = (Inr (series_key labels), ?st\<lparr>db_series := [(series_key labels, sr0)]\<rparr>)"
    using assms(8) series_key_nonempty [OF assms(6)] by (simp add: get_series_def Let_def)
  ultimately have "readable ps labels ?pts ?st"
    using d1(1) kept_free [OF kept] by (auto simp: readable_def)
  from read_datapoints_readable [OF this assms(4,18), of sq batch_size parse junk] runs open_db
  show ?thesis by (simp add: newest_flushed)
qed

text \<open>
  Two servers and a third that is asked: the second overwrites a datapoint of the first, and the
  datapoint the first accepts last is never flushed.
\<close>

definition two_servers :: "(datapoint list list list \<times> datapoint list list) list" where
  "two_servers = [([[[Datapoint 10 1 5, Datapoint 20 2 5]]], [[Datapoint 30 4 5]]), ([[[Datapoint 20 3 5]]], [])]"

theorem flushed_survives_restarts_witness:
  "\<exists>db' s' st st' results.
    server_runs one_chunk_params silent_sqlite (\<lambda>dir db. (Inr {}, db)) (\<lambda>k. False) ''d'' [(''host'', ''a'')] two_servers
      ((), db_world fresh_database) = Some (Inr ([([(2, 1)], 1), ([(1, 1)], 0)], (db', s'))) \<and>
    Database one_chunk_params (\<lambda>dir db. (Inr {}, db)) ''d'' db' (s'\<lparr>w_queue := 0\<rparr>) = Inr st \<and>
    read_datapoints one_chunk_params silent_sqlite 1024 (\<lambda>row. None) demo_request (Datapoint 0 0 0) st =
      Some (Inr OkStatus, (st', results)) \<and>
    concat (map snd results) = [Datapoint 10 1 5, Datapoint 20 3 5]"
proof -
  let ?works = "two_servers" and ?ps = one_chunk_params and ?s = "db_world fresh_database" and ?labels = "[(''host'', ''a'')]"
  let ?rounds = "concat (map fst ?works)"
  let ?pts = "[Datapoint 10 1 5, Datapoint 20 2 5, Datapoint 20 3 5]"
  have "wb_sorted (WriteBuffer 4096 1 (Datapoint 0 0 0) [])" "wb_heap (WriteBuffer 4096 1 (Datapoint 0 0 0) []) = []"
    by (simp_all add: WriteBuffer_def)
  then have ps: "new_params_ok ?ps"
    by (simp add: new_params_ok_def params_ok_def one_chunk_params_def demo_params_def wb_ok_new)
  have threads: "threads_ok ?ps" by (simp add: threads_ok_def one_chunk_params_def demo_params_def)
  have sizes: "sparse_file_max_size (dp_config ?ps) = 4194304" "sparse_file_optimize_size (dp_config ?ps) = 4096"
    "read_buffer_size (dp_config ?ps) = 1"
    by (simp_all add: one_chunk_params_def demo_params_def demo_config_def default_config_def)
  have conf: "config_ok (dp_config ?ps)" "sparse_file_max_size (dp_config ?ps) div datapoint_size < 2147483647"
    "0 < read_buffer_size (dp_config ?ps)"
    unfolding config_ok_def sizes datapoint_size_def by simp_all
  have "\<not> isnan 1" "\<not> isnan 2" "\<not> isnan 3" by (simp_all add: isnan_def dbl_exp_def)
  then have live: "written_points ?rounds = ?pts" "list_all round_ok ?rounds" "starts_first [] ?rounds"
    by (simp_all add: two_servers_def written_points_def live_points_def round_ok_def in_order_def none_earlier_def Datapoint_def)
  have pts: "list_all dp_ok ?pts" "disjoint_points ?pts" "one_duration ?pts" "list_all (\<lambda>p. 0 \<le> dp_duration p) ?pts"
    "newest_in_range 0 100 ?pts = [Datapoint 10 1 5, Datapoint 20 3 5]" by code_simp+
  then have fits: "fits_one_file (dp_config ?ps) (written_points ?rounds)"
    unfolding live(1) by (simp add: fits_one_file_def sizes datapoint_size_def)
  have rq: "rq_selector demo_request = ListSelector [?labels]" "rq_start_time demo_request = 0" "rq_end_time demo_request = 100"
    by (simp_all add: demo_request_def)
  have root: "data_root ''d'' = ''d/''" "db_root_dir fresh_database = ''d/''" "strip_slashes ''d/'' = ''d''"
    by (simp_all add: data_root_def fresh_database_def demo_database_def strip_slashes_def)
  have disk: "is_dir (strip_slashes (data_root ''d'')) ?s" "files_distinct ?s" "w_queue ?s = 0" "0 < w_queue_limit ?s"
    unfolding root by (simp_all add: is_dir_def files_distinct_def fresh_database_def demo_world_def)
  note room = fresh_database_room [unfolded root(2), folded root(1)]
  have ne: "''d'' \<noteq> ''''" "?labels \<noteq> []" by simp_all
  have index: "\<exists>x db'. (Inr {}, db) = (Inr x, db')" for db :: unit by simp
  from flushed_survives_restarts [where index = "\<lambda>dir db. (Inr {}, db)", OF ps conf ne index room(4,5) disk refl live(2,3) fits rq(1) fresh_database_writes threads,
      of silent_sqlite "\<lambda>k. False" "()" 1024 "\<lambda>row. None" "Datapoint 0 0 0"]
  show ?thesis unfolding rq live(1) pts(5) by (simp add: two_servers_def numeral_2_eq_2) blast
qed

end
