(* ===== verification/Flusher.thy ===== *)
theory Flusher
  imports EndToEnd
begin

text \<open>
  The flusher thread of \<open>Database::FlushWriteBuffers\<close>: pass after pass it empties the memory.
\<close>

section \<open>The flusher thread empties the memory\<close>

text \<open>The keys whose datapoints wait to be flushed.\<close>

definition waiting :: "'db database \<Rightarrow> string set" where
  "waiting st = {key. buffered st key \<noteq> []}"

lemma finite_waiting [simp]: "finite (waiting st)"
proof (rule finite_subset)
  show "waiting st \<subseteq> fst ` set (db_series st)"
    by (auto simp: waiting_def buffered_def dom_map_of_conv_image_fst [symmetric] split: option.splits)
qed simp

lemma waiting_world [simp]: "waiting (st\<lparr>db_series := xs, db_world := s\<rparr>) = waiting (st\<lparr>db_series := xs\<rparr>)"
  by (simp add: waiting_def buffered_def)

lemma waiting_contents: "key \<in> waiting st \<longleftrightarrow> contents st key \<noteq> {#}"
  by (simp add: waiting_def contents_def)

lemma waiting_empty: "waiting st = {} \<longleftrightarrow> buffered st = (\<lambda>key. [])"
  by (auto simp: waiting_def)

lemma waiting_cleared: "contents st' = clear_keys K (contents st) \<Longrightarrow> waiting st' = waiting st - K"
  by (auto simp: waiting_contents clear_keys_def split: if_splits)

lemma flush_waiting:
  assumes "database_ok ps st" and "flush_write_buffers cfg resort_at st = Some (Inr m, st')"
  shows "database_ok ps st'" and "card (waiting st) = card (waiting st') + m"
    and "waiting st' = {} \<or> 0 < m \<and> m mod 50 = 0"
proof -
  from flush_clears [OF assms] obtain K where K: "database_ok ps st'" "contents st' = clear_keys K (contents st)"
    "bags_flushed (contents st) (Inr m) K" by blast
  show "database_ok ps st'" by (rule K(1))
  have sub: "K \<subseteq> waiting st" and card: "card K = m" and all: "(\<forall>key. key \<notin> K \<longrightarrow> contents st key = {#}) \<or> 0 < m \<and> m mod 50 = 0"
    using K(3) by (auto simp: bags_flushed_def largest_def waiting_contents)
  note w = waiting_cleared [OF K(2)]
  show "card (waiting st) = card (waiting st') + m"
    using card_Diff_subset [of K "waiting st"] card_mono [of "waiting st" K] finite_subset [OF sub] sub card by (simp add: w)
  show "waiting st' = {} \<or> 0 < m \<and> m mod 50 = 0" using all w by (auto simp: waiting_contents)
qed

lemma flusher_pass_waiting:
  assumes "database_ok ps st" and "flusher_pass cfg clock interval (fl, st) = Some (Inr m, (fl', st'))"
  shows "database_ok ps st'" and "card (waiting st) = card (waiting st') + m" and "m < 50 \<longrightarrow> waiting st' = {}"
    and "fl_sleeps fl' = fl_sleeps fl + (if m = 0 then 1 else 0)"
proof -
  from assms(2) have run: "flush_write_buffers cfg (past_deadline clock fl) st = Some (Inr m, st')"
    and fl': "fl_sleeps fl' = fl_sleeps fl + (if m = 0 then 1 else 0)"
    by (auto simp: flusher_pass_def Let_def split: option.splits sum.splits prod.splits)
  note w = flush_waiting [OF assms(1) run]
  show "database_ok ps st'" by (rule w(1))
  show "fl_sleeps fl' = fl_sleeps fl + (if m = 0 then 1 else 0)" by (rule fl')
  show "card (waiting st) = card (waiting st') + m" by (rule w(2))
  show "m < 50 \<longrightarrow> waiting st' = {}" using w(3) by auto
qed

text \<open>
  Claim C10. The flusher thread empties the memory, however it is paced: of \<open>k\<close> series with
  datapoints in memory, passes over the series during which nothing is written and no flush fails
  leave none unflushed once there were \<open>k div 50 + 1\<close> of them, whatever the clock says.  A pass
  that flushes fewer than fifty is complete by itself.
\<close>

theorem flusher_empties_memory:
  assumes "database_ok ps st" and "flusher_passes cfg clock interval n (fl, st) = Some (Inr (), (fl', st'))"
    and "card (waiting st) < 50 * n"
  shows "database_ok ps st' \<and> buffered st' = (\<lambda>key. [])"
  using assms
proof (induction n arbitrary: fl st)
  case 0
  from 0(3) have False by simp
  then show ?case ..
next
  case (Suc n)
  from Suc.prems(2) obtain m fl1 st1 where pass: "flusher_pass cfg clock interval (fl, st) = Some (Inr m, (fl1, st1))"
    and rest: "flusher_passes cfg clock interval n (fl1, st1) = Some (Inr (), (fl', st'))"
    by (auto split: option.splits sum.splits)
  note p = flusher_pass_waiting [OF Suc.prems(1) pass]
  show ?case
  proof (cases "n = 0")
    case True
    with rest p Suc.prems(3) show ?thesis by (simp add: waiting_empty)
  next
    case False
    have "card (waiting st1) < 50 * n"
    proof (cases "m < 50")
      case True
      with p(3) False show ?thesis by simp
    next
      case False
      moreover have "50 * Suc n = 50 * n + 50" by simp
      ultimately show ?thesis using p(2) Suc.prems(3) by linarith
    qed
    from Suc.IH [OF p(1) rest this] show ?thesis .
  qed
qed

text \<open>A database with one series of three datapoints in memory and room for its file.\<close>

definition waiting_series_demo :: series where
  "waiting_series_demo = fresh_series\<lparr>sr_buffer := sr_buffer (demo_series [Datapoint 20 1 5, Datapoint 10 2 5, Datapoint 20 3 5] False)\<rparr>"

definition waiting_database :: "unit database" where
  "waiting_database = fresh_database\<lparr>db_series := [(''host=a;'', waiting_series_demo)]\<rparr>"

theorem flusher_empties_memory_witness:
  "\<exists>fl' st'. flusher_passes demo_config (\<lambda>k. 0) 60000 1 (start_flusher (\<lambda>k. 0) 60000, waiting_database) = Some (Inr (), (fl', st')) \<and>
    buffered waiting_database ''host=a;'' \<noteq> [] \<and> buffered st' = (\<lambda>key. [])"
proof -
  let ?pts = "[Datapoint 20 1 5, Datapoint 10 2 5, Datapoint 20 3 5]" and ?sr = waiting_series_demo and ?st = waiting_database
  have len: "length ?pts = 3" by simp
  have b: "wb_ok (sr_buffer ?sr)" "wb_points (sr_buffer ?sr) = ?pts"
    using demo_series_buffer(1,2) [OF len, of False] by (simp_all add: waiting_series_demo_def)
  have sorted: "wb_sorted_ok (sr_buffer ?sr)" by (simp add: wb_sorted_ok_def waiting_series_demo_def demo_series_def)
  have "list_all dp_ok ?pts" "disjoint_points ?pts" "one_duration ?pts" "list_all (\<lambda>p. 0 \<le> dp_duration p) ?pts" by code_simp+
  then have fits: "fits_one_file demo_config (wb_points (sr_buffer ?sr))"
    by (simp add: b(2) fits_one_file_def demo_config_def default_config_def datapoint_size_def)
  have room: "room_for (sr_dir ?sr) (db_world ?st)"
    using fresh_database_room(5) by (simp add: waiting_series_demo_def waiting_database_def)
  have conf: "sparse_file_max_size demo_config div datapoint_size < 2147483647"
    by (simp add: demo_config_def default_config_def datapoint_size_def)
  have one: "db_series ?st = [(''host=a;'', ?sr)]" by (simp add: waiting_database_def)
  have "stored (db_world ?st) [] (sr_dir ?sr)" "none_earlier [] (wb_points (sr_buffer ?sr))"
    using room by (simp_all add: stored_def none_earlier_def)
  moreover have "writes_ok (db_world ?st)" using fresh_database_writes by (simp add: waiting_database_def)
  ultimately obtain sr' s' where
    fl: "flush_buffered_datapoints demo_config ?sr (db_world ?st) = Some ((Inr (), sr'), s')"
    using fits_one_file_D [OF fits] series_flush_stored [OF _ b(1) sorted refl, of "db_world ?st" "[]" demo_config] conf
    by (metis append_Nil)
  have ne: "wb_points (sr_buffer ?sr) \<noteq> []" by (simp add: b(2))
  have run: "\<exists>fl' st'. flusher_passes demo_config (\<lambda>k. 0) 60000 1 (start_flusher (\<lambda>k. 0) 60000, ?st) = Some (Inr (), (fl', st'))"
    using flush_one_series [OF one ne b(1) fl] by (simp add: flusher_pass_def Let_def)
  then obtain fl' st' where passes: "flusher_passes demo_config (\<lambda>k. 0) 60000 1 (start_flusher (\<lambda>k. 0) 60000, ?st) = Some (Inr (), (fl', st'))"
    by blast
  have ok: "database_ok demo_params ?st"
    using b(1) by (simp add: database_ok_def waiting_database_def fresh_database_def demo_database_def series_ok_def
        waiting_series_demo_def fresh_series_def series_key_def demo_params_def)
  have buf: "buffered ?st = (\<lambda>key. if key = ''host=a;'' then ?pts else [])"
    using one b(2) by (auto simp: buffered_def)
  then have "waiting ?st = {''host=a;''}" by (auto simp: waiting_def)
  then have few: "card (waiting ?st) < 50 * 1" by simp
  from flusher_empties_memory [OF ok passes few] passes buf show ?thesis by (intro exI [of _ fl'] exI [of _ st']) simp
qed

text \<open>
  The deadline moves by one interval for each pass it cuts short, however late the clock is.  A
  thread that had nothing to do for an hour looks for the largest buffers again after every fifty
  flushes, until the deadline has caught up.
\<close>

lemma flush_round_cut:
  "flush_round cfg resort_at keys n st = Some (Inr m, st') \<Longrightarrow> n < 50 \<Longrightarrow> resort_at 50 \<Longrightarrow> m \<le> 50"
proof (induction keys arbitrary: n st)
  case (Cons key keys)
  let ?sr = "the (map_of (fst st) key)"
  show ?case
  proof (cases "series_datapoints_buffered ?sr = 0")
    case True
    with Cons show ?thesis by simp
  next
    case False
    show ?thesis
    proof (cases "n = 49")
      case True
      with Cons.prems False show ?thesis by (auto simp: Let_def split: option.splits sum.splits prod.splits)
    next
      case less: False
      with Cons.prems(2) have "(n + 1) mod 50 \<noteq> 0" "n + 1 < 50" by auto
      with Cons.prems False show ?thesis
        by (auto simp: Let_def split: option.splits sum.splits prod.splits dest!: Cons.IH)
    qed
  qed
qed simp

theorem late_flusher_stops_at_fifty:
  assumes "fl_deadline fl \<le> clock (fl_readings fl + 1)" and "flusher_pass cfg clock interval (fl, st) = Some (Inr m, x)"
  shows "m \<le> 50"
proof -
  from assms(2) obtain y where
    "flush_round cfg (past_deadline clock fl) (flush_order (db_series st)) 0 (db_series st, db_world st) = Some (Inr m, y)"
    by (auto simp: flusher_pass_def flush_write_buffers_def Let_def split: option.splits sum.splits prod.splits)
  from flush_round_cut [OF this] assms(1) show ?thesis by (simp add: past_deadline_def)
qed

end
