(* ===== verification/Worker.thy ===== *)
theory Worker
  imports Prelude "HOL-Library.Sublist"
begin

text \<open>
  \<open>worker.h\<close>: the worker thread and the threads that hand it tasks, as a step relation.

  Every thread is at a program counter; a step is one action another thread can observe.
  Threads \<open>0..<n\<close> call \<open>Do(task).wait()\<close>; tasks are numbered in the order they are
  accepted.  A call refused for a full queue throws and changes nothing, so it is no step.  The
  condition variable wakes only on notification: spurious wake-ups are allowed by C++ but
  nothing may rely on them.
\<close>

section \<open>States and steps\<close>

text \<open>The places of \<open>DoTasks\<close>: loop test, predicate of the wait, between the predicate and the
  wait, waiting, claiming a task, running it, left.\<close>

datatype worker_pc = LoopTest | TestTasks | AboutToWait | OnCondition | Claiming | RunningTask nat | Died

text \<open>The places of a caller: outside, queue size checked, task pushed, waiting for the future.\<close>

datatype caller_pc = Outside | SizeChecked | TaskPushed nat | OnFuture nat

record worker =
  wk_pc :: worker_pc
  wk_tasks :: "nat list"
  wk_keep_processing :: bool
  wk_alive :: bool
  wk_finished :: "nat list"
  wk_accepted :: nat
  wk_callers :: "nat \<Rightarrow> caller_pc"

definition start_worker :: worker where
  "start_worker = \<lparr>wk_pc = LoopTest, wk_tasks = [], wk_keep_processing = True, wk_alive = True, wk_finished = [],
     wk_accepted = 0, wk_callers = (\<lambda>_. Outside)\<rparr>"

text \<open>\<open>tasks_available.notify_one()\<close>.\<close>

definition notified :: "worker_pc \<Rightarrow> worker_pc" where
  "notified pc = (if pc = OnCondition then TestTasks else pc)"

inductive worker_step :: "nat \<Rightarrow> nat \<Rightarrow> worker \<Rightarrow> worker \<Rightarrow> bool" for limit n where
  do_check: "i < n \<Longrightarrow> wk_callers w i = Outside \<Longrightarrow> length (wk_tasks w) < limit \<Longrightarrow>
    worker_step limit n w (w\<lparr>wk_callers := (wk_callers w)(i := SizeChecked)\<rparr>)"
| do_push: "i < n \<Longrightarrow> wk_callers w i = SizeChecked \<Longrightarrow>
    worker_step limit n w (w\<lparr>wk_tasks := wk_tasks w @ [wk_accepted w], wk_accepted := wk_accepted w + 1,
      wk_callers := (wk_callers w)(i := TaskPushed (wk_accepted w))\<rparr>)"
| do_notify: "i < n \<Longrightarrow> wk_callers w i = TaskPushed t \<Longrightarrow>
    worker_step limit n w (w\<lparr>wk_pc := notified (wk_pc w), wk_callers := (wk_callers w)(i := OnFuture t)\<rparr>)"
| do_wait: "i < n \<Longrightarrow> wk_callers w i = OnFuture t \<Longrightarrow> t \<in> set (wk_finished w) \<Longrightarrow>
    worker_step limit n w (w\<lparr>wk_callers := (wk_callers w)(i := Outside)\<rparr>)"
| stop: "wk_keep_processing w \<Longrightarrow> worker_step limit n w (w\<lparr>wk_keep_processing := False\<rparr>)"
| loop_enter: "wk_pc w = LoopTest \<Longrightarrow> wk_keep_processing w \<Longrightarrow> worker_step limit n w (w\<lparr>wk_pc := TestTasks\<rparr>)"
| loop_leave: "wk_pc w = LoopTest \<Longrightarrow> \<not> wk_keep_processing w \<Longrightarrow>
    worker_step limit n w (w\<lparr>wk_pc := Died, wk_alive := False\<rparr>)"
| test_some: "wk_pc w = TestTasks \<Longrightarrow> wk_tasks w \<noteq> [] \<Longrightarrow> worker_step limit n w (w\<lparr>wk_pc := Claiming\<rparr>)"
| test_none: "wk_pc w = TestTasks \<Longrightarrow> wk_tasks w = [] \<Longrightarrow> worker_step limit n w (w\<lparr>wk_pc := AboutToWait\<rparr>)"
| wait: "wk_pc w = AboutToWait \<Longrightarrow> worker_step limit n w (w\<lparr>wk_pc := OnCondition\<rparr>)"
| claim: "wk_pc w = Claiming \<Longrightarrow> wk_tasks w = t # ts \<Longrightarrow>
    worker_step limit n w (w\<lparr>wk_pc := RunningTask t, wk_tasks := ts\<rparr>)"
| run_task: "wk_pc w = RunningTask t \<Longrightarrow>
    worker_step limit n w (w\<lparr>wk_pc := LoopTest, wk_finished := wk_finished w @ [t]\<rparr>)"

inductive_cases worker_step_E: "worker_step limit n w w'"

text \<open>\<open>TasksQueued\<close> and \<open>Alive\<close>.\<close>

definition tasks_queued :: "worker \<Rightarrow> nat" where "tasks_queued w = length (wk_tasks w)"

definition worker_alive :: "worker \<Rightarrow> bool" where "worker_alive w = wk_alive w"

definition worker_reaches :: "nat \<Rightarrow> nat \<Rightarrow> worker \<Rightarrow> worker \<Rightarrow> bool" where
  "worker_reaches limit n = (worker_step limit n)\<^sup>*\<^sup>*"

lemma worker_invariant:
  assumes "worker_reaches limit n start_worker w" and "I start_worker"
    and "\<And>v v'. I v \<Longrightarrow> worker_step limit n v v' \<Longrightarrow> I v'"
  shows "I w"
  using assms(1) unfolding worker_reaches_def
  by (induction rule: rtranclp_induct) (auto intro: assms(2,3))

section \<open>First in, first out\<close>

definition current_task :: "worker \<Rightarrow> nat list" where
  "current_task w = (case wk_pc w of RunningTask t \<Rightarrow> [t] | _ \<Rightarrow> [])"

text \<open>
  Claim C17. Whatever the interleaving, every accepted task is exactly once either finished,
  running or queued, and tasks are finished in the order in which they were accepted.
\<close>

theorem worker_first_in_first_out:
  assumes "worker_reaches limit n start_worker w"
  shows "wk_finished w @ current_task w @ wk_tasks w = [0..<wk_accepted w]"
  using assms
proof (rule worker_invariant)
  show "wk_finished start_worker @ current_task start_worker @ wk_tasks start_worker = [0..<wk_accepted start_worker]"
    by (simp add: start_worker_def current_task_def)
  show "wk_finished v' @ current_task v' @ wk_tasks v' = [0..<wk_accepted v']"
    if "wk_finished v @ current_task v @ wk_tasks v = [0..<wk_accepted v]" "worker_step limit n v v'" for v v'
    using that(2,1) by cases (auto simp: current_task_def notified_def split: worker_pc.splits)
qed

section \<open>The bound on the queue\<close>

definition callers_checked :: "nat \<Rightarrow> worker \<Rightarrow> nat set" where
  "callers_checked n w = {i. i < n \<and> wk_callers w i = SizeChecked}"

lemma finite_callers_checked [simp]: "finite (callers_checked n w)"
  by (simp add: callers_checked_def)

lemma card_callers_checked: "card (callers_checked n w) \<le> n"
  using card_mono [of "{..<n}" "callers_checked n w"] by (auto simp: callers_checked_def)

text \<open>
  Claim C18. The size check is made outside the mutex, so the queue can pass its limit; but with
  \<open>n\<close> calling threads it never holds more than \<open>n - 1\<close> tasks beyond the limit.
\<close>

theorem worker_queue_bound:
  assumes "worker_reaches limit n start_worker w" and "0 < n"
  shows "tasks_queued w \<le> limit + n - 1"
proof -
  let ?I = "\<lambda>w. length (wk_tasks w) + card (callers_checked n w) \<le> limit + n - 1"
  have "?I w"
  proof (rule worker_invariant [OF assms(1)])
    show "?I start_worker" by (simp add: start_worker_def callers_checked_def)
    show "?I v'" if "?I v" and step: "worker_step limit n v v'" for v v'
      using step
    proof cases
      case (do_check i)
      have "card (callers_checked n v') \<le> n" by (rule card_callers_checked)
      with do_check show ?thesis by simp
    next
      case (do_push i)
      then have i: "i \<in> callers_checked n v" by (simp add: callers_checked_def)
      have "callers_checked n v' = callers_checked n v - {i}"
        using do_push by (auto simp: callers_checked_def)
      moreover from i have "0 < card (callers_checked n v)" by (auto simp: card_gt_0_iff)
      ultimately show ?thesis using that(1) i do_push(1) by simp
    next
      case (do_notify i t)
      then have "callers_checked n v' \<subseteq> callers_checked n v" by (auto simp: callers_checked_def)
      then have "card (callers_checked n v') \<le> card (callers_checked n v)" by (intro card_mono) simp_all
      with that(1) do_notify(1) show ?thesis by simp
    next
      case (do_wait i t)
      then have "callers_checked n v' \<subseteq> callers_checked n v" by (auto simp: callers_checked_def)
      then have "card (callers_checked n v') \<le> card (callers_checked n v)" by (intro card_mono) simp_all
      with that(1) do_wait(1) show ?thesis by simp
    qed (use that(1) in \<open>simp_all add: callers_checked_def\<close>)
  qed
  then show ?thesis by (simp add: tasks_queued_def)
qed

section \<open>The lost wake-up\<close>

lemma worker_reaches_step:
  "worker_reaches limit n v w \<Longrightarrow> worker_step limit n w w' \<Longrightarrow> worker_reaches limit n v w'"
  by (simp add: worker_reaches_def)

text \<open>
  Claim C20. A wake-up can be lost: the predicate of the wait is tested under one mutex and
  tasks are pushed under another, so a notification between the test and the wait reaches
  nobody.  Even with a single caller a state is reachable in which its task is queued, the
  worker waits and the caller waits for the worker, and no step but \<open>Stop\<close> is possible.
\<close>

theorem worker_wake_up_lost:
  assumes "0 < limit"
  shows "\<exists>w. worker_reaches limit 1 start_worker w \<and> wk_tasks w = [0] \<and> wk_callers w 0 = OnFuture 0 \<and>
    wk_pc w = OnCondition \<and> (\<forall>w'. worker_step limit 1 w w' \<longrightarrow> w' = w\<lparr>wk_keep_processing := False\<rparr>)"
proof -
  let ?w0 = start_worker
  let ?w1 = "?w0\<lparr>wk_pc := TestTasks\<rparr>"
  let ?w2 = "?w1\<lparr>wk_pc := AboutToWait\<rparr>"
  let ?w3 = "?w2\<lparr>wk_callers := (wk_callers ?w2)(0 := SizeChecked)\<rparr>"
  let ?w4 = "?w3\<lparr>wk_tasks := wk_tasks ?w3 @ [wk_accepted ?w3], wk_accepted := wk_accepted ?w3 + 1,
    wk_callers := (wk_callers ?w3)(0 := TaskPushed (wk_accepted ?w3))\<rparr>"
  let ?w5 = "?w4\<lparr>wk_pc := notified (wk_pc ?w4), wk_callers := (wk_callers ?w4)(0 := OnFuture 0)\<rparr>"
  let ?w6 = "?w5\<lparr>wk_pc := OnCondition\<rparr>"
  have "worker_reaches limit 1 ?w0 ?w0" by (simp add: worker_reaches_def)
  moreover have "worker_step limit 1 ?w0 ?w1" by (rule loop_enter) (simp_all add: start_worker_def)
  moreover have "worker_step limit 1 ?w1 ?w2" by (rule test_none) (simp_all add: start_worker_def)
  moreover have "worker_step limit 1 ?w2 ?w3" using assms by (intro do_check) (simp_all add: start_worker_def)
  moreover have "worker_step limit 1 ?w3 ?w4" by (rule do_push) simp_all
  moreover have "worker_step limit 1 ?w4 ?w5" by (rule do_notify) (simp_all add: start_worker_def)
  moreover have "worker_step limit 1 ?w5 ?w6" by (rule wait) (simp add: notified_def)
  ultimately have reach: "worker_reaches limit 1 ?w0 ?w6" by (meson worker_reaches_step)
  have w6: "wk_tasks ?w6 = [0]" "wk_callers ?w6 0 = OnFuture 0" "wk_pc ?w6 = OnCondition" "wk_finished ?w6 = []"
    by (simp_all add: start_worker_def)
  have "w' = ?w6\<lparr>wk_keep_processing := False\<rparr>" if "worker_step limit 1 ?w6 w'" for w'
    using that by cases (simp_all add: start_worker_def)
  with reach w6 show ?thesis by blast
qed

theorem worker_wake_up_lost_witness:
  "\<exists>w. worker_reaches 16 1 start_worker w \<and> wk_tasks w = [0] \<and> wk_pc w = OnCondition \<and>
     (\<forall>w'. worker_step 16 1 w w' \<longrightarrow> w' = w\<lparr>wk_keep_processing := False\<rparr>)"
  using worker_wake_up_lost [of 16] by auto

section \<open>Progress\<close>

text \<open>
  A step of the worker itself, a step of a caller, and runs of both in any order in which nobody
  calls \<open>Stop\<close>; the number counts the worker's own steps.
\<close>

definition own_step :: "nat \<Rightarrow> worker \<Rightarrow> worker \<Rightarrow> bool" where
  "own_step limit w w' \<longleftrightarrow> worker_step limit 0 w w' \<and> wk_keep_processing w' = wk_keep_processing w"

definition caller_step :: "nat \<Rightarrow> nat \<Rightarrow> worker \<Rightarrow> worker \<Rightarrow> bool" where
  "caller_step limit n w w' \<longleftrightarrow> worker_step limit n w w' \<and> wk_callers w' \<noteq> wk_callers w"

inductive worker_run :: "nat \<Rightarrow> nat \<Rightarrow> nat \<Rightarrow> worker \<Rightarrow> worker \<Rightarrow> bool" for limit n where
  run_nothing: "worker_run limit n 0 w w"
| run_own: "worker_run limit n k w v \<Longrightarrow> own_step limit v v' \<Longrightarrow> worker_run limit n (Suc k) w v'"
| run_caller: "worker_run limit n k w v \<Longrightarrow> caller_step limit n v v' \<Longrightarrow> worker_run limit n k w v'"

text \<open>
  What holds on the way to having finished the tasks \<open>goal\<close>: they are the first, finished, running
  or queued, and the worker does not wait for a notification before they are finished.
\<close>

definition goal_ok :: "nat list \<Rightarrow> worker \<Rightarrow> bool" where
  "goal_ok goal v \<longleftrightarrow> wk_keep_processing v \<and> wk_pc v \<noteq> Died \<and> (wk_pc v = Claiming \<longrightarrow> wk_tasks v \<noteq> []) \<and>
     prefix goal (wk_finished v @ current_task v @ wk_tasks v) \<and>
     (wk_pc v = AboutToWait \<or> wk_pc v = OnCondition \<longrightarrow> prefix goal (wk_finished v))"

lemma goal_ok_step:
  assumes "goal_ok goal v" and "worker_step limit n v v'" and "wk_keep_processing v'"
  shows "goal_ok goal v'"
  using assms(2,1,3)
  by cases (auto simp: goal_ok_def current_task_def notified_def prefix_append split: worker_pc.splits)

lemma goal_ok_own: "goal_ok goal v \<Longrightarrow> own_step limit v v' \<Longrightarrow> goal_ok goal v'"
  using goal_ok_step [of goal v limit 0 v'] by (simp add: own_step_def goal_ok_def)

lemma goal_ok_caller: "goal_ok goal v \<Longrightarrow> caller_step limit n v v' \<Longrightarrow> goal_ok goal v'"
  using goal_ok_step [of goal v limit n v'] unfolding caller_step_def
  by (auto simp: goal_ok_def elim!: worker_step_E)

text \<open>The steps the worker still needs: four for each task, less those it has made for the next.\<close>

definition steps_made :: "worker_pc \<Rightarrow> nat" where
  "steps_made pc = (case pc of TestTasks \<Rightarrow> 1 | Claiming \<Rightarrow> 2 | RunningTask t \<Rightarrow> 3 | _ \<Rightarrow> 0)"

definition steps_left :: "nat list \<Rightarrow> worker \<Rightarrow> nat" where
  "steps_left goal v = 4 * (length goal - length (wk_finished v)) - steps_made (wk_pc v)"

lemma unfinished_length: "prefix goal (xs @ ys) \<Longrightarrow> \<not> prefix goal xs \<Longrightarrow> length xs < length goal"
  by (metis append_Nil2 leI prefix_append prefix_length_prefix prefixI)

lemma goal_progress:
  assumes "goal_ok goal v" and "\<not> prefix goal (wk_finished v)"
  shows "\<exists>v'. own_step limit v v'" and "0 < steps_left goal v"
    and "own_step limit v v' \<Longrightarrow> \<not> prefix goal (wk_finished v') \<Longrightarrow> steps_left goal v' < steps_left goal v"
proof -
  have len: "length (wk_finished v) < length goal"
    using assms unfinished_length [of goal "wk_finished v" "current_task v @ wk_tasks v"] by (simp add: goal_ok_def)
  moreover have made: "steps_made pc < 4" for pc by (simp add: steps_made_def split: worker_pc.split)
  ultimately show left: "0 < steps_left goal v" using made [of "wk_pc v"] unfolding steps_left_def by linarith
  show "\<exists>v'. own_step limit v v'"
    using assms by (cases "wk_pc v"; cases "wk_tasks v"; fastforce simp: goal_ok_def own_step_def intro: worker_step.intros)
  show "steps_left goal v' < steps_left goal v" if "own_step limit v v'" "\<not> prefix goal (wk_finished v')"
    using that(1) unfolding own_step_def
  proof (elim conjE worker_step_E)
    fix t assume v': "v' = v\<lparr>wk_pc := LoopTest, wk_finished := wk_finished v @ [t]\<rparr>" and pc: "wk_pc v = RunningTask t"
    have "goal_ok goal v'" using goal_ok_own [OF assms(1) that(1)] .
    then have "length (wk_finished v') < length goal"
      using that(2) unfinished_length [of goal "wk_finished v'" "current_task v' @ wk_tasks v'"] by (simp add: goal_ok_def)
    then show ?thesis by (simp add: v' pc steps_left_def steps_made_def)
  qed (use assms len left in \<open>auto simp: goal_ok_def current_task_def steps_left_def steps_made_def\<close>)
qed

text \<open>A worker that is not stopped is not dead, and claims a task only where there is one.\<close>

lemma worker_lives:
  assumes "worker_reaches limit n start_worker w"
  shows "(wk_keep_processing w \<longrightarrow> wk_pc w \<noteq> Died) \<and> (wk_pc w = Claiming \<longrightarrow> wk_tasks w \<noteq> [])"
proof (rule worker_invariant [OF assms])
  let ?I = "\<lambda>v. (wk_keep_processing v \<longrightarrow> wk_pc v \<noteq> Died) \<and> (wk_pc v = Claiming \<longrightarrow> wk_tasks v \<noteq> [])"
  show "?I start_worker" by (simp add: start_worker_def)
  show "?I v'" if "?I v" "worker_step limit n v v'" for v v'
    using that(2,1) by cases (auto simp: notified_def)
qed

text \<open>
  Claim C19. A worker that has not been stopped and does not wait for a notification finishes
  everything in its queue, in order, provided each task ends.  In every run, whatever the callers do between its steps
  and wherever the run is broken off: as long as it has not finished every task it had, the worker can make a
  step of its own, and it has made fewer than four for each of them.
\<close>

theorem worker_finishes_queue:
  assumes "worker_reaches limit n start_worker w" and "wk_keep_processing w"
    and "wk_pc w \<noteq> AboutToWait" and "wk_pc w \<noteq> OnCondition" and "worker_run limit n k w v"
  shows "prefix (wk_finished w @ current_task w @ wk_tasks w) (wk_finished v) \<or>
    k < 4 * length (current_task w @ wk_tasks w) \<and> (\<exists>v'. own_step limit v v')"
proof -
  let ?goal = "wk_finished w @ current_task w @ wk_tasks w"
  have "goal_ok ?goal v \<and> (prefix ?goal (wk_finished v) \<or> k + steps_left ?goal v \<le> 4 * length (current_task w @ wk_tasks w))"
    using assms(5,1-4)
  proof induction
    case (run_nothing w)
    then show ?case using worker_lives by (auto simp: goal_ok_def steps_left_def)
  next
    case (run_own k w v v')
    let ?goal = "wk_finished w @ current_task w @ wk_tasks w"
    from run_own have ok: "goal_ok ?goal v"
      and left: "prefix ?goal (wk_finished v) \<or> k + steps_left ?goal v \<le> 4 * length (current_task w @ wk_tasks w)" by blast+
    have "prefix (wk_finished v) (wk_finished v')"
      using run_own(2) unfolding own_step_def by (auto elim: worker_step_E)
    with left goal_progress(3) [OF ok _ run_own(2)] goal_ok_own [OF ok run_own(2)] show ?case
      by (fastforce dest: prefix_order.trans)
  next
    case (run_caller k w v v')
    let ?goal = "wk_finished w @ current_task w @ wk_tasks w"
    from run_caller have ok: "goal_ok ?goal v"
      and left: "prefix ?goal (wk_finished v) \<or> k + steps_left ?goal v \<le> 4 * length (current_task w @ wk_tasks w)" by blast+
    have "wk_finished v' = wk_finished v" "steps_made (wk_pc v') = steps_made (wk_pc v) \<or> wk_pc v = OnCondition"
      using run_caller(2) unfolding caller_step_def by (auto simp: notified_def elim!: worker_step_E)
    with left ok goal_ok_caller [OF ok run_caller(2)] show ?case by (auto simp: steps_left_def goal_ok_def)
  qed
  with goal_progress(1,2) [of ?goal v] show ?thesis by fastforce
qed

text \<open>A reachable state with one task in the queue.\<close>

definition one_task :: worker where
  "one_task = start_worker\<lparr>wk_tasks := [0], wk_accepted := 1, wk_callers := (\<lambda>_. Outside)(0 := TaskPushed 0)\<rparr>"

lemma one_task_reachable: "worker_reaches 16 1 start_worker one_task"
proof -
  let ?w1 = "start_worker\<lparr>wk_callers := (wk_callers start_worker)(0 := SizeChecked)\<rparr>"
  have "worker_step 16 1 start_worker ?w1" by (rule do_check) (simp_all add: start_worker_def)
  moreover have "worker_step 16 1 ?w1 (?w1\<lparr>wk_tasks := wk_tasks ?w1 @ [wk_accepted ?w1], wk_accepted := wk_accepted ?w1 + 1,
      wk_callers := (wk_callers ?w1)(0 := TaskPushed (wk_accepted ?w1))\<rparr>)"
    by (rule do_push) simp_all
  moreover have "(?w1\<lparr>wk_tasks := wk_tasks ?w1 @ [wk_accepted ?w1], wk_accepted := wk_accepted ?w1 + 1,
      wk_callers := (wk_callers ?w1)(0 := TaskPushed (wk_accepted ?w1))\<rparr>) = one_task"
    by (simp add: one_task_def start_worker_def)
  ultimately show ?thesis unfolding worker_reaches_def
    by (metis converse_rtranclp_into_rtranclp r_into_rtranclp)
qed

text \<open>Four steps of the worker, in which it finishes that task.\<close>

lemma one_task_run: "\<exists>v. worker_run 16 1 4 one_task v"
proof -
  let ?w1 = "one_task\<lparr>wk_pc := TestTasks\<rparr>"
  let ?w2 = "?w1\<lparr>wk_pc := Claiming\<rparr>"
  let ?w3 = "?w2\<lparr>wk_pc := RunningTask 0, wk_tasks := []\<rparr>"
  let ?w4 = "?w3\<lparr>wk_pc := LoopTest, wk_finished := wk_finished ?w3 @ [0]\<rparr>"
  have w: "wk_pc one_task = LoopTest" "wk_keep_processing one_task" "wk_tasks one_task = [0]"
    by (simp_all add: one_task_def start_worker_def)
  have "worker_step 16 0 one_task ?w1" by (rule loop_enter) (simp_all add: w)
  moreover have "worker_step 16 0 ?w1 ?w2" by (rule test_some) (simp_all add: w)
  moreover have "worker_step 16 0 ?w2 ?w3" by (rule claim) (simp_all add: w)
  moreover have "worker_step 16 0 ?w3 ?w4" by (rule run_task) simp
  ultimately have own: "own_step 16 one_task ?w1" "own_step 16 ?w1 ?w2" "own_step 16 ?w2 ?w3" "own_step 16 ?w3 ?w4"
    unfolding own_step_def by simp_all
  have "worker_run 16 1 (Suc (Suc (Suc (Suc 0)))) one_task ?w4"
    by (rule run_own [OF run_own [OF run_own [OF run_own [OF run_nothing own(1)] own(2)] own(3)] own(4)])
  then show ?thesis by (auto simp: numeral_eq_Suc)
qed

theorem worker_finishes_queue_witness:
  "\<exists>v. worker_run 16 1 4 one_task v \<and> prefix [0] (wk_finished v)"
proof -
  obtain v where v: "worker_run 16 1 4 one_task v" using one_task_run by blast
  have w: "wk_keep_processing one_task" "wk_pc one_task \<noteq> AboutToWait" "wk_pc one_task \<noteq> OnCondition"
    "wk_finished one_task = []" "current_task one_task @ wk_tasks one_task = [0]"
    by (simp_all add: one_task_def start_worker_def current_task_def)
  from worker_finishes_queue [OF one_task_reachable w(1-3) v] have "prefix [0] (wk_finished v)"
    unfolding w(4,5) by simp
  with v show ?thesis by blast
qed

theorem worker_first_in_first_out_witness:
  "wk_finished one_task @ current_task one_task @ wk_tasks one_task = [0..<wk_accepted one_task] \<and> wk_tasks one_task = [0]"
  using worker_first_in_first_out [OF one_task_reachable] by (simp add: one_task_def)

theorem worker_queue_bound_witness: "tasks_queued one_task \<le> 16 + 1 - 1 \<and> tasks_queued one_task = 1"
  using worker_queue_bound [OF one_task_reachable] by (simp add: tasks_queued_def one_task_def)

end
