(* ===== verification/WorkerStop.thy ===== *)
theory WorkerStop
  imports Worker
begin

text \<open>
  \<open>Stop\<close> of \<open>worker.h\<close> and \<open>Database::~Database\<close> (\<open>db.cc\<close>), which stops one worker after the
  other and waits for each to die.

  The destructor runs in one thread beside the workers; nobody else hands out tasks any more.
  Stopping takes a worker out of its loop after the task it has claimed, so what is queued then
  is never run; and the wake-up that \<open>Stop\<close> sends can be lost like any other.
\<close>

section \<open>Stopping a worker\<close>

text \<open>The places of \<open>Stop().wait()\<close>: not called yet, flag cleared, queue size checked, empty task
  pushed, waiting for \<open>will_die\<close>, returned.\<close>

datatype stop_pc = NotStopped | FlagCleared | WakeChecked | WakePushed | OnWillDie | Stopped

text \<open>What the thread that calls \<open>Stop\<close> does; a full queue is caught and needs no wake-up.\<close>

inductive stop_step :: "nat \<Rightarrow> worker \<times> stop_pc \<Rightarrow> worker \<times> stop_pc \<Rightarrow> bool" for limit where
  clear_flag: "stop_step limit (w, NotStopped) (w\<lparr>wk_keep_processing := False\<rparr>, FlagCleared)"
| wake_refused: "limit \<le> length (wk_tasks w) \<Longrightarrow> stop_step limit (w, FlagCleared) (w, OnWillDie)"
| wake_check: "length (wk_tasks w) < limit \<Longrightarrow> stop_step limit (w, FlagCleared) (w, WakeChecked)"
| wake_push: "stop_step limit (w, WakeChecked)
    (w\<lparr>wk_tasks := wk_tasks w @ [wk_accepted w], wk_accepted := wk_accepted w + 1\<rparr>, WakePushed)"
| wake_notify: "stop_step limit (w, WakePushed) (w\<lparr>wk_pc := notified (wk_pc w)\<rparr>, OnWillDie)"
| has_died: "wk_pc w = Died \<Longrightarrow> stop_step limit (w, OnWillDie) (w, Stopped)"

inductive_cases stop_step_E: "stop_step limit x y"

section \<open>The destructor of the database\<close>

text \<open>
  The workers run side by side; the destructor stops the first that it has not stopped yet.
\<close>

inductive destroy_step :: "nat \<Rightarrow> (worker \<times> stop_pc) list \<Rightarrow> (worker \<times> stop_pc) list \<Rightarrow> bool" for limit where
  worker_runs: "i < length xs \<Longrightarrow> xs ! i = (w, pc) \<Longrightarrow> worker_step limit 0 w w' \<Longrightarrow>
    wk_keep_processing w' = wk_keep_processing w \<Longrightarrow> destroy_step limit xs (xs[i := (w', pc)])"
| worker_stops: "i < length xs \<Longrightarrow> \<forall>j < i. snd (xs ! j) = Stopped \<Longrightarrow> stop_step limit (xs ! i) y \<Longrightarrow>
    destroy_step limit xs (xs[i := y])"

definition start_destructor :: "worker list \<Rightarrow> (worker \<times> stop_pc) list" where
  "start_destructor ws = map (\<lambda>w. (w, NotStopped)) ws"

section \<open>What a stopped worker still does\<close>

text \<open>Whether the worker is between the loop test and the end of a task.\<close>

definition in_round :: "worker_pc \<Rightarrow> nat" where
  "in_round pc = (case pc of LoopTest \<Rightarrow> 0 | Died \<Rightarrow> 0 | _ \<Rightarrow> 1)"

lemma in_round_notified [simp]: "in_round (notified pc) = in_round pc"
  by (simp add: in_round_def notified_def)

lemma stopped_worker_step:
  assumes "worker_step limit n w w'" and "\<not> wk_keep_processing w"
  shows "\<not> wk_keep_processing w' \<and>
    length (wk_finished w') + in_round (wk_pc w') \<le> length (wk_finished w) + in_round (wk_pc w) \<and>
    length (wk_tasks w) + length (wk_finished w) + length (current_task w) \<le>
      length (wk_tasks w') + length (wk_finished w') + length (current_task w')"
  using assms
  by (cases; auto simp: in_round_def current_task_def notified_def split: worker_pc.splits)

text \<open>
  A worker whose flag is cleared finishes at most one more task, whatever its queue holds and its
  callers do: all others stay in the queue.
\<close>

theorem stopped_worker_drops_queue:
  assumes "worker_reaches limit n w w'" and "\<not> wk_keep_processing w"
  shows "length (wk_finished w') \<le> length (wk_finished w) + 1 \<and>
    length (wk_tasks w) \<le> length (wk_tasks w') + 1"
proof -
  let ?total = "\<lambda>w. length (wk_tasks w) + length (wk_finished w) + length (current_task w)"
  let ?I = "\<lambda>v. \<not> wk_keep_processing v \<and>
    length (wk_finished v) + in_round (wk_pc v) \<le> length (wk_finished w) + in_round (wk_pc w) \<and> ?total w \<le> ?total v"
  have "?I w'"
    using assms(1) unfolding worker_reaches_def
  proof (induction rule: rtranclp_induct)
    case (step v v')
    then show ?case using stopped_worker_step [OF step(2)] by auto
  qed (simp add: assms(2))
  moreover have "in_round (wk_pc w) \<le> 1" by (simp add: in_round_def split: worker_pc.split)
  moreover have "length (current_task w') \<le> in_round (wk_pc w')"
    by (simp add: current_task_def in_round_def split: worker_pc.split)
  ultimately show ?thesis by linarith
qed

text \<open>A worker with two tasks in its queue, stopped while it runs a third.\<close>

definition stopped_while_busy :: worker where
  "stopped_while_busy = start_worker\<lparr>wk_pc := RunningTask 0, wk_tasks := [1, 2], wk_keep_processing := False, wk_accepted := 3\<rparr>"

definition dead_worker :: worker where
  "dead_worker = stopped_while_busy\<lparr>wk_pc := Died, wk_finished := [0], wk_alive := False\<rparr>"

lemma dead_worker_reached: "worker_reaches limit n stopped_while_busy dead_worker"
proof -
  let ?w1 = "stopped_while_busy\<lparr>wk_pc := LoopTest, wk_finished := wk_finished stopped_while_busy @ [0]\<rparr>"
  have "worker_step limit n stopped_while_busy ?w1" by (rule run_task) (simp add: stopped_while_busy_def)
  moreover have "worker_step limit n ?w1 (?w1\<lparr>wk_pc := Died, wk_alive := False\<rparr>)"
    by (rule loop_leave) (simp_all add: stopped_while_busy_def)
  moreover have "?w1\<lparr>wk_pc := Died, wk_alive := False\<rparr> = dead_worker"
    by (simp add: dead_worker_def stopped_while_busy_def start_worker_def)
  ultimately show ?thesis unfolding worker_reaches_def
    by (metis converse_rtranclp_into_rtranclp r_into_rtranclp)
qed

theorem stopped_worker_drops_queue_witness:
  "length (wk_finished dead_worker) \<le> length (wk_finished stopped_while_busy) + 1 \<and> wk_tasks dead_worker = [1, 2]"
  using stopped_worker_drops_queue [OF dead_worker_reached]
  by (simp add: stopped_while_busy_def dead_worker_def)

section \<open>The destructor returns, or waits for a worker that has missed its wake-up\<close>

text \<open>What holds of a worker and the place of its \<open>Stop\<close>.\<close>

definition stop_ok :: "worker \<times> stop_pc \<Rightarrow> bool" where
  "stop_ok x \<longleftrightarrow> (case x of (w, pc) \<Rightarrow>
     (wk_pc w = Claiming \<longrightarrow> wk_tasks w \<noteq> []) \<and>
     (pc \<noteq> NotStopped \<longrightarrow> \<not> wk_keep_processing w) \<and>
     (pc \<in> {WakePushed, OnWillDie} \<longrightarrow> wk_tasks w \<noteq> [] \<or> wk_pc w = LoopTest \<or> wk_pc w = Died \<or> (\<exists>t. wk_pc w = RunningTask t)))"

lemma stop_ok_worker:
  "stop_ok (w, pc) \<Longrightarrow> worker_step limit 0 w w' \<Longrightarrow> wk_keep_processing w' = wk_keep_processing w \<Longrightarrow> stop_ok (w', pc)"
  by (erule worker_step_E) (auto simp: stop_ok_def)

lemma stop_ok_stop: "0 < limit \<Longrightarrow> stop_ok x \<Longrightarrow> stop_step limit x y \<Longrightarrow> stop_ok y"
  by (erule stop_step_E) (auto simp: stop_ok_def notified_def)

text \<open>Each step makes this smaller.\<close>

definition stop_rank :: "stop_pc \<Rightarrow> nat" where
  "stop_rank pc = (case pc of NotStopped \<Rightarrow> 20 | FlagCleared \<Rightarrow> 19 | WakeChecked \<Rightarrow> 18 | WakePushed \<Rightarrow> 12 | OnWillDie \<Rightarrow> 9 | Stopped \<Rightarrow> 0)"

definition worker_rank :: "worker_pc \<Rightarrow> nat" where
  "worker_rank pc = (case pc of RunningTask t \<Rightarrow> 5 | LoopTest \<Rightarrow> 4 | TestTasks \<Rightarrow> 3 | Claiming \<Rightarrow> 2 | AboutToWait \<Rightarrow> 2 | OnCondition \<Rightarrow> 1 | Died \<Rightarrow> 0)"

definition stop_measure :: "worker \<times> stop_pc \<Rightarrow> nat" where
  "stop_measure x = 5 * length (wk_tasks (fst x)) + worker_rank (wk_pc (fst x)) + stop_rank (snd x)"

lemma stop_measure_worker:
  "worker_step limit 0 w w' \<Longrightarrow> wk_keep_processing w' = wk_keep_processing w \<Longrightarrow> stop_measure (w', pc) < stop_measure (w, pc)"
  by (erule worker_step_E) (auto simp: stop_measure_def worker_rank_def)

lemma stop_measure_stop: "stop_step limit x y \<Longrightarrow> stop_measure y < stop_measure x"
  by (erule stop_step_E) (auto simp: stop_measure_def stop_rank_def worker_rank_def notified_def)

text \<open>Where nothing can happen to a worker that is being stopped.\<close>

definition misses_wake_up :: "worker \<times> stop_pc \<Rightarrow> bool" where
  "misses_wake_up x \<longleftrightarrow> snd x = OnWillDie \<and> wk_pc (fst x) = OnCondition \<and> wk_tasks (fst x) \<noteq> []"

lemma stop_progress:
  assumes "stop_ok (w, pc)" and "pc \<noteq> Stopped" and "\<not> misses_wake_up (w, pc)"
  shows "(\<exists>y. stop_step limit (w, pc) y) \<or> (\<exists>w'. worker_step limit 0 w w' \<and> wk_keep_processing w' = wk_keep_processing w)"
proof (cases "pc = OnWillDie")
  case False
  then show ?thesis using assms(2)
    by (cases pc; cases "length (wk_tasks w) < limit"; fastforce intro: stop_step.intros)
next
  case True
  have "\<not> wk_keep_processing w" using assms(1) True by (simp add: stop_ok_def)
  then show ?thesis using assms(1,3) True
    by (cases "wk_pc w"; cases "wk_tasks w";
        fastforce simp: stop_ok_def misses_wake_up_def intro: stop_step.intros worker_step.intros)
qed

definition destructor_measure :: "(worker \<times> stop_pc) list \<Rightarrow> nat" where
  "destructor_measure xs = sum_list (map stop_measure xs)"

lemma destructor_measure_update:
  assumes "i < length xs" and "stop_measure y < stop_measure (xs ! i)"
  shows "destructor_measure (xs[i := y]) < destructor_measure xs"
proof -
  have "stop_measure (xs ! i) \<le> sum_list (map stop_measure xs)"
    using assms(1) by (intro member_le_sum_list) auto
  with assms show ?thesis by (simp add: destructor_measure_def map_update sum_list_update)
qed

lemma destroy_step_ok:
  assumes "destroy_step limit xs ys" and "0 < limit" and "list_all stop_ok xs"
  shows "list_all stop_ok ys \<and> destructor_measure ys < destructor_measure xs"
proof -
  have ok: "stop_ok (xs ! i)" if "i < length xs" for i
    using assms(3) that by (simp add: list_all_length)
  have update: "list_all stop_ok (xs[i := y])" if "stop_ok y" for i y
    using assms(3) that set_update_subset_insert [of xs i y] by (auto simp: list_all_iff)
  from assms(1) show ?thesis
  proof cases
    case (worker_runs i w pc w')
    from stop_ok_worker [OF _ worker_runs(4,5)] ok [OF worker_runs(2)] worker_runs(3) update
      destructor_measure_update [OF worker_runs(2)] stop_measure_worker [OF worker_runs(4,5)]
    show ?thesis by (simp add: worker_runs(1))
  next
    case (worker_stops i y)
    from stop_ok_stop [OF assms(2) ok [OF worker_stops(2)] worker_stops(4)] update
      destructor_measure_update [OF worker_stops(2) stop_measure_stop [OF worker_stops(4)]]
    show ?thesis by (simp add: worker_stops(1))
  qed
qed

lemma destroy_steps_ok:
  "(destroy_step limit ^^ k) xs ys \<Longrightarrow> 0 < limit \<Longrightarrow> list_all stop_ok xs \<Longrightarrow>
     list_all stop_ok ys \<and> k + destructor_measure ys \<le> destructor_measure xs"
proof (induction k arbitrary: ys)
  case (Suc k)
  from Suc.prems(1) obtain zs where zs: "(destroy_step limit ^^ k) xs zs" "destroy_step limit zs ys" by auto
  from Suc.IH [OF zs(1) Suc.prems(2,3)] destroy_step_ok [OF zs(2) Suc.prems(2)] show ?case by auto
qed simp

lemma destroy_stuck:
  assumes "\<forall>ys. \<not> destroy_step limit xs ys" and "list_all stop_ok xs" and "\<not> list_all (\<lambda>x. snd x = Stopped) xs"
  shows "list_ex misses_wake_up xs"
proof -
  let ?P = "\<lambda>i. i < length xs \<and> snd (xs ! i) \<noteq> Stopped"
  from assms(3) have "\<exists>i. ?P i" by (auto simp: list_all_length)
  then obtain i where "?P i" and least: "\<forall>j < i. \<not> ?P j" unfolding exists_least_iff [of ?P] by blast
  then have i: "i < length xs" "snd (xs ! i) \<noteq> Stopped" and first: "\<forall>j < i. snd (xs ! j) = Stopped"
    by auto
  obtain w pc where x: "xs ! i = (w, pc)" by fastforce
  have "misses_wake_up (w, pc)"
  proof (rule ccontr)
    assume "\<not> misses_wake_up (w, pc)"
    moreover have "stop_ok (w, pc)" using assms(2) i(1) x [symmetric] by (simp add: list_all_length)
    ultimately have "(\<exists>y. stop_step limit (w, pc) y) \<or> (\<exists>w'. worker_step limit 0 w w' \<and> wk_keep_processing w' = wk_keep_processing w)"
      using i(2) x by (intro stop_progress) auto
    then show False using worker_stops [OF i(1) first] worker_runs [OF i(1) x] assms(1) x by metis
  qed
  then show ?thesis using i(1) x by (metis list_ex_length)
qed

lemma claiming_has_task:
  assumes "worker_reaches limit n start_worker w" and "wk_pc w = Claiming"
  shows "wk_tasks w \<noteq> []"
proof -
  have "wk_pc w = Claiming \<longrightarrow> wk_tasks w \<noteq> []"
  proof (rule worker_invariant [OF assms(1)])
    show "wk_pc start_worker = Claiming \<longrightarrow> wk_tasks start_worker \<noteq> []" by (simp add: start_worker_def)
    show "wk_pc v' = Claiming \<longrightarrow> wk_tasks v' \<noteq> []" if "wk_pc v = Claiming \<longrightarrow> wk_tasks v \<noteq> []" "worker_step limit n v v'" for v v'
      using that(2,1) by cases (auto simp: notified_def)
  qed
  then show ?thesis using assms(2) by blast
qed

lemma stop_measure_start: "stop_measure (w, NotStopped) \<le> 5 * length (wk_tasks w) + 25"
  by (simp add: stop_measure_def stop_rank_def worker_rank_def split: worker_pc.split)

text \<open>
  Claim C21. The destructor of the database, started at any moment in the life of its workers, makes
  at most twenty-five steps for each worker and five for each task in a queue.  Where it can go
  no further it has returned with every worker stopped, or a worker that it waits for sleeps
  beside a queue that is not empty, having missed the wake-up.
\<close>

theorem destructor_returns_unless_wake_up_missed:
  assumes "0 < limit" and "list_all (\<lambda>w. worker_reaches limit n start_worker w) ws"
  shows "(\<forall>k xs. (destroy_step limit ^^ k) (start_destructor ws) xs \<longrightarrow>
      k \<le> sum_list (map (\<lambda>w. 5 * length (wk_tasks w) + 25) ws)) \<and>
    (\<forall>xs. (destroy_step limit)\<^sup>*\<^sup>* (start_destructor ws) xs \<and> (\<forall>ys. \<not> destroy_step limit xs ys) \<longrightarrow>
      list_all (\<lambda>x. snd x = Stopped) xs \<or> list_ex misses_wake_up xs)"
proof -
  have ok: "list_all stop_ok (start_destructor ws)"
    using assms(2) claiming_has_task by (fastforce simp: start_destructor_def list_all_iff stop_ok_def)
  have bound: "destructor_measure (start_destructor ws) \<le> sum_list (map (\<lambda>w. 5 * length (wk_tasks w) + 25) ws)"
    unfolding destructor_measure_def start_destructor_def map_map o_def
    by (intro sum_list_mono) (rule stop_measure_start)
  note steps = destroy_steps_ok [OF _ assms(1) ok]
  have "k \<le> sum_list (map (\<lambda>w. 5 * length (wk_tasks w) + 25) ws)"
    if "(destroy_step limit ^^ k) (start_destructor ws) xs" for k xs
    using steps [OF that] bound by linarith
  moreover have "list_all (\<lambda>x. snd x = Stopped) xs \<or> list_ex misses_wake_up xs"
    if "(destroy_step limit)\<^sup>*\<^sup>* (start_destructor ws) xs" "\<forall>ys. \<not> destroy_step limit xs ys" for xs
  proof -
    from that(1) obtain k where "(destroy_step limit ^^ k) (start_destructor ws) xs" by (auto simp: rtranclp_power)
    from steps [OF this] destroy_stuck [OF that(2)] show ?thesis by blast
  qed
  ultimately show ?thesis by blast
qed

text \<open>
  Both happen.  A worker that has found its queue empty just before it is stopped, and sleeps
  just after, is never woken: the destructor waits for it for ever.
\<close>

theorem destructor_waits_for_ever:
  assumes "0 < limit"
  shows "\<exists>x. (destroy_step limit)\<^sup>*\<^sup>* (start_destructor [start_worker]) [x] \<and> misses_wake_up x \<and>
    (\<forall>ys. \<not> destroy_step limit [x] ys)"
proof -
  let ?w1 = "start_worker\<lparr>wk_pc := TestTasks\<rparr>"
  let ?w2 = "?w1\<lparr>wk_pc := AboutToWait\<rparr>"
  let ?w3 = "?w2\<lparr>wk_keep_processing := False\<rparr>"
  let ?w4 = "?w3\<lparr>wk_tasks := wk_tasks ?w3 @ [wk_accepted ?w3], wk_accepted := wk_accepted ?w3 + 1\<rparr>"
  let ?w5 = "?w4\<lparr>wk_pc := notified (wk_pc ?w4)\<rparr>"
  let ?w6 = "?w5\<lparr>wk_pc := OnCondition\<rparr>"
  have run: "destroy_step limit [(w, pc)] [(w', pc)]"
    if "worker_step limit 0 w w'" "wk_keep_processing w' = wk_keep_processing w" for w w' pc
    using worker_runs [of 0 "[(w, pc)]" w pc limit w'] that by simp
  have stops: "destroy_step limit [x] [y]" if "stop_step limit x y" for x y
    using worker_stops [of 0 "[x]" limit y] that by simp
  have "destroy_step limit [(start_worker, NotStopped)] [(?w1, NotStopped)]"
    by (rule run [OF loop_enter]) (simp_all add: start_worker_def)
  moreover have "destroy_step limit [(?w1, NotStopped)] [(?w2, NotStopped)]"
    by (rule run [OF test_none]) (simp_all add: start_worker_def)
  moreover have "destroy_step limit [(?w2, NotStopped)] [(?w3, FlagCleared)]" by (rule stops [OF clear_flag])
  moreover have "destroy_step limit [(?w3, FlagCleared)] [(?w3, WakeChecked)]"
    using assms by (intro stops wake_check) (simp add: start_worker_def)
  moreover have "destroy_step limit [(?w3, WakeChecked)] [(?w4, WakePushed)]" by (rule stops [OF wake_push])
  moreover have "destroy_step limit [(?w4, WakePushed)] [(?w5, OnWillDie)]" by (rule stops [OF wake_notify])
  moreover have "destroy_step limit [(?w5, OnWillDie)] [(?w6, OnWillDie)]"
    by (rule run [OF wait]) (simp_all add: notified_def)
  ultimately have "(destroy_step limit)\<^sup>*\<^sup>* [(start_worker, NotStopped)] [(?w6, OnWillDie)]"
    by (meson converse_rtranclp_into_rtranclp r_into_rtranclp)
  moreover have "misses_wake_up (?w6, OnWillDie)" by (simp add: misses_wake_up_def start_worker_def)
  moreover have "\<not> destroy_step limit [(?w6, OnWillDie)] ys" for ys
  proof
    assume "destroy_step limit [(?w6, OnWillDie)] ys"
    then show False
      by cases (auto elim!: stop_step_E worker_step_E)
  qed
  ultimately show ?thesis unfolding start_destructor_def by (intro exI [of _ "(?w6, OnWillDie)"]) simp
qed

theorem destructor_returns_unless_wake_up_missed_witness:
  "\<exists>xs. (destroy_step 16)\<^sup>*\<^sup>* (start_destructor [start_worker]) xs \<and> (\<forall>ys. \<not> destroy_step 16 xs ys) \<and>
     (list_all (\<lambda>x. snd x = Stopped) xs \<or> list_ex misses_wake_up xs)"
proof -
  obtain x where x: "(destroy_step 16)\<^sup>*\<^sup>* (start_destructor [start_worker]) [x]" "\<forall>ys. \<not> destroy_step 16 [x] ys"
    using destructor_waits_for_ever [of 16] by auto
  have "list_all (\<lambda>w. worker_reaches 16 1 start_worker w) [start_worker]" by (simp add: worker_reaches_def)
  with destructor_returns_unless_wake_up_missed [of 16 1 "[start_worker]"] x show ?thesis by (meson zero_less_numeral)
qed

end
