(* ===== verification/ControllerMain.thy ===== *)
theory ControllerMain
  imports DatabaseSteps
begin

text \<open>
  \<open>vqro_controller.cc\<close> and \<open>vqro/control/controller.h\<close>: the controller, a search index behind
  two services.  Nobody shuts its server down, so a server that has been built serves until the
  process is killed; and unlike the daemon's, its main program catches no exception.
\<close>

section \<open>The controller\<close>

text \<open>The file of the index, as the constructor of \<open>SearchEngine\<close> names it.\<close>

definition search_db_path :: "string \<Rightarrow> string \<Rightarrow> string" where
  "search_db_path db_dir search_db_file = db_dir @ search_db_file"

record 'db controller =
  ct_state_dir :: string
  ct_index :: 'db

text \<open>\<open>index\<close> opens the search engine of a directory.\<close>

definition Controller :: "(string \<Rightarrow> (string set, 'db) prog) \<Rightarrow> string \<Rightarrow> 'db \<Rightarrow> 'db controller res" where
  "Controller index dir db =
     (case index dir db of
       (Inl e, _) \<Rightarrow> Inl e
     | (Inr _, db1) \<Rightarrow> Inr \<lparr>ct_state_dir = dir, ct_index = db1\<rparr>)"

record controller_flags =
  cf_listen_ip :: string
  cf_listen_port :: int
  cf_h :: bool
  cf_state_directory :: string

text \<open>How the program ends, or that it serves.\<close>

datatype 'db controller_outcome =
    ControllerExit int
  | ControllerUncaught error
  | NullServerUsed
  | Serving string "'db controller"

text \<open>\<open>getcwd\<close> into 4096 bytes.\<close>

definition get_current_working_directory :: "errno + string \<Rightarrow> string res" where
  "get_current_working_directory getcwd =
     (case getcwd of Inl e \<Rightarrow> Inl (IOErr ''getcwd() failed'' e) | Inr working_dir \<Rightarrow> Inr working_dir)"

definition controller_run_server ::
  "(string \<Rightarrow> (string set, 'db) prog) \<Rightarrow> errno + string \<Rightarrow> bool \<Rightarrow> controller_flags \<Rightarrow> string \<Rightarrow> 'db \<Rightarrow> 'db controller_outcome" where
  "controller_run_server index getcwd built fl server_address db =
     (case Controller index (cf_state_directory fl) db of
       Inl e \<Rightarrow> ControllerUncaught e
     | Inr controller \<Rightarrow>
         (case get_current_working_directory getcwd of
           Inl e \<Rightarrow> ControllerUncaught e
         | Inr _ \<Rightarrow> if built then Serving server_address controller else NullServerUsed))"

definition vqro_controller_main ::
  "(string \<Rightarrow> (string set, 'db) prog) \<Rightarrow> errno + string \<Rightarrow> bool \<Rightarrow> controller_flags \<Rightarrow> 'db \<Rightarrow> 'db controller_outcome" where
  "vqro_controller_main index getcwd built fl db =
     (if cf_h fl then ControllerExit 0
      else if cf_state_directory fl = '''' then ControllerExit 1
      else controller_run_server index getcwd built fl (cf_listen_ip fl @ '':'' @ to_string (cf_listen_port fl)) db)"

section \<open>Where the index lies\<close>

lemma before_last_slash_append:
  "CHR ''/'' \<notin> set name \<Longrightarrow> before_last_slash (dir @ name) = before_last_slash dir"
proof -
  assume "CHR ''/'' \<notin> set name"
  then have "dropWhile (\<lambda>c. c \<noteq> CHR ''/'') (rev name @ rev dir) = dropWhile (\<lambda>c. c \<noteq> CHR ''/'') (rev dir)"
    by (intro dropWhile_append2) auto
  then show ?thesis by (simp add: before_last_slash_def)
qed

lemma before_last_slash_ends: "dir \<noteq> [] \<Longrightarrow> last dir = CHR ''/'' \<Longrightarrow> before_last_slash dir = Some (butlast dir)"
  by (cases dir rule: rev_cases) (simp_all add: before_last_slash_def)

text \<open>
  The file of the index lies in the directory of the daemon, which ends its name with a
  slash, but only beside the directory of a controller whose flag has no slash at its end: in the
  directory above.
\<close>

theorem controller_index_beside_directory:
  assumes "vqro_controller_main index getcwd built fl cdb = Serving addr c"
    and "Database ps open_index dir db s = Inr st" and "CHR ''/'' \<notin> set name"
  shows "ct_index c = snd (index (cf_state_directory fl) cdb) \<and>
    before_last_slash (search_db_path (ct_state_dir c) name) =
      (if last (cf_state_directory fl) = CHR ''/'' then Some (butlast (cf_state_directory fl))
       else before_last_slash (cf_state_directory fl)) \<and>
    before_last_slash (search_db_path (db_root_dir st) name) = Some (butlast (db_root_dir st))"
proof -
  have c: "cf_state_directory fl \<noteq> ''''" "ct_state_dir c = cf_state_directory fl" "ct_index c = snd (index (cf_state_directory fl) cdb)"
    using assms(1) by (auto simp: vqro_controller_main_def controller_run_server_def Controller_def
        split: if_splits sum.splits prod.splits)
  have "db_root_dir st \<noteq> [] \<and> last (db_root_dir st) = CHR ''/''"
    using assms(2) by (auto simp: Database_def Let_def split: if_splits sum.splits prod.splits)
  with c assms(3) show ?thesis by (simp add: search_db_path_def before_last_slash_append before_last_slash_ends)
qed

definition demo_controller_flags :: controller_flags where
  "demo_controller_flags = \<lparr>cf_listen_ip = ''127.0.0.1'', cf_listen_port = 7960, cf_h = False, cf_state_directory = ''/var/state''\<rparr>"

theorem controller_index_beside_directory_witness:
  "before_last_slash (search_db_path ''/var/state'' ''search.db'') = Some ''/var'' \<and>
   before_last_slash (search_db_path ''d/'' ''search.db'') = Some ''d''"
proof -
  let ?index = "\<lambda>dir db. (Inr {}, db)"
  have serves: "vqro_controller_main ?index (Inr ''/'') True demo_controller_flags () =
      Serving (''127.0.0.1'' @ '':'' @ to_string 7960) \<lparr>ct_state_dir = ''/var/state'', ct_index = ()\<rparr>"
    by (simp add: vqro_controller_main_def controller_run_server_def Controller_def get_current_working_directory_def
        demo_controller_flags_def)
  have name: "CHR ''/'' \<notin> set ''search.db''" by simp
  have facts: "db_root_dir (demo_database []) = ''d/''" "cf_state_directory demo_controller_flags = ''/var/state''"
    by (simp_all add: demo_database_def demo_controller_flags_def)
  have "before_last_slash ''/var/state'' = Some ''/var''" by code_simp
  with controller_index_beside_directory [OF serves demo_open name] show ?thesis by (simp add: facts)
qed

end
