(* ===== verification/Server.thy ===== *)
theory Server
  imports Main
begin

text \<open>
  \<open>vqro_server.cc\<close>: the daemon's main program.  Two threads share \<open>main_server\<close> under a
  mutex: the main thread, which builds the server, publishes it and waits for it, and the thread
  of \<open>HandleSignals\<close>, which shuts it down on a SIGTERM.  A step is one action the other thread
  can observe; \<open>BuildAndStart\<close> and \<open>Wait\<close> are the library's and may do what their
  documentation allows.
\<close>

section \<open>The two threads\<close>

text \<open>The places of \<open>RunServer\<close>: nothing built, a null pointer built, a server built, waiting,
  left with an exit code, left by an exception no one catches, a null pointer used.\<close>

datatype main_place = NotBuilt | NullBuilt | ServerBuilt | OnWait | Exited int | Uncaught | Segfault

text \<open>The places of the handler: in \<open>sigwait\<close>, in \<open>main_server->Shutdown()\<close> with the mutex.\<close>

datatype handler_place = SigWait | InShutdown

record daemon =
  dm_main :: main_place
  dm_handler :: handler_place
  dm_main_server :: bool
  dm_server_lives :: bool
  dm_shutdowns :: nat
  dm_sigterms :: nat

record server_flags =
  sf_h :: bool
  sf_data_directory :: string

text \<open>\<open>main\<close> up to \<open>RunServer\<close>.\<close>

definition start_daemon :: daemon where
  "start_daemon = \<lparr>dm_main = NotBuilt, dm_handler = SigWait, dm_main_server = False, dm_server_lives = False,
     dm_shutdowns = 0, dm_sigterms = 0\<rparr>"

definition vqro_server_main :: "server_flags \<Rightarrow> daemon" where
  "vqro_server_main fl =
     (if sf_h fl then start_daemon\<lparr>dm_main := Exited 0\<rparr>
      else if sf_data_directory fl = '''' then start_daemon\<lparr>dm_main := Exited 1\<rparr>
      else start_daemon)"

text \<open>\<open>Shutdown()\<close> as a whole: what the handler does between two calls of \<open>sigwait\<close>.\<close>

definition shutdown_call :: "daemon \<Rightarrow> daemon" where
  "shutdown_call d = (if dm_main_server d
     then d\<lparr>dm_shutdowns := dm_shutdowns d + 1, dm_main_server := False\<rparr> else d)"

text \<open>An exception out of the constructors or of \<open>Wait\<close> is caught when it is a \<open>vqro::Error\<close>.\<close>

definition left_by :: "bool \<Rightarrow> main_place" where
  "left_by is_error = (if is_error then Exited 1 else Uncaught)"

inductive daemon_step :: "daemon \<Rightarrow> daemon \<Rightarrow> bool" where
  setup_throws: "dm_main d = NotBuilt \<Longrightarrow> daemon_step d (d\<lparr>dm_main := left_by is_error\<rparr>)"
| build_ok: "dm_main d = NotBuilt \<Longrightarrow> daemon_step d (d\<lparr>dm_main := ServerBuilt, dm_server_lives := True\<rparr>)"
| build_fails: "dm_main d = NotBuilt \<Longrightarrow> daemon_step d (d\<lparr>dm_main := NullBuilt\<rparr>)"
| null_wait: "dm_main d = NullBuilt \<Longrightarrow> daemon_step d (d\<lparr>dm_main := Segfault\<rparr>)"
| publish: "dm_main d = ServerBuilt \<Longrightarrow> dm_handler d = SigWait \<Longrightarrow>
    daemon_step d (d\<lparr>dm_main := OnWait, dm_main_server := True\<rparr>)"
| wait_returns: "dm_main d = OnWait \<Longrightarrow> 0 < dm_shutdowns d \<Longrightarrow>
    daemon_step d (d\<lparr>dm_main := Exited 0, dm_server_lives := False\<rparr>)"
| wait_throws: "dm_main d = OnWait \<Longrightarrow> dm_handler d = SigWait \<Longrightarrow>
    daemon_step d (d\<lparr>dm_main := left_by is_error, dm_main_server := False, dm_server_lives := False\<rparr>)"
| sigterm_ignored: "dm_handler d = SigWait \<Longrightarrow> \<not> dm_main_server d \<Longrightarrow>
    daemon_step d (d\<lparr>dm_sigterms := dm_sigterms d + 1\<rparr>)"
| sigterm_shutdown: "dm_handler d = SigWait \<Longrightarrow> dm_main_server d \<Longrightarrow>
    daemon_step d (d\<lparr>dm_sigterms := dm_sigterms d + 1, dm_handler := InShutdown, dm_shutdowns := dm_shutdowns d + 1\<rparr>)"
| shutdown_done: "dm_handler d = InShutdown \<Longrightarrow>
    daemon_step d (d\<lparr>dm_handler := SigWait, dm_main_server := False\<rparr>)"

definition daemon_reaches :: "daemon \<Rightarrow> daemon \<Rightarrow> bool" where
  "daemon_reaches = daemon_step\<^sup>*\<^sup>*"

lemma daemon_reaches_step: "daemon_reaches d d' \<Longrightarrow> daemon_step d' d'' \<Longrightarrow> daemon_reaches d d''"
  unfolding daemon_reaches_def by (rule rtranclp.rtrancl_into_rtrancl)

section \<open>Shutting down\<close>

lemma shutdown_idempotent: "shutdown_call (shutdown_call d) = shutdown_call d"
  by (simp add: shutdown_call_def)

text \<open>The handler's two steps are one \<open>Shutdown()\<close>.\<close>

lemma handler_steps_are_shutdown:
  assumes "dm_handler d = SigWait"
  shows "daemon_reaches d ((shutdown_call d)\<lparr>dm_sigterms := dm_sigterms d + 1\<rparr>)"
proof (cases "dm_main_server d")
  case True
  let ?d1 = "d\<lparr>dm_sigterms := dm_sigterms d + 1, dm_handler := InShutdown, dm_shutdowns := dm_shutdowns d + 1\<rparr>"
  have "daemon_step d ?d1" using assms True by (rule sigterm_shutdown)
  moreover have "daemon_step ?d1 (?d1\<lparr>dm_handler := SigWait, dm_main_server := False\<rparr>)" by (rule shutdown_done) simp
  moreover have "?d1\<lparr>dm_handler := SigWait, dm_main_server := False\<rparr> = (shutdown_call d)\<lparr>dm_sigterms := dm_sigterms d + 1\<rparr>"
    using assms True by (simp add: shutdown_call_def)
  ultimately show ?thesis by (simp add: daemon_reaches_def)
next
  case False
  then show ?thesis using sigterm_ignored [OF assms False] by (simp add: daemon_reaches_def shutdown_call_def)
qed

text \<open>Who may hold a pointer to the server, and whether it has been shut down.\<close>

definition daemon_ok :: "daemon \<Rightarrow> bool" where
  "daemon_ok d \<longleftrightarrow>
     (dm_handler d = InShutdown \<longrightarrow> dm_main_server d \<and> dm_shutdowns d = 1) \<and>
     (dm_main_server d \<and> dm_handler d = SigWait \<longrightarrow> dm_main d = OnWait \<and> dm_shutdowns d = 0) \<and>
     (dm_main d = OnWait \<or> dm_main d = ServerBuilt \<longrightarrow> dm_server_lives d) \<and>
     (dm_main d = NotBuilt \<or> dm_main d = NullBuilt \<or> dm_main d = ServerBuilt \<longrightarrow>
       \<not> dm_main_server d \<and> dm_handler d = SigWait \<and> dm_shutdowns d = 0) \<and>
     dm_shutdowns d \<le> 1"

lemma daemon_step_ok: "daemon_step d d' \<Longrightarrow> daemon_ok d \<Longrightarrow> daemon_ok d'"
  by (induction rule: daemon_step.induct) (auto simp: daemon_ok_def left_by_def)

lemma daemon_reaches_ok:
  assumes "daemon_reaches (vqro_server_main fl) d" shows "daemon_ok d"
proof -
  have "daemon_step\<^sup>*\<^sup>* (vqro_server_main fl) d" using assms by (simp add: daemon_reaches_def)
  then show ?thesis
  proof (induction rule: rtranclp_induct)
    case base
    show ?case by (simp add: vqro_server_main_def start_daemon_def daemon_ok_def)
  next
    case (step d d')
    then show ?case using daemon_step_ok by blast
  qed
qed

text \<open>
  Claim C32. However signals, the library and the main thread interleave, the published server
  is shut down at most once; a handler that finds it published finds it alive and not yet
  shut down; and while the handler holds the mutex nothing clears the pointer under it.
\<close>

theorem server_shut_down_once:
  assumes "daemon_reaches (vqro_server_main fl) d"
  shows "dm_shutdowns d \<le> 1 \<and> (dm_main_server d \<and> dm_handler d = SigWait \<longrightarrow> dm_server_lives d \<and> dm_shutdowns d = 0) \<and>
    (dm_handler d = InShutdown \<longrightarrow> dm_main_server d)"
  using daemon_reaches_ok [OF assms] unfolding daemon_ok_def by blast

text \<open>A daemon that runs, and that a SIGTERM has reached.\<close>

definition terminated_daemon :: daemon where
  "terminated_daemon = \<lparr>dm_main = OnWait, dm_handler = InShutdown, dm_main_server = True, dm_server_lives = True,
     dm_shutdowns = 1, dm_sigterms = 1\<rparr>"

definition data_flags :: server_flags where "data_flags = \<lparr>sf_h = False, sf_data_directory = ''/data''\<rparr>"

definition built_daemon :: daemon where
  "built_daemon = start_daemon\<lparr>dm_main := ServerBuilt, dm_server_lives := True\<rparr>"

lemma built_daemon_reachable: "daemon_reaches (vqro_server_main data_flags) built_daemon"
proof -
  have "vqro_server_main data_flags = start_daemon" by (simp add: vqro_server_main_def data_flags_def)
  moreover have "daemon_step start_daemon built_daemon"
    unfolding built_daemon_def by (rule build_ok) (simp add: start_daemon_def)
  ultimately show ?thesis by (simp add: daemon_reaches_def)
qed

lemma terminated_daemon_reachable: "daemon_reaches (vqro_server_main data_flags) terminated_daemon"
proof -
  let ?d1 = "built_daemon\<lparr>dm_main := OnWait, dm_main_server := True\<rparr>"
  have s1: "daemon_step built_daemon ?d1" by (rule publish) (simp_all add: built_daemon_def start_daemon_def)
  have s2: "daemon_step ?d1 (?d1\<lparr>dm_sigterms := dm_sigterms ?d1 + 1, dm_handler := InShutdown,
      dm_shutdowns := dm_shutdowns ?d1 + 1\<rparr>)"
    by (rule sigterm_shutdown) (simp_all add: built_daemon_def start_daemon_def)
  have "daemon_reaches (vqro_server_main data_flags) (?d1\<lparr>dm_sigterms := dm_sigterms ?d1 + 1,
      dm_handler := InShutdown, dm_shutdowns := dm_shutdowns ?d1 + 1\<rparr>)"
    by (rule daemon_reaches_step [OF daemon_reaches_step [OF built_daemon_reachable s1] s2])
  then show ?thesis by (simp add: built_daemon_def start_daemon_def terminated_daemon_def)
qed

theorem server_shut_down_once_witness: "dm_shutdowns terminated_daemon \<le> 1 \<and> dm_handler terminated_daemon = InShutdown"
  using server_shut_down_once [OF terminated_daemon_reachable] by (simp add: terminated_daemon_def)

text \<open>
  A SIGTERM that arrives before the server is published is lost: the handler has taken it and
  done nothing, and the main thread waits for a server no one has shut down.
\<close>

theorem early_sigterm_lost:
  "\<exists>d. daemon_reaches (vqro_server_main data_flags) d \<and> dm_sigterms d = 1 \<and> dm_main d = OnWait \<and> dm_shutdowns d = 0 \<and>
    dm_handler d = SigWait"
proof -
  let ?d1 = "built_daemon\<lparr>dm_sigterms := dm_sigterms built_daemon + 1\<rparr>"
  let ?d2 = "?d1\<lparr>dm_main := OnWait, dm_main_server := True\<rparr>"
  have s1: "daemon_step built_daemon ?d1" by (rule sigterm_ignored) (simp_all add: built_daemon_def start_daemon_def)
  have s2: "daemon_step ?d1 ?d2" by (rule publish) (simp_all add: built_daemon_def start_daemon_def)
  have "daemon_reaches (vqro_server_main data_flags) ?d2"
    by (rule daemon_reaches_step [OF daemon_reaches_step [OF built_daemon_reachable s1] s2])
  then show ?thesis by (intro exI [of _ ?d2]) (simp add: built_daemon_def start_daemon_def)
qed

end
