(* ===== verification/Exceptions.thy ===== *)
theory Exceptions
  imports FileNames
begin

text \<open>
  The exception classes of \<open>base.h\<close>, \<open>db.h\<close>, \<open>sql_statement.h\<close> and \<open>worker.h\<close>: what their
  constructors leave in \<open>message\<close>, which handler catches them, and the class and message of the
  errors of the other theories.
\<close>

section \<open>The classes\<close>

datatype exception_class =
  Class_Error | Class_IOError | Class_DatabaseError | Class_InvalidSeriesProto | Class_SqliteError | Class_WorkerThreadTooBusy

text \<open>The class each derives from.\<close>

primrec base_class :: "exception_class \<Rightarrow> exception_class option" where
  "base_class Class_Error = None"
| "base_class Class_IOError = Some Class_Error"
| "base_class Class_DatabaseError = Some Class_Error"
| "base_class Class_InvalidSeriesProto = Some Class_DatabaseError"
| "base_class Class_SqliteError = Some Class_Error"
| "base_class Class_WorkerThreadTooBusy = Some Class_Error"

text \<open>
  What the constructors leave in \<open>message\<close>: called without a message, or with one.  Where the body
  of a default constructor says \<open>Error(...)\<close> it makes another object and drops it, after the
  base has been constructed without a message.
\<close>

definition Error_message :: "string option \<Rightarrow> string" where
  "Error_message msg = (case msg of None \<Rightarrow> ''Generic vqro error'' | Some m \<Rightarrow> m)"

definition IOError_message :: "string option \<Rightarrow> string" where
  "IOError_message msg = (case msg of None \<Rightarrow> Error_message None | Some m \<Rightarrow> Error_message (Some m))"

definition DatabaseError_message :: "string option \<Rightarrow> string" where
  "DatabaseError_message msg = (case msg of None \<Rightarrow> Error_message None | Some m \<Rightarrow> Error_message (Some (''DatabaseError: '' @ m)))"

definition InvalidSeriesProto_message :: "string option \<Rightarrow> string" where
  "InvalidSeriesProto_message msg = (case msg of
     None \<Rightarrow> DatabaseError_message None | Some m \<Rightarrow> DatabaseError_message (Some (''InvalidSeriesProto: '' @ m)))"

definition SqliteError_message :: "string option \<Rightarrow> string" where
  "SqliteError_message msg = (case msg of None \<Rightarrow> Error_message None | Some m \<Rightarrow> Error_message (Some (''SqliteError: '' @ m)))"

definition WorkerThreadTooBusy_message :: "string option \<Rightarrow> string" where
  "WorkerThreadTooBusy_message msg = (case msg of None \<Rightarrow> Error_message None | Some m \<Rightarrow> Error_message (Some m))"

lemmas message_defs = Error_message_def IOError_message_def DatabaseError_message_def InvalidSeriesProto_message_def
  SqliteError_message_def WorkerThreadTooBusy_message_def

text \<open>A handler for a class catches the classes that derive from it.\<close>

definition ancestors :: "exception_class \<Rightarrow> exception_class list" where
  "ancestors c = c # (case base_class c of
     None \<Rightarrow> []
   | Some b \<Rightarrow> b # (case base_class b of None \<Rightarrow> [] | Some a \<Rightarrow> [a]))"

definition catches :: "exception_class \<Rightarrow> exception_class \<Rightarrow> bool" where
  "catches handler c \<longleftrightarrow> handler \<in> set (ancestors c)"

lemma ancestors_complete: "c \<in> set (ancestors d) \<Longrightarrow> base_class c = Some b \<Longrightarrow> b \<in> set (ancestors d)"
  by (cases d) (auto simp: ancestors_def)

text \<open>Nobody can tell default-constructed exceptions apart by their message.\<close>

theorem default_messages_are_generic:
  "IOError_message None = Error_message None \<and> DatabaseError_message None = Error_message None \<and>
   InvalidSeriesProto_message None = Error_message None \<and> SqliteError_message None = Error_message None \<and>
   WorkerThreadTooBusy_message None = Error_message None"
  by (simp add: message_defs)

section \<open>The errors of the model\<close>

text \<open>
  What the operating system and the standard library say: the number and text of an \<open>errno\<close>, and
  the thread's number.
\<close>

record os_texts =
  os_errno :: "errno \<Rightarrow> int"
  os_strerror :: "errno \<Rightarrow> string"
  os_gettid :: int

text \<open>\<open>GetThreadId\<close>.\<close>

definition get_thread_id :: "os_texts \<Rightarrow> string" where
  "get_thread_id os = to_string (os_gettid os)"

definition io_error_from_errno :: "os_texts \<Rightarrow> string \<Rightarrow> errno \<Rightarrow> string" where
  "io_error_from_errno os msg e = IOError_message (Some (msg @ '' (errno='' @ to_string (os_errno os e) @ '' '' @ os_strerror os e @ '')''))"

text \<open>The class and the message of an exception of the program; the others are not its own.\<close>

definition vqro_exception :: "os_texts \<Rightarrow> error \<Rightarrow> (exception_class \<times> string) option" where
  "vqro_exception os e = (case e of
       IOErr msg err \<Rightarrow> Some (Class_IOError, io_error_from_errno os msg err)
     | IOErrMsg msg \<Rightarrow> Some (Class_IOError, IOError_message (Some msg))
     | InvalidSeriesProto msg \<Rightarrow> Some (Class_InvalidSeriesProto, InvalidSeriesProto_message (Some msg))
     | SqliteErr msg \<Rightarrow> Some (Class_SqliteError, SqliteError_message (Some msg))
     | WorkerThreadTooBusy \<Rightarrow> Some (Class_WorkerThreadTooBusy, WorkerThreadTooBusy_message (Some (''WorkerThreadTooBusy:'' @ get_thread_id os)))
     | LogicError _ \<Rightarrow> None | InvalidArgument _ \<Rightarrow> None | BadAlloc \<Rightarrow> None | SystemError \<Rightarrow> None
     | DivTrap \<Rightarrow> None | OutOfBounds \<Rightarrow> None)"

text \<open>What \<open>catch (c&)\<close> gets to see of an exception.\<close>

definition caught_message :: "exception_class \<Rightarrow> os_texts \<Rightarrow> error \<Rightarrow> string option" where
  "caught_message handler os e = (case vqro_exception os e of
       None \<Rightarrow> None
     | Some (c, message) \<Rightarrow> if catches handler c then Some message else None)"

lemma catch_Error: "caught_message Class_Error os e = map_option snd (vqro_exception os e)"
  by (cases e) (auto simp: caught_message_def vqro_exception_def catches_def ancestors_def)

text \<open>The handlers of \<open>InvalidSeriesProto\<close> and \<open>SqliteError\<close> see those and nothing else.\<close>

lemma catch_InvalidSeriesProto:
  "caught_message Class_InvalidSeriesProto os e =
     (case e of InvalidSeriesProto msg \<Rightarrow> Some (''DatabaseError: InvalidSeriesProto: '' @ msg) | _ \<Rightarrow> None)"
  by (cases e) (simp_all add: caught_message_def vqro_exception_def catches_def ancestors_def message_defs)

lemma catch_SqliteError:
  "caught_message Class_SqliteError os e = (case e of SqliteErr msg \<Rightarrow> Some (''SqliteError: '' @ msg) | _ \<Rightarrow> None)"
  by (cases e) (simp_all add: caught_message_def vqro_exception_def catches_def ancestors_def message_defs)

end
