(* ===== verification/ServerMain.thy ===== *)
theory ServerMain
  imports ControllerMain Server EndToEnd Exceptions
begin

text \<open>
  \<open>vqro_server.cc\<close>: the daemon from \<open>main\<close> to the database it serves.  \<open>Server\<close> has the two
  threads as steps that may throw at any moment; here is what the set-up of \<open>RunServer\<close> really
  does and throws, and that each way it ends is one that those steps allow.
\<close>

section \<open>Setting up\<close>

record daemon_flags = server_flags +
  df_listen_ip :: string
  df_listen_port :: int

text \<open>The constructor arguments of the database that are flags or the library's.\<close>

type_synonym 'db open_index = "string \<Rightarrow> (string set, 'db) prog"

datatype 'db daemon_setup =
    SetupThrows error
  | NullServer
  | ServerFor string "'db database"

text \<open>\<open>RunServer\<close> up to the call of \<open>Wait\<close>; \<open>built\<close> tells whether \<open>BuildAndStart\<close> has bound the port.\<close>

definition run_server ::
  "db_params \<Rightarrow> 'db open_index \<Rightarrow> errno + string \<Rightarrow> bool \<Rightarrow> daemon_flags \<Rightarrow> string \<Rightarrow> 'db \<Rightarrow> world \<Rightarrow> 'db daemon_setup" where
  "run_server ps index getcwd built fl server_address db s =
     (case Database ps index (sf_data_directory fl) db s of
       Inl e \<Rightarrow> SetupThrows e
     | Inr st \<Rightarrow>
         (case get_current_working_directory getcwd of
           Inl e \<Rightarrow> SetupThrows e
         | Inr working_dir \<Rightarrow> if built then ServerFor server_address st else NullServer))"

definition server_address :: "daemon_flags \<Rightarrow> string" where
  "server_address fl = df_listen_ip fl @ '':'' @ to_string (df_listen_port fl)"

text \<open>How the program ends, with what it prints, or that it serves.\<close>

datatype 'db main_outcome =
    MainExit int string
  | MainAborts
  | MainUncaught error
  | MainNullServer
  | MainServes string "'db database"

text \<open>
  \<open>main\<close> up to the call of \<open>Wait\<close>; \<open>sigmask_ok\<close> tells whether \<open>pthread_sigmask\<close> has blocked the
  signals, \<open>sighandler_ok\<close> whether the system starts the thread that waits for them.  That thread is
  started outside of the \<open>try\<close> block.
\<close>

definition daemon_main ::
  "os_texts \<Rightarrow> db_params \<Rightarrow> 'db open_index \<Rightarrow> errno + string \<Rightarrow> bool \<Rightarrow> bool \<Rightarrow> bool \<Rightarrow> daemon_flags \<Rightarrow> 'db \<Rightarrow> world \<Rightarrow> 'db main_outcome" where
  "daemon_main os ps index getcwd built sigmask_ok sighandler_ok fl db s =
     (if sf_h fl then MainExit 0 ''''
      else if sf_data_directory fl = '''' then MainExit 1 ''You must specify --data_directory''
      else if \<not> sigmask_ok then MainAborts
      else if \<not> sighandler_ok then MainUncaught SystemError
      else (case run_server ps index getcwd built fl (server_address fl) db s of
          SetupThrows e \<Rightarrow>
            (case caught_message Class_Error os e of
              Some message \<Rightarrow> MainExit 1 (''Failed to start server: '' @ message)
            | None \<Rightarrow> MainUncaught e)
        | NullServer \<Rightarrow> MainNullServer
        | ServerFor address st \<Rightarrow> MainServes address st))"

section \<open>What the set-up can throw\<close>

text \<open>The exceptions \<open>main\<close> catches, whatever the texts of the system.\<close>

definition is_vqro_error :: "error \<Rightarrow> bool" where
  "is_vqro_error e \<longleftrightarrow> (\<forall>os. caught_message Class_Error os e \<noteq> None)"

lemma is_vqro_error_simps [simp]:
  "is_vqro_error (IOErr msg err)" "is_vqro_error (IOErrMsg msg)" "is_vqro_error (SqliteErr msg)"
  by (simp_all add: is_vqro_error_def catch_Error vqro_exception_def)

lemma is_vqro_error_message: "is_vqro_error e \<Longrightarrow> \<exists>message. caught_message Class_Error os e = Some message"
  by (auto simp: is_vqro_error_def)

lemma create_directory_fuel_errors:
  "create_directory_fuel n p s = Some (Inl e, s') \<Longrightarrow> is_vqro_error e"
  by (induction n p s arbitrary: e s' rule: create_directory_fuel.induct)
    (auto split: sum.splits node.splits prod.splits option.splits if_splits)

lemma create_directory_errors:
  assumes "create_directory p s = (Inl e, s')"
  shows "is_vqro_error e"
proof -
  obtain r s1 where "create_directory_fuel (Suc (Suc (length p))) p s = Some (r, s1)"
    using create_directory_fuel_total [of p "Suc (length p)" s] by auto
  with assms create_directory_fuel_errors show ?thesis
    by (simp add: create_directory_def del: create_directory_fuel.simps)
qed

lemma search_engine_errors: "sqlite_errors (SearchEngine sq opened registered locking_mode journal_mode synchronous)"
proof -
  have "sqlite_errors (\<lambda>db. if b then (Inr (), db) else (Inl (sql_error sq msg db), db))" for b msg
    by (auto simp: sqlite_errors_def sql_error_def)
  moreover have "sqlite_errors (\<lambda>db. case sq_rows sq stmt db of
      (names, True) \<Rightarrow> (Inr (set names), db) | (names, False) \<Rightarrow> (Inl (sql_error sq msg db), db))" for stmt msg
    by (auto simp: sqlite_errors_def sql_error_def split: prod.splits bool.splits)
  ultimately show ?thesis unfolding SearchEngine_def by (intro sqlite_errors)
qed

lemma Database_errors:
  assumes "Database ps index dir db s = Inl e" and "dir \<noteq> ''''" and "\<And>root. sqlite_errors (index root)"
  shows "is_vqro_error e \<or> e = SystemError \<and> \<not> threads_ok ps"
  using assms unfolding Database_def start_threads Let_def
  by (auto simp: sqlite_errors_def split: prod.splits sum.splits if_splits
      dest!: create_directory_errors) (metis is_vqro_error_simps(3))+

text \<open>Where the main thread is then, in the steps of the two threads.\<close>

definition place_of :: "'db main_outcome \<Rightarrow> main_place" where
  "place_of out = (case out of
       MainExit code message \<Rightarrow> Exited code | MainAborts \<Rightarrow> Uncaught | MainUncaught e \<Rightarrow> Uncaught
     | MainNullServer \<Rightarrow> NullBuilt | MainServes address st \<Rightarrow> ServerBuilt)"

lemma run_server_cases:
  assumes "sf_data_directory fl \<noteq> ''''" and "\<And>root. sqlite_errors (index root)"
  obtains e where "run_server ps index getcwd built fl addr db s = SetupThrows e" and "is_vqro_error e"
  | "run_server ps index getcwd built fl addr db s = SetupThrows SystemError" and "\<not> threads_ok ps"
  | "run_server ps index getcwd built fl addr db s = NullServer" and "\<not> built"
  | st where "run_server ps index getcwd built fl addr db s = ServerFor addr st" and built and "db_series st = []"
    and "prefix (sf_data_directory fl) (db_root_dir st)"
proof (cases "Database ps index (sf_data_directory fl) db s")
  case (Inl e)
  with Database_errors [OF Inl assms] that(1,2) show ?thesis by (auto simp: run_server_def)
next
  case (Inr st)
  have st: "db_series st = []" "prefix (sf_data_directory fl) (db_root_dir st)"
    using Inr unfolding Database_def start_threads Let_def by (auto split: if_splits sum.splits prod.splits)
  show ?thesis
  proof (cases "get_current_working_directory getcwd")
    case cwd: (Inl e)
    then have "is_vqro_error e" by (auto simp: get_current_working_directory_def split: sum.splits)
    with Inr cwd that(1) show ?thesis by (simp add: run_server_def)
  next
    case cwd: (Inr wd)
    with Inr st that(3,4) show ?thesis by (cases built) (simp_all add: run_server_def)
  qed
qed

text \<open>Once the flags are accepted, the steps of the two threads lead to each of these ends.\<close>

lemma set_up_reaches:
  assumes "\<not> sf_h fl" and "sf_data_directory fl \<noteq> ''''" and "p \<in> {Exited 1, Uncaught, NullBuilt, ServerBuilt}"
  shows "\<exists>d. daemon_reaches (vqro_server_main (server_flags.truncate fl)) d \<and> dm_main d = p"
proof -
  have start: "vqro_server_main (server_flags.truncate fl) = start_daemon" "dm_main start_daemon = NotBuilt"
    using assms(1,2) by (simp_all add: vqro_server_main_def start_daemon_def server_flags.defs)
  have "\<exists>d. daemon_step start_daemon d \<and> dm_main d = p"
    using assms(3) setup_throws [OF start(2), of True] setup_throws [OF start(2), of False] build_fails [OF start(2)] build_ok [OF start(2)]
    by (fastforce simp: left_by_def)
  then show ?thesis by (auto simp: start(1) daemon_reaches_def)
qed


definition demo_os :: os_texts where
  "demo_os = \<lparr>os_errno = (\<lambda>e. 2), os_strerror = (\<lambda>e. ''No such file or directory''), os_gettid = 1\<rparr>"

definition demo_daemon_flags :: daemon_flags where
  "demo_daemon_flags = \<lparr>sf_h = False, sf_data_directory = ''d'', df_listen_ip = ''127.0.0.1'', df_listen_port = 7950\<rparr>"


end
