(* ===== verification/ProcUsage.thy ===== *)
theory ProcUsage
  imports Search "HOL-Library.Word"
begin

text \<open>
  \<open>vqro/base/base.h/.cc\<close>: the environment, the clock, and the sampling of a process's
  resources from \<open>/proc\<close>.

  Unsigned and signed \<open>long\<close>s are 64-bit words, so that sums, differences and the scaling of
  pages to bytes wrap as in the code.  The kernel's files are what a sample sees of them.  The
  quotient of two \<open>double\<close>s and its decimal form are a parameter.
\<close>

section \<open>Environment and clock\<close>

definition get_env_var :: "(string \<Rightarrow> string option) \<Rightarrow> string \<Rightarrow> string" where
  "get_env_var getenv var_name = (case getenv var_name of None \<Rightarrow> '''' | Some value \<Rightarrow> value)"

record timespec =
  tv_sec :: int
  tv_nsec :: int

definition time_in_millis :: "timespec \<Rightarrow> int" where
  "time_in_millis now = wrap64 (wrap64 (tv_sec now * 1000) + tv_nsec now sdiv 1000000)"

definition time_in_micros :: "timespec \<Rightarrow> int" where
  "time_in_micros now = wrap64 (wrap64 (tv_sec now * 1000000) + tv_nsec now sdiv 1000)"

section \<open>Formatted input\<close>

text \<open>The directives of the two \<open>fscanf\<close> formats; \<open>Skip_\<close> is a conversion with an asterisk.\<close>

datatype directive = Skip_d | Skip_u | Skip_s | Skip_c | Get_lu | Get_ld | Space | Literal char

text \<open>How \<open>fscanf\<close> ends: at the end of the format, at input that does not match, at the end of
  the file; with it the values assigned until then.\<close>

datatype scan_end = FormatDone | Mismatch | EndOfFile

text \<open>An optional sign and digits, after white space.\<close>

definition scan_number :: "string \<Rightarrow> scan_end + int \<times> string" where
  "scan_number s =
     (let s1 = dropWhile is_space s;
          sign = (case s1 of c # _ \<Rightarrow> if c = CHR ''-'' \<or> c = CHR ''+'' then [c] else [] | [] \<Rightarrow> []);
          s2 = drop (length sign) s1; digits = takeWhile is_digit s2; v = int (digits_value digits)
      in if s1 = [] then Inl EndOfFile
         else if digits = [] then Inl Mismatch
         else Inr (if sign = ''-'' then - v else v, dropWhile is_digit s2))"

fun scanf :: "directive list \<Rightarrow> string \<Rightarrow> 64 word list \<Rightarrow> scan_end \<times> 64 word list" where
  "scanf [] s vals = (FormatDone, vals)"
| "scanf (Space # ds) s vals = scanf ds (dropWhile is_space s) vals"
| "scanf (Literal c # ds) s vals = (case s of
       [] \<Rightarrow> (EndOfFile, vals) | x # xs \<Rightarrow> if x = c then scanf ds xs vals else (Mismatch, vals))"
| "scanf (Skip_c # ds) s vals = (case s of [] \<Rightarrow> (EndOfFile, vals) | x # xs \<Rightarrow> scanf ds xs vals)"
| "scanf (Skip_s # ds) s vals =
     (let s1 = dropWhile is_space s in
      if s1 = [] then (EndOfFile, vals) else scanf ds (dropWhile (\<lambda>c. \<not> is_space c) s1) vals)"
| "scanf (Skip_d # ds) s vals = (case scan_number s of Inl e \<Rightarrow> (e, vals) | Inr (_, rest) \<Rightarrow> scanf ds rest vals)"
| "scanf (Skip_u # ds) s vals = (case scan_number s of Inl e \<Rightarrow> (e, vals) | Inr (_, rest) \<Rightarrow> scanf ds rest vals)"
| "scanf (Get_lu # ds) s vals = (case scan_number s of
       Inl e \<Rightarrow> (e, vals) | Inr (v, rest) \<Rightarrow> scanf ds rest (vals @ [word_of_int v]))"
| "scanf (Get_ld # ds) s vals = (case scan_number s of
       Inl e \<Rightarrow> (e, vals) | Inr (v, rest) \<Rightarrow> scanf ds rest (vals @ [word_of_int v]))"

text \<open>\<open>fscanf\<close> returns \<open>EOF\<close> when the input ends before anything has been assigned, and otherwise
  how many values it has assigned.\<close>

definition scanf_is_eof :: "scan_end \<times> 64 word list \<Rightarrow> bool" where
  "scanf_is_eof r \<longleftrightarrow> fst r = EndOfFile \<and> snd r = []"

definition self_stat_format :: "directive list" where
  "self_stat_format =
     [Skip_d, Space, Skip_s, Space, Skip_c] @ concat (replicate 5 [Space, Skip_d]) @ concat (replicate 5 [Space, Skip_u]) @
     [Space, Get_lu, Get_lu, Space, Get_ld, Space, Get_ld] @ concat (replicate 4 [Space, Skip_d]) @
     [Space, Skip_u, Space, Get_lu, Space, Get_ld]"

definition stat_format :: "directive list" where
  "stat_format = map Literal ''cpu'' @ [Space, Get_lu, Space, Get_lu, Space, Get_lu, Space, Get_lu]"

section \<open>Sampling\<close>

record proc_stat =
  ps_user_ticks :: "64 word"
  ps_sys_ticks :: "64 word"
  ps_child_user_ticks :: "64 word"
  ps_child_sys_ticks :: "64 word"
  ps_vsize_bytes :: "64 word"
  ps_rss_bytes :: "64 word"
  ps_total_ticks :: "64 word"
  ps_open_fd :: "64 word"

definition ProcStat :: proc_stat where
  "ProcStat = \<lparr>ps_user_ticks = 0, ps_sys_ticks = 0, ps_child_user_ticks = 0, ps_child_sys_ticks = 0,
     ps_vsize_bytes = 0, ps_rss_bytes = 0, ps_total_ticks = 0, ps_open_fd = 0\<rparr>"

text \<open>
  What a sample finds: the two files and the number of entries of \<open>/proc/self/fd\<close>, where they can
  be opened, the size of a page, and what the uninitialised locals happen to hold.
\<close>

record proc_view =
  pv_self_stat :: "string option"
  pv_stat :: "string option"
  pv_fd_entries :: "nat option"
  pv_pagesize :: "64 word"
  pv_junk :: "nat \<Rightarrow> 64 word"

definition nth_or :: "'a list \<Rightarrow> nat \<Rightarrow> 'a \<Rightarrow> 'a" where
  "nth_or xs i x = (if i < length xs then xs ! i else x)"

definition read_proc_stat :: "proc_view \<Rightarrow> proc_stat \<Rightarrow> int \<times> proc_stat" where
  "read_proc_stat v s =
     (case pv_self_stat v of
       None \<Rightarrow> (- 1, s)
     | Some self_stat \<Rightarrow>
         let r = scanf self_stat_format self_stat [] in
         if scanf_is_eof r then (- 1, s)
         else
           let rss_pages = nth_or (snd r) 5 (pv_junk v 0);
               s1 = s\<lparr>ps_user_ticks := nth_or (snd r) 0 (ps_user_ticks s), ps_sys_ticks := nth_or (snd r) 1 (ps_sys_ticks s),
                      ps_child_user_ticks := nth_or (snd r) 2 (ps_child_user_ticks s),
                      ps_child_sys_ticks := nth_or (snd r) 3 (ps_child_sys_ticks s),
                      ps_vsize_bytes := nth_or (snd r) 4 (ps_vsize_bytes s), ps_rss_bytes := rss_pages * pv_pagesize v\<rparr>
           in (case pv_stat v of
             None \<Rightarrow> (- 1, s1)
           | Some stat \<Rightarrow>
               let r = scanf stat_format stat [];
                   ticks = map (\<lambda>i. nth_or (snd r) i (pv_junk v (i + 1))) [0..<4]
               in if scanf_is_eof r then (- 1, s1)
                  else
                    let s2 = s1\<lparr>ps_total_ticks := sum_list ticks\<rparr> in
                    (case pv_fd_entries v of
                      None \<Rightarrow> (- 1, s2\<lparr>ps_open_fd := 0\<rparr>)
                    | Some entries \<Rightarrow> (0, s2\<lparr>ps_open_fd := of_nat entries - 2\<rparr>))))"

section \<open>Logging\<close>

text \<open>The function's static variables, and what it logs.\<close>

record usage =
  us_first_time :: bool
  us_current :: proc_stat
  us_last :: proc_stat

definition start_usage :: usage where
  "start_usage = \<lparr>us_first_time = True, us_current = ProcStat, us_last = ProcStat\<rparr>"

datatype usage_log = NoLog | ErrorLog string | InfoLog string

text \<open>\<open>ratio a b\<close> is \<open>to_string((double)a / (double)b)\<close>.\<close>

definition log_resource_usage ::
  "(64 word \<Rightarrow> 64 word \<Rightarrow> string) \<Rightarrow> proc_view \<Rightarrow> usage \<Rightarrow> usage \<times> usage_log" where
  "log_resource_usage ratio v u =
     (if us_first_time u
      then (u\<lparr>us_last := snd (read_proc_stat v (us_last u)), us_first_time := False\<rparr>, NoLog)
      else
        let (ret, current) = read_proc_stat v (us_current u) in
        if ret = - 1 then (u\<lparr>us_current := current\<rparr>, ErrorLog ''ReadProcStat failed'')
        else
          let user_ticks_delta = ps_user_ticks current - ps_user_ticks (us_last u);
              sys_ticks_delta = ps_sys_ticks current - ps_sys_ticks (us_last u);
              total_ticks_delta = ps_total_ticks current - ps_total_ticks (us_last u);
              u' = u\<lparr>us_current := current, us_last := current\<rparr>
          in if total_ticks_delta = 0 then (u', NoLog)
             else (u', InfoLog (
               ''vsize_bytes='' @ to_string (uint (ps_vsize_bytes current)) @
               '' rss_bytes='' @ to_string (sint (ps_rss_bytes current)) @
               '' open_fd='' @ to_string (uint (ps_open_fd current)) @
               '' user_util='' @ ratio user_ticks_delta total_ticks_delta @
               '' sys_util='' @ ratio sys_ticks_delta total_ticks_delta)))"

section \<open>Reading what the kernel prints\<close>

definition print_nums :: "int list \<Rightarrow> string" where
  "print_nums ns = concat (map (\<lambda>n. '' '' @ to_string n) ns)"

text \<open>The line of \<open>/proc/self/stat\<close>: the name of the program in parentheses after its number.\<close>

definition self_stat_line :: "int \<Rightarrow> string \<Rightarrow> char \<Rightarrow> int list \<Rightarrow> string" where
  "self_stat_line pid comm state nums = to_string pid @ '' ('' @ comm @ '') '' @ [state] @ print_nums nums @ NL"

definition cpu_line :: "int list \<Rightarrow> string" where
  "cpu_line ticks = ''cpu '' @ print_nums ticks @ NL"

text \<open>What may follow a number.\<close>

definition ends_number :: "string \<Rightarrow> bool" where
  "ends_number s \<longleftrightarrow> (case s of [] \<Rightarrow> True | x # _ \<Rightarrow> \<not> is_digit x)"

lemma print_nums_simps [simp]:
  "print_nums [] = []" "print_nums (n # ns) = CHR '' '' # to_string n @ print_nums ns"
  "print_nums (ns @ ms) = print_nums ns @ print_nums ms"
  by (simp_all add: print_nums_def)

lemma space_is_space [simp]: "is_space (CHR '' '')" "\<not> is_digit (CHR '' '')"
  by (simp_all add: is_space_def is_digit_def)

lemma ends_number_simps [simp]: "ends_number (CHR '' '' # s)" "ends_number NL"
  by (simp_all add: ends_number_def NL_def is_digit_def)

lemma ends_number_print [simp]: "ends_number s \<Longrightarrow> ends_number (print_nums ns @ s)"
  by (cases ns) simp_all

lemma digits_then:
  assumes "ends_number s" and "\<forall>c \<in> set ds. is_digit c"
  shows "takeWhile is_digit (ds @ s) = ds" and "dropWhile is_digit (ds @ s) = s"
  using assms by (cases s; simp add: ends_number_def takeWhile_append2 dropWhile_append2)+

lemma number_starts: "\<exists>c cs. string_of_nat m = c # cs \<and> is_digit c"
  using string_of_nat_digits [of m] by (cases "string_of_nat m") auto

lemma dropWhile_space_number [simp]: "dropWhile is_space (to_string n @ s) = to_string n @ s"
proof -
  obtain c cs where "string_of_nat (nat n) = c # cs" "is_digit c" using number_starts by blast
  then show ?thesis using digit_not_special [of c] by (auto simp: to_string_def is_space_def)
qed

lemma to_string_not_empty [simp]: "to_string n \<noteq> []"
  by (simp add: to_string_def)

lemma scan_number_print:
  assumes "ends_number s"
  shows "scan_number (to_string n @ s) = Inr (n, s)" and "scan_number (CHR '' '' # to_string n @ s) = Inr (n, s)"
proof -
  have digits: "\<forall>c \<in> set (string_of_nat m). is_digit c" for m by (rule string_of_nat_digits)
  show "scan_number (to_string n @ s) = Inr (n, s)"
  proof (cases "n < 0")
    case True
    then have "to_string n = CHR ''-'' # string_of_nat (nat (- n))" by (simp add: to_string_def)
    with True show ?thesis using digits_then [OF assms digits] by (simp add: scan_number_def is_space_def Let_def)
  next
    case False
    then have n: "to_string n = string_of_nat (nat n)" by (simp add: to_string_def)
    obtain c cs where c: "string_of_nat (nat n) = c # cs" "is_digit c" using number_starts by blast
    have "\<not> is_space c \<and> c \<noteq> CHR ''-'' \<and> c \<noteq> CHR ''+''" using digit_not_special [OF c(2)] .
    moreover have "digits_value (c # cs) = nat n" by (metis c(1) digits_value_string_of_nat)
    ultimately show ?thesis using False n c(1) digits_then [OF assms digits, of "nat n"] by (simp add: scan_number_def Let_def)
  qed
  then show "scan_number (CHR '' '' # to_string n @ s) = Inr (n, s)" by (simp add: scan_number_def)
qed

lemma scanf_number [simp]:
  assumes "ends_number s"
  shows "scanf (Space # Skip_d # ds) (CHR '' '' # to_string n @ s) vals = scanf ds s vals"
    and "scanf (Space # Skip_u # ds) (CHR '' '' # to_string n @ s) vals = scanf ds s vals"
    and "scanf (Space # Get_lu # ds) (CHR '' '' # to_string n @ s) vals = scanf ds s (vals @ [word_of_int n])"
    and "scanf (Space # Get_ld # ds) (CHR '' '' # to_string n @ s) vals = scanf ds s (vals @ [word_of_int n])"
    and "scanf (Get_lu # ds) (CHR '' '' # to_string n @ s) vals = scanf ds s (vals @ [word_of_int n])"
    and "scanf (Skip_d # ds) (to_string n @ s) vals = scanf ds s vals"
  using scan_number_print [OF assms] by simp_all

lemma scanf_skip_numbers:
  assumes "ends_number s"
  shows "scanf (concat (replicate (length ns) [Space, Skip_d]) @ ds) (print_nums ns @ s) vals = scanf ds s vals"
    and "scanf (concat (replicate (length ns) [Space, Skip_u]) @ ds) (print_nums ns @ s) vals = scanf ds s vals"
  using assms by (induction ns) (simp_all del: scanf.simps)

lemma scanf_name:
  assumes "list_all (\<lambda>c. \<not> is_space c) comm" and "\<not> is_space state"
  shows "scanf (Space # Skip_s # Space # Skip_c # ds) ('' ('' @ comm @ '') '' @ [state] @ s) vals = scanf ds s vals"
proof -
  have p: "\<not> is_space (CHR ''('')" "\<not> is_space (CHR '')'')" by (simp_all add: is_space_def)
  have word: "dropWhile (\<lambda>c. \<not> is_space c) (comm @ CHR '')'' # CHR '' '' # state # s) = CHR '' '' # state # s"
    using assms(1) p by (induction comm) simp_all
  with p assms(2) show ?thesis by simp
qed

text \<open>The samples of the first file.\<close>

lemma scanf_self_stat:
  assumes "list_all (\<lambda>c. \<not> is_space c) comm" and "\<not> is_space state"
    and "length ids = 5" and "length faults = 5" and "length counts = 4"
  shows "scanf self_stat_format (self_stat_line pid comm state
      (ids @ faults @ [user, sys, cuser, csys] @ counts @ start # vsize # rss # rest)) [] =
    (FormatDone, map word_of_int [user, sys, cuser, csys, vsize, rss])"
proof -
  let ?s2 = "print_nums (start # vsize # rss # rest) @ NL" and ?tail = "[Space, Skip_u, Space, Get_lu, Space, Get_ld]"
  let ?s1 = "print_nums [user, sys, cuser, csys] @ print_nums counts @ ?s2"
  let ?gets = "[Space, Get_lu, Get_lu, Space, Get_ld, Space, Get_ld] @ concat (replicate 4 [Space, Skip_d]) @ ?tail"
  have "scanf self_stat_format (self_stat_line pid comm state
      (ids @ faults @ [user, sys, cuser, csys] @ counts @ start # vsize # rss # rest)) [] =
    scanf (Skip_d # Space # Skip_s # Space # Skip_c # concat (replicate 5 [Space, Skip_d]) @ concat (replicate 5 [Space, Skip_u]) @ ?gets)
      (to_string pid @ '' ('' @ comm @ '') '' @ [state] @ print_nums ids @ print_nums faults @ ?s1) []"
    by (simp add: self_stat_format_def self_stat_line_def del: scanf.simps)
  also have "\<dots> = scanf (concat (replicate 5 [Space, Skip_d]) @ concat (replicate 5 [Space, Skip_u]) @ ?gets)
      (print_nums ids @ print_nums faults @ ?s1) []"
    by (subst scanf_number(6)) (simp_all only: scanf_name [OF assms(1,2)], simp add: ends_number_def is_digit_def)
  also have "\<dots> = scanf ?gets ?s1 []"
    using scanf_skip_numbers(1) [of "print_nums faults @ ?s1" ids "concat (replicate 5 [Space, Skip_u]) @ ?gets" "[]"]
      scanf_skip_numbers(2) [of ?s1 faults ?gets "[]"] unfolding assms(3,4)
    by (simp del: scanf.simps print_nums_simps replicate.simps)
  also have "\<dots> = scanf (concat (replicate (length counts) [Space, Skip_d]) @ ?tail) (print_nums counts @ ?s2) (map word_of_int [user, sys, cuser, csys])"
    using assms(5) by (simp del: scanf.simps replicate.simps)
  also have "\<dots> = scanf ?tail ?s2 (map word_of_int [user, sys, cuser, csys])"
    by (rule scanf_skip_numbers) (simp del: print_nums_simps)
  also have "\<dots> = (FormatDone, map word_of_int [user, sys, cuser, csys, vsize, rss])"
    by (simp del: scanf.simps(2-))
  finally show ?thesis .
qed

lemma scanf_cpu: "scanf stat_format (cpu_line (user # nice # sys # idle # rest)) [] = (FormatDone, map word_of_int [user, nice, sys, idle])"
proof -
  have "scanf stat_format (cpu_line (user # nice # sys # idle # rest)) [] =
      scanf [Space, Get_lu, Space, Get_lu, Space, Get_lu, Space, Get_lu] (CHR '' '' # print_nums (user # nice # sys # idle # rest) @ NL) []"
    by (simp add: stat_format_def cpu_line_def)
  also have "\<dots> = scanf (Space # Get_lu # [Space, Get_lu, Space, Get_lu, Space, Get_lu]) (print_nums (user # nice # sys # idle # rest) @ NL) []"
    by simp
  also have "\<dots> = (FormatDone, map word_of_int [user, nice, sys, idle])"
    by (simp del: scanf.simps(2-))
  finally show ?thesis .
qed

text \<open>
  Claim C38. A sample of the files the kernel prints, of a program whose name has no white space,
  succeeds and holds exactly the counters printed in them: the ticks of the process and its
  children, its memory in bytes, the ticks of the system, and the number of entries in the
  directory of descriptors without the two that are always there.
\<close>

theorem proc_stat_read_back:
  assumes "pv_self_stat v = Some (self_stat_line pid comm state
      (ids @ faults @ [user, sys, cuser, csys] @ counts @ start # vsize # rss # rest))"
    and "pv_stat v = Some (cpu_line (cpu_user # cpu_nice # cpu_sys # cpu_idle # cpu_rest))" and "pv_fd_entries v = Some n"
    and "list_all (\<lambda>c. \<not> is_space c) comm" and "\<not> is_space state"
    and "length ids = 5" and "length faults = 5" and "length counts = 4"
  shows "read_proc_stat v s = (0, \<lparr>ps_user_ticks = word_of_int user, ps_sys_ticks = word_of_int sys,
     ps_child_user_ticks = word_of_int cuser, ps_child_sys_ticks = word_of_int csys,
     ps_vsize_bytes = word_of_int vsize, ps_rss_bytes = word_of_int rss * pv_pagesize v,
     ps_total_ticks = word_of_int (cpu_user + cpu_nice + cpu_sys + cpu_idle), ps_open_fd = of_nat n - 2\<rparr>)"
proof -
  have four: "[0..<4] = [0, 1, 2, 3 :: nat]" by code_simp
  show ?thesis
    using assms(1-3) scanf_self_stat [OF assms(4-8), of pid user sys cuser csys start vsize rss rest]
    by (simp add: read_proc_stat_def scanf_cpu scanf_is_eof_def nth_or_def four)
qed

definition kernel_view :: "int \<Rightarrow> int \<Rightarrow> int \<Rightarrow> proc_view" where
  "kernel_view user sys idle = \<lparr>pv_self_stat = Some (self_stat_line 4711 ''vqro-server'' (CHR ''S'')
       ([1, 4711, 4711, 0, - 1] @ [4194304, 100, 0, 0, 0] @ [user, sys, 0, 0] @ [20, 0, 70, 0] @ 1234 # 1000000 # 25 # [])),
     pv_stat = Some (cpu_line (1000 # 0 # 500 # idle # [0, 0])), pv_fd_entries = Some 10, pv_pagesize = 4096, pv_junk = (\<lambda>i. 0)\<rparr>"

definition kernel_sample :: "int \<Rightarrow> int \<Rightarrow> int \<Rightarrow> proc_stat" where
  "kernel_sample user sys idle = \<lparr>ps_user_ticks = word_of_int user, ps_sys_ticks = word_of_int sys, ps_child_user_ticks = 0,
     ps_child_sys_ticks = 0, ps_vsize_bytes = 1000000, ps_rss_bytes = 25 * 4096,
     ps_total_ticks = word_of_int (1000 + 0 + 500 + idle), ps_open_fd = 8\<rparr>"

theorem proc_stat_read_back_witness:
  "read_proc_stat (kernel_view 30 10 8500) ProcStat = (0, kernel_sample 30 10 8500)"
proof -
  let ?v = "kernel_view 30 10 8500"
  have self: "pv_self_stat ?v = Some (self_stat_line 4711 ''vqro-server'' (CHR ''S'')
       ([1, 4711, 4711, 0, - 1] @ [4194304, 100, 0, 0, 0] @ [30, 10, 0, 0] @ [20, 0, 70, 0] @ 1234 # 1000000 # 25 # []))"
    and stat: "pv_stat ?v = Some (cpu_line (1000 # 0 # 500 # 8500 # [0, 0]))" and fd: "pv_fd_entries ?v = Some 10"
    by (simp_all add: kernel_view_def)
  have name: "list_all (\<lambda>c. \<not> is_space c) ''vqro-server''" "\<not> is_space (CHR ''S'')" by code_simp+
  have len: "length [1, 4711, 4711, 0, - 1 :: int] = 5" "length [4194304, 100, 0, 0, 0 :: int] = 5"
    "length [20, 0, 70, 0 :: int] = 4" by simp_all
  show ?thesis
    using proc_stat_read_back [OF self stat fd name len, of ProcStat] by (simp add: kernel_sample_def kernel_view_def)
qed

text \<open>
  A name with a space in it defeats the format: what follows the space is taken for the state, the
  next conversion fails, and nothing is assigned, which is not \<open>EOF\<close>.  The sample succeeds with the
  ticks the structure held before and the memory an uninitialised variable says.
\<close>

theorem spaced_name_keeps_old_ticks:
  assumes "pv_self_stat v = Some (self_stat_line pid ''a b'' state nums)"
    and "pv_stat v = Some (cpu_line (cpu_user # cpu_nice # cpu_sys # cpu_idle # cpu_rest))" and "pv_fd_entries v = Some n"
  shows "fst (read_proc_stat v s) = 0 \<and> ps_user_ticks (snd (read_proc_stat v s)) = ps_user_ticks s \<and>
    ps_sys_ticks (snd (read_proc_stat v s)) = ps_sys_ticks s \<and>
    ps_rss_bytes (snd (read_proc_stat v s)) = pv_junk v 0 * pv_pagesize v"
proof -
  let ?rest = "Space # Skip_s # Space # Skip_c # Space # Skip_d # concat (replicate 4 [Space, Skip_d]) @ concat (replicate 5 [Space, Skip_u]) @
    [Space, Get_lu, Get_lu, Space, Get_ld, Space, Get_ld] @ concat (replicate 4 [Space, Skip_d]) @
    [Space, Skip_u, Space, Get_lu, Space, Get_ld]"
  have five: "replicate 5 [Space, Skip_d] = [Space, Skip_d] # replicate 4 [Space, Skip_d]" by (simp add: eval_nat_numeral)
  have "scanf self_stat_format (self_stat_line pid ''a b'' state nums) [] =
      scanf (Skip_d # ?rest) (to_string pid @ '' (a b) '' @ [state] @ print_nums nums @ NL) []"
    by (simp add: self_stat_format_def self_stat_line_def five del: scanf.simps)
  also have "\<dots> = scanf ?rest ('' (a b) '' @ [state] @ print_nums nums @ NL) []"
    by (subst scanf_number(6)) (simp_all add: ends_number_def is_digit_def del: scanf.simps)
  also have "\<dots> = (Mismatch, [])"
  proof -
    have "scan_number (CHR '')'' # s) = Inl Mismatch" for s by (simp add: scan_number_def is_space_def is_digit_def Let_def)
    then show ?thesis by (simp add: is_space_def)
  qed
  finally show ?thesis using assms by (simp add: read_proc_stat_def scanf_cpu scanf_is_eof_def nth_or_def)
qed

section \<open>What is logged\<close>

text \<open>A run of calls, one for each view, and what they log.\<close>

primrec log_calls :: "(64 word \<Rightarrow> 64 word \<Rightarrow> string) \<Rightarrow> proc_view list \<Rightarrow> usage \<Rightarrow> usage \<times> usage_log list" where
  "log_calls ratio [] u = (u, [])"
| "log_calls ratio (v # vs) u =
     (case log_resource_usage ratio v u of (u1, l) \<Rightarrow> (case log_calls ratio vs u1 of (u2, ls) \<Rightarrow> (u2, l # ls)))"

text \<open>
  The samples of the calls after the first, each with the value \<open>ReadProcStat\<close> returns and what it
  leaves in \<open>current\<close>, from which the next one goes on; and the sample that was the last to succeed.
\<close>

primrec samples :: "proc_stat \<Rightarrow> proc_view list \<Rightarrow> (int \<times> proc_stat) list" where
  "samples c [] = []"
| "samples c (v # vs) = read_proc_stat v c # samples (snd (read_proc_stat v c)) vs"

definition last_good :: "proc_stat \<Rightarrow> (int \<times> proc_stat) list \<Rightarrow> proc_stat" where
  "last_good a rs = last (a # map snd (filter (\<lambda>r. fst r \<noteq> - 1) rs))"

text \<open>
  What a call has to log, for the last good sample \<open>a\<close> before it: an error when its own sample fails,
  nothing when no tick has passed, and otherwise the sample with the shares of the ticks that have
  passed, which are differences modulo the size of the counters, the divisor not zero.
\<close>

definition right_log ::
  "(64 word \<Rightarrow> 64 word \<Rightarrow> string) \<Rightarrow> proc_stat \<Rightarrow> int \<times> proc_stat \<Rightarrow> usage_log \<Rightarrow> bool" where
  "right_log ratio a r l \<longleftrightarrow>
     (let b = snd r in
      if fst r = - 1 then l = ErrorLog ''ReadProcStat failed''
      else if uint (ps_total_ticks b) = uint (ps_total_ticks a) then l = NoLog
      else (\<exists>du ds dt. l = InfoLog (
          ''vsize_bytes='' @ to_string (uint (ps_vsize_bytes b)) @ '' rss_bytes='' @ to_string (sint (ps_rss_bytes b)) @
          '' open_fd='' @ to_string (uint (ps_open_fd b)) @ '' user_util='' @ ratio du dt @ '' sys_util='' @ ratio ds dt) \<and>
        uint du = (uint (ps_user_ticks b) - uint (ps_user_ticks a)) mod 2 ^ 64 \<and>
        uint ds = (uint (ps_sys_ticks b) - uint (ps_sys_ticks a)) mod 2 ^ 64 \<and>
        uint dt = (uint (ps_total_ticks b) - uint (ps_total_ticks a)) mod 2 ^ 64 \<and> 0 < uint dt))"

lemma samples_length [simp]: "length (samples c vs) = length vs"
  by (induction vs arbitrary: c) simp_all

lemma last_good_simps [simp]:
  "last_good a [] = a" "last_good a (r # rs) = last_good (if fst r = - 1 then a else snd r) rs"
  by (simp_all add: last_good_def)

lemma word_difference: "uint (b - a :: 64 word) = (uint b - uint a) mod 2 ^ 64"
  by (simp add: uint_word_ariths)

lemma word_difference_positive:
  assumes "uint b \<noteq> uint (a :: 64 word)"
  shows "b - a \<noteq> 0" "0 < uint (b - a)"
proof -
  show "b - a \<noteq> 0" using assms by auto
  then have "uint (b - a) \<noteq> 0" by (simp only: uint_0_iff not_False_eq_True)
  with uint_ge_0 [of "b - a"] show "0 < uint (b - a)" by linarith
qed

text \<open>One call after the first.\<close>

lemma log_resource_usage_step:
  assumes "\<not> us_first_time u"
  shows "\<exists>u' l. log_resource_usage ratio v u = (u', l) \<and> \<not> us_first_time u' \<and>
    us_current u' = snd (read_proc_stat v (us_current u)) \<and>
    us_last u' = last_good (us_last u) [read_proc_stat v (us_current u)] \<and>
    right_log ratio (us_last u) (read_proc_stat v (us_current u)) l"
proof -
  obtain ret b where r: "read_proc_stat v (us_current u) = (ret, b)" by fastforce
  have total: "ps_total_ticks b - ps_total_ticks (us_last u) = 0 \<longleftrightarrow>
    uint (ps_total_ticks b) = uint (ps_total_ticks (us_last u))"
    by (metis right_minus_eq unsigned_word_eqI)
  consider "ret = - 1" | "ret \<noteq> - 1" "uint (ps_total_ticks b) = uint (ps_total_ticks (us_last u))"
    | "ret \<noteq> - 1" "uint (ps_total_ticks b) \<noteq> uint (ps_total_ticks (us_last u))" by blast
  then show ?thesis
  proof cases
    case 3
    let ?d = "\<lambda>f. f b - f (us_last u) :: 64 word"
    have "?d ps_total_ticks \<noteq> 0" using 3 total by simp
    with assms 3 r have "log_resource_usage ratio v u = (u\<lparr>us_current := b, us_last := b\<rparr>, InfoLog (
        ''vsize_bytes='' @ to_string (uint (ps_vsize_bytes b)) @ '' rss_bytes='' @ to_string (sint (ps_rss_bytes b)) @
        '' open_fd='' @ to_string (uint (ps_open_fd b)) @ '' user_util='' @ ratio (?d ps_user_ticks) (?d ps_total_ticks) @
        '' sys_util='' @ ratio (?d ps_sys_ticks) (?d ps_total_ticks)))"
      by (simp add: log_resource_usage_def Let_def)
    moreover from this have "right_log ratio (us_last u) (ret, b) (snd (log_resource_usage ratio v u))"
      unfolding right_log_def Let_def snd_conv fst_conv if_not_P [OF 3(1)] if_not_P [OF 3(2)]
      by (intro exI [of _ "?d ps_user_ticks"] exI [of _ "?d ps_sys_ticks"] exI [of _ "?d ps_total_ticks"] conjI
          word_difference word_difference_positive(2) [OF 3(2)]) (simp only: snd_conv)
    ultimately show ?thesis using assms 3(1) r by simp
  qed (use assms total in \<open>simp_all add: log_resource_usage_def right_log_def r Let_def\<close>)
qed

lemma log_calls_right:
  "\<not> us_first_time u \<Longrightarrow>
    \<exists>u' ls. log_calls ratio vs u = (u', ls) \<and> length ls = length vs \<and>
      us_last u' = last_good (us_last u) (samples (us_current u) vs) \<and>
      (\<forall>i<length vs. right_log ratio (last_good (us_last u) (take i (samples (us_current u) vs)))
         (samples (us_current u) vs ! i) (ls ! i))"
proof (induction vs arbitrary: u)
  case (Cons v vs)
  from log_resource_usage_step [OF Cons.prems, of ratio v] obtain u1 l where
    first: "log_resource_usage ratio v u = (u1, l)" "us_current u1 = snd (read_proc_stat v (us_current u))"
      "us_last u1 = last_good (us_last u) [read_proc_stat v (us_current u)]"
      "right_log ratio (us_last u) (read_proc_stat v (us_current u)) l" and "\<not> us_first_time u1" by blast
  from Cons.IH [OF this(5)] obtain u' ls where
    rest: "log_calls ratio vs u1 = (u', ls)" "length ls = length vs"
      "us_last u' = last_good (us_last u1) (samples (us_current u1) vs)"
      "\<forall>i<length vs. right_log ratio (last_good (us_last u1) (take i (samples (us_current u1) vs)))
         (samples (us_current u1) vs ! i) (ls ! i)" by blast
  have "right_log ratio (last_good (us_last u) (take i (samples (us_current u) (v # vs))))
      (samples (us_current u) (v # vs) ! i) ((l # ls) ! i)" if "i < length (v # vs)" for i
    using that first rest(4) by (cases i) auto
  with first rest show ?case by (intro exI [of _ u'] exI [of _ "l # ls"]) auto
qed simp

text \<open>
  Claim C39. Of any run of calls, over any contents of the files under \<open>/proc\<close>: the first only
  samples.  Every later one logs an error when its sample fails, and otherwise measures from the
  last sample before it that succeeded (the first call's, whatever it left, if none has since),
  however many failed in between; it logs nothing when the total has not moved, so that nothing is
  divided by zero, and otherwise the differences of the counters modulo their size.
\<close>

theorem usage_since_last_sample:
  assumes "a = snd (read_proc_stat v ProcStat)" and "rs = samples ProcStat vs"
  shows "\<exists>u ls. log_calls ratio (v # vs) start_usage = (u, NoLog # ls) \<and> length ls = length vs \<and>
    us_last u = last_good a rs \<and>
    (\<forall>i<length vs. right_log ratio (last_good a (take i rs)) (rs ! i) (ls ! i))"
proof -
  let ?u = "start_usage\<lparr>us_last := a, us_first_time := False\<rparr>"
  have "log_resource_usage ratio v start_usage = (?u, NoLog)"
    using assms(1) by (simp add: log_resource_usage_def start_usage_def)
  moreover have "\<not> us_first_time ?u" "us_current ?u = ProcStat" "us_last ?u = a" by (simp_all add: start_usage_def)
  ultimately show ?thesis using log_calls_right [of ?u ratio vs] assms(2) by auto
qed

definition missing_view :: proc_view where
  "missing_view = (kernel_view 0 0 0)\<lparr>pv_self_stat := None\<rparr>"

lemma kernel_view_sampled: "read_proc_stat (kernel_view user sys idle) s = (0, kernel_sample user sys idle)"
proof -
  let ?v = "kernel_view user sys idle"
  have "scanf self_stat_format (self_stat_line 4711 ''vqro-server'' (CHR ''S'')
       ([1, 4711, 4711, 0, - 1] @ [4194304, 100, 0, 0, 0] @ [user, sys, 0, 0] @ [20, 0, 70, 0] @ 1234 # 1000000 # 25 # [])) [] =
    (FormatDone, map word_of_int [user, sys, 0, 0, 1000000, 25])"
    by (rule scanf_self_stat) (simp_all add: is_space_def)
  moreover have "scanf stat_format (cpu_line (1000 # 0 # 500 # idle # [0, 0])) [] = (FormatDone, map word_of_int [1000, 0, 500, idle])"
    by (rule scanf_cpu)
  moreover have "[0..<4] = [0, 1, 2, 3 :: nat]" by code_simp
  ultimately show ?thesis
    unfolding read_proc_stat_def kernel_view_def kernel_sample_def
    by (simp add: scanf_is_eof_def nth_or_def)
qed

text \<open>
  Four calls after the first: the files missing, fifteen hundred ticks later, again at once, and once
  more with the counters started anew.
\<close>

lemma demo_samples:
  assumes "us = [missing_view, kernel_view 50 15 9500, kernel_view 60 15 9500, kernel_view 5 15 9600]"
  shows "snd (read_proc_stat (kernel_view 30 10 8500) ProcStat) = kernel_sample 30 10 8500"
    and "samples ProcStat us = [(- 1, ProcStat), (0, kernel_sample 50 15 9500), (0, kernel_sample 60 15 9500),
      (0, kernel_sample 5 15 9600)]"
proof -
  show "snd (read_proc_stat (kernel_view 30 10 8500) ProcStat) = kernel_sample 30 10 8500"
    by (simp add: kernel_view_sampled)
  have "read_proc_stat missing_view s = (- 1, s)" for s by (simp add: missing_view_def read_proc_stat_def)
  with kernel_view_sampled show "samples ProcStat us = [(- 1, ProcStat), (0, kernel_sample 50 15 9500), (0, kernel_sample 60 15 9500),
      (0, kernel_sample 5 15 9600)]" by (simp add: assms)
qed

theorem usage_since_last_sample_witness:
  "\<exists>u l1 l2 l3 l4. log_calls (\<lambda>a b. to_string (uint a)) [kernel_view 30 10 8500, missing_view, kernel_view 50 15 9500,
        kernel_view 60 15 9500, kernel_view 5 15 9600] start_usage = (u, [NoLog, l1, l2, l3, l4]) \<and>
     l1 = ErrorLog ''ReadProcStat failed'' \<and>
     right_log (\<lambda>a b. to_string (uint a)) (kernel_sample 30 10 8500) (0, kernel_sample 50 15 9500) l2 \<and>
     l3 = NoLog \<and>
     right_log (\<lambda>a b. to_string (uint a)) (kernel_sample 60 15 9500) (0, kernel_sample 5 15 9600) l4 \<and>
     us_last u = kernel_sample 5 15 9600"
proof -
  let ?vs = "[missing_view, kernel_view 50 15 9500, kernel_view 60 15 9500, kernel_view 5 15 9600]"
  note s = demo_samples [OF refl]
  from usage_since_last_sample [OF s(1) [symmetric] s(2) [symmetric], of "\<lambda>a b. to_string (uint a)"] obtain u ls where
    run: "log_calls (\<lambda>a b. to_string (uint a)) (kernel_view 30 10 8500 # ?vs) start_usage = (u, NoLog # ls)"
      "length ls = 4" "us_last u = kernel_sample 5 15 9600"
    and logs: "\<And>i. i < 4 \<Longrightarrow> right_log (\<lambda>a b. to_string (uint a))
      (last_good (kernel_sample 30 10 8500) (take i [(- 1, ProcStat), (0, kernel_sample 50 15 9500),
        (0, kernel_sample 60 15 9500), (0, kernel_sample 5 15 9600)]))
      ([(- 1, ProcStat), (0, kernel_sample 50 15 9500), (0, kernel_sample 60 15 9500), (0, kernel_sample 5 15 9600)] ! i)
      (ls ! i)" by auto
  from run(2) obtain l1 l2 l3 l4 where ls: "ls = [l1, l2, l3, l4]" by (auto simp: eval_nat_numeral length_Suc_conv)
  from logs [of 0] have "l1 = ErrorLog ''ReadProcStat failed''" by (simp add: ls right_log_def)
  moreover from logs [of 1] have
    "right_log (\<lambda>a b. to_string (uint a)) (kernel_sample 30 10 8500) (0, kernel_sample 50 15 9500) l2" by (simp add: ls)
  moreover from logs [of 2] have "l3 = NoLog" by (simp add: ls right_log_def kernel_sample_def)
  moreover from logs [of 3] have
    "right_log (\<lambda>a b. to_string (uint a)) (kernel_sample 60 15 9500) (0, kernel_sample 5 15 9600) l4" by (simp add: ls)
  ultimately show ?thesis using run ls by auto
qed

end
