(* ===== verification/Handles.thy ===== *)
theory Handles
  imports Prelude
begin

text \<open>
  \<open>fileutil.h\<close>: the classes that own a descriptor.  The table of a process holds the path behind
  every open descriptor; opening takes the lowest number that is free, closing a number that is
  not open does nothing.

  A \<open>FileHandle\<close> closes its number when it is destroyed and is copied with it, so that every copy
  passed to a function closes the file of the original.
\<close>

section \<open>Descriptors\<close>

type_synonym fd_table = "string option list"

fun free_fd :: "fd_table \<Rightarrow> nat" where
  "free_fd [] = 0"
| "free_fd (None # t) = 0"
| "free_fd (Some p # t) = Suc (free_fd t)"

definition fd_open :: "string \<Rightarrow> fd_table \<Rightarrow> nat \<times> fd_table" where
  "fd_open path t = (let fd = free_fd t in (fd, if fd < length t then t[fd := Some path] else t @ [Some path]))"

definition fd_close :: "nat \<Rightarrow> fd_table \<Rightarrow> fd_table" where
  "fd_close fd t = t[fd := None]"

definition is_open :: "nat \<Rightarrow> string \<Rightarrow> fd_table \<Rightarrow> bool" where
  "is_open fd path t \<longleftrightarrow> fd < length t \<and> t ! fd = Some path"

section \<open>FileHandle\<close>

record file_handle =
  fh_path :: string
  fh_fd :: "nat option"

text \<open>\<open>exists\<close> tells whether \<open>open\<close> succeeds; \<open>None\<close> stands for -1.\<close>

definition FileHandle :: "string \<Rightarrow> bool \<Rightarrow> fd_table \<Rightarrow> file_handle \<times> fd_table" where
  "FileHandle path exists t =
     (if exists then (case fd_open path t of (fd, t') \<Rightarrow> (\<lparr>fh_path = path, fh_fd = Some fd\<rparr>, t'))
      else (\<lparr>fh_path = path, fh_fd = None\<rparr>, t))"

definition destroy_handle :: "file_handle \<Rightarrow> fd_table \<Rightarrow> fd_table" where
  "destroy_handle h t = (case fh_fd h of None \<Rightarrow> t | Some fd \<Rightarrow> fd_close fd t)"

text \<open>A handle passed by value, as to \<open>WriteVector\<close>, \<open>WriteValues\<close> and \<open>ReadValues\<close>: the copy is
  destroyed when the call returns.\<close>

definition pass_by_value :: "file_handle \<Rightarrow> (fd_table \<Rightarrow> fd_table) \<Rightarrow> fd_table \<Rightarrow> fd_table" where
  "pass_by_value h body t = destroy_handle h (body t)"

text \<open>
  The descriptors of \<open>ReadProcStat\<close> where all three opens succeed: \<open>fclose\<close> closes the number the
  handle owns.  The handle is destroyed when the function returns.
\<close>

definition proc_stat_descriptors :: "fd_table \<Rightarrow> file_handle \<times> fd_table" where
  "proc_stat_descriptors t =
     (let (h, t1) = FileHandle ''/proc/self/stat'' True t;
          t2 = fd_close (the (fh_fd h)) t1;
          (f, t3) = fd_open ''/proc/stat'' t2;
          t4 = fd_close f t3;
          (d, t5) = fd_open ''/proc/self/fd/'' t4
      in (h, fd_close d t5))"

section \<open>Numbers are used again\<close>

lemma free_fd_le: "free_fd t \<le> length t"
  by (induction t rule: free_fd.induct) simp_all

lemma fd_open_close: "fd_open p t = (fd, t1) \<Longrightarrow> fd = free_fd t \<and> is_open fd p t1 \<and> free_fd (fd_close fd t1) = fd"
proof -
  assume o: "fd_open p t = (fd, t1)"
  have "free_fd (t[free_fd t := None]) = free_fd t" by (induction t rule: free_fd.induct) simp_all
  moreover have "free_fd (t @ [None]) = free_fd t" by (induction t rule: free_fd.induct) simp_all
  moreover have "(t @ [x])[length t := None] = t @ [None]" for x by simp
  ultimately show ?thesis using o free_fd_le [of t]
    by (auto simp: fd_open_def fd_close_def is_open_def Let_def nth_append split: if_splits)
qed

text \<open>
  The handle of \<open>ReadProcStat\<close> closes a file it does not own: a file that another
  thread opens after the descriptors of the sample have been closed, and before the function
  returns, gets the number of the handle and is closed with it.
\<close>

theorem sample_closes_foreign_file:
  "case proc_stat_descriptors t of (h, before) \<Rightarrow> case fd_open path before of (fd, after_open) \<Rightarrow>
    is_open fd path after_open \<and> \<not> is_open fd path (destroy_handle h after_open)"
proof -
  obtain fd1 t1 where o1: "fd_open ''/proc/self/stat'' t = (fd1, t1)" by (rule prod.exhaust)
  obtain fd2 t2 where o2: "fd_open ''/proc/stat'' (fd_close fd1 t1) = (fd2, t2)" by (rule prod.exhaust)
  obtain fd3 t3 where o3: "fd_open ''/proc/self/fd/'' (fd_close fd2 t2) = (fd3, t3)" by (rule prod.exhaust)
  obtain fd4 t4 where o4: "fd_open path (fd_close fd3 t3) = (fd4, t4)" by (rule prod.exhaust)
  note number = fd_open_close [OF o1] fd_open_close [OF o2] fd_open_close [OF o3] fd_open_close [OF o4]
  then have same: "fd4 = fd1" by metis
  have "proc_stat_descriptors t = (\<lparr>fh_path = ''/proc/self/stat'', fh_fd = Some fd1\<rparr>, fd_close fd3 t3)"
    using o1 o2 o3 by (simp add: proc_stat_descriptors_def FileHandle_def)
  moreover have "\<not> is_open fd1 path (fd_close fd1 t4)" by (simp add: is_open_def fd_close_def)
  ultimately show ?thesis using o4 number same by (simp add: destroy_handle_def)
qed

text \<open>
  After a call that takes it by value the handle's file is closed, so a second call with the same
  handle, and the destructor, meet a closed number or whatever has been opened in between.
\<close>

theorem handle_closed_by_call:
  assumes "FileHandle path True t = (h, t1)" and "fh_fd h = Some fd"
  shows "\<not> is_open fd path (pass_by_value h body t1)"
  using assms by (simp add: pass_by_value_def destroy_handle_def is_open_def fd_close_def)

section \<open>DirectoryHandle\<close>

record directory_handle =
  dh_path :: string
  dh_stream :: "nat option"

text \<open>\<open>exists\<close> tells whether \<open>opendir\<close> succeeds; the stream is its descriptor.\<close>

definition DirectoryHandle :: "string \<Rightarrow> bool \<Rightarrow> fd_table \<Rightarrow> directory_handle \<times> fd_table" where
  "DirectoryHandle path exists t =
     (if exists then (case fd_open path t of (fd, t') \<Rightarrow> (\<lparr>dh_path = path, dh_stream = Some fd\<rparr>, t'))
      else (\<lparr>dh_path = path, dh_stream = None\<rparr>, t))"

definition destroy_directory_handle :: "directory_handle \<Rightarrow> fd_table \<Rightarrow> fd_table" where
  "destroy_directory_handle h t = (case dh_stream h of None \<Rightarrow> t | Some fd \<Rightarrow> fd_close fd t)"

text \<open>What a table holds at a number; past its end nothing is open.\<close>

definition at_fd :: "fd_table \<Rightarrow> nat \<Rightarrow> string option" where
  "at_fd t fd = (if fd < length t then t ! fd else None)"

lemma at_free_fd: "at_fd t (free_fd t) = None"
  by (induction t rule: free_fd.induct) (auto simp: at_fd_def split: if_splits)

lemma at_fd_open: "fd_open path t = (fd, t') \<Longrightarrow> at_fd t' i = (if i = fd then Some path else at_fd t i)"
  using free_fd_le [of t] by (auto simp: fd_open_def Let_def at_fd_def nth_append split: if_splits)

lemma at_fd_close: "at_fd (fd_close fd t) i = (if i = fd then None else at_fd t i)"
  by (simp add: fd_close_def at_fd_def)

text \<open>
  However the scan of a directory ends, with its files or by an exception, the handle's destructor
  leaves exactly the files open that the scan has found open, and those opened meanwhile under
  other numbers.
\<close>

theorem directory_handle_balanced:
  assumes "DirectoryHandle path exists t = (h, t1)"
    and "\<And>i. dh_stream h \<noteq> Some i \<Longrightarrow> at_fd t2 i = (if i \<in> other then Some (name i) else at_fd t1 i)"
  shows "at_fd (destroy_directory_handle h t2) i =
    (if i \<in> other \<and> dh_stream h \<noteq> Some i then Some (name i) else at_fd t i)"
proof (cases exists)
  case True
  obtain fd t' where o: "fd_open path t = (fd, t')" by (rule prod.exhaust)
  then have h: "dh_stream h = Some fd" "t1 = t'" using assms(1) True by (auto simp: DirectoryHandle_def)
  have "fd = free_fd t" using o fd_open_close by blast
  then show ?thesis using assms(2) [of i] at_fd_open [OF o, of i] h
    by (simp add: destroy_directory_handle_def at_fd_close at_free_fd)
next
  case False
  with assms show ?thesis by (auto simp: DirectoryHandle_def destroy_directory_handle_def)
qed

end
