(* ===== verification/Statements.thy ===== *)
theory Statements
  imports Prelude
begin

text \<open>
  \<open>sql_statement.h\<close>: who owns a prepared statement.  An \<open>SqlStatement\<close> finalises its statement
  when it is destroyed; it cannot be copied, and moving swaps it with what the other object
  holds.

  A statement is a number, given out by \<open>sqlite3_prepare_v2\<close>; finalising one that has been
  finalised already is what SQLite forbids, and finalising a null pointer does nothing.  The
  objects of the program are named by numbers too.
\<close>

section \<open>The object\<close>

record statement_object =
  so_db :: "nat option"
  so_stmt :: "nat option"

definition SqlStatement_default :: statement_object where
  "SqlStatement_default = \<lparr>so_db = None, so_stmt = None\<rparr>"

definition SqlStatement :: "nat \<Rightarrow> nat \<Rightarrow> statement_object" where
  "SqlStatement sql_db sql_stmt = \<lparr>so_db = Some sql_db, so_stmt = Some sql_stmt\<rparr>"

text \<open>The move constructor and assignment: the new or old object and what is left of the other.\<close>

definition move_construct :: "statement_object \<Rightarrow> statement_object \<times> statement_object" where
  "move_construct other =
     (let this = SqlStatement_default
      in (this\<lparr>so_stmt := so_stmt other, so_db := so_db other\<rparr>, other\<lparr>so_stmt := so_stmt this, so_db := so_db this\<rparr>))"

definition move_assign :: "statement_object \<Rightarrow> statement_object \<Rightarrow> statement_object \<times> statement_object" where
  "move_assign this other =
     (this\<lparr>so_stmt := so_stmt other, so_db := so_db other\<rparr>, other\<lparr>so_stmt := so_stmt this, so_db := so_db this\<rparr>)"

section \<open>Programs that use such objects\<close>

record statements =
  st_objects :: "nat \<rightharpoonup> statement_object"
  st_prepared :: nat
  st_open :: "nat set"
  st_misused :: bool

text \<open>\<open>sqlite3_finalize\<close>.\<close>

definition finalize :: "nat option \<Rightarrow> statements \<Rightarrow> statements" where
  "finalize stmt s = (case stmt of
       None \<Rightarrow> s
     | Some i \<Rightarrow> s\<lparr>st_open := st_open s - {i}, st_misused := st_misused s \<or> i \<notin> st_open s\<rparr>)"

definition destroy_object :: "nat \<Rightarrow> statements \<Rightarrow> statements" where
  "destroy_object x s = (case st_objects s x of
       None \<Rightarrow> s
     | Some ob \<Rightarrow> finalize (so_stmt ob) (s\<lparr>st_objects := (st_objects s)(x := None)\<rparr>))"

text \<open>
  What C++ lets a program do: objects are made under names that are free and used while they
  live.  \<open>prepares\<close> is \<open>SearchEngine::Prepare\<close> where SQLite accepts the text.
\<close>

inductive object_step :: "statements \<Rightarrow> statements \<Rightarrow> bool" where
  declares: "st_objects s x = None \<Longrightarrow>
    object_step s (s\<lparr>st_objects := (st_objects s)(x \<mapsto> SqlStatement_default)\<rparr>)"
| prepares: "st_objects s x = None \<Longrightarrow>
    object_step s (s\<lparr>st_objects := (st_objects s)(x \<mapsto> SqlStatement db (st_prepared s)),
      st_open := insert (st_prepared s) (st_open s), st_prepared := st_prepared s + 1\<rparr>)"
| moves_new: "st_objects s x = None \<Longrightarrow> st_objects s y = Some other \<Longrightarrow> move_construct other = (this, rest) \<Longrightarrow>
    object_step s (s\<lparr>st_objects := (st_objects s)(x \<mapsto> this, y \<mapsto> rest)\<rparr>)"
| moves: "st_objects s x = Some this \<Longrightarrow> st_objects s y = Some other \<Longrightarrow> x \<noteq> y \<Longrightarrow>
    move_assign this other = (this', other') \<Longrightarrow>
    object_step s (s\<lparr>st_objects := (st_objects s)(x \<mapsto> this', y \<mapsto> other')\<rparr>)"
| moves_self: "st_objects s x = Some this \<Longrightarrow> object_step s s"
| destroys: "st_objects s x = Some ob \<Longrightarrow> object_step s (destroy_object x s)"

definition no_statements :: statements where
  "no_statements = \<lparr>st_objects = (\<lambda>x. None), st_prepared = 0, st_open = {}, st_misused = False\<rparr>"

section \<open>One owner for every statement\<close>

definition owns :: "statements \<Rightarrow> nat \<Rightarrow> nat \<Rightarrow> bool" where
  "owns s x i \<longleftrightarrow> (\<exists>ob. st_objects s x = Some ob \<and> so_stmt ob = Some i)"

definition owned_once :: "statements \<Rightarrow> bool" where
  "owned_once s \<longleftrightarrow> \<not> st_misused s \<and> (\<forall>i \<in> st_open s. i < st_prepared s) \<and>
     (\<forall>i. i \<in> st_open s \<longleftrightarrow> (\<exists>x. owns s x i)) \<and> (\<forall>i x y. owns s x i \<longrightarrow> owns s y i \<longrightarrow> x = y)"

lemma object_step_owned:
  assumes "object_step s s'" and "owned_once s"
  shows "owned_once s'"
  using assms
proof cases
  case (declares x)
  have "owns s' y i \<longleftrightarrow> owns s y i" for y i
    using declares by (auto simp: owns_def SqlStatement_default_def)
  with assms(2) show ?thesis using declares(1) by (simp add: owned_once_def)
next
  case (prepares x db)
  have "owns s' y i \<longleftrightarrow> (if y = x then i = st_prepared s else owns s y i)" for y i
    using prepares by (auto simp: owns_def SqlStatement_def)
  moreover have "\<not> owns s x i" for i using prepares by (simp add: owns_def)
  moreover have "\<not> owns s y (st_prepared s)" for y using assms(2) by (fastforce simp: owned_once_def)
  ultimately show ?thesis using assms(2) prepares(1) unfolding owned_once_def by (auto simp: less_Suc_eq) metis+
next
  case (moves_new x y other this rest)
  have "owns s' z i \<longleftrightarrow> (if z = x then owns s y i else z \<noteq> y \<and> owns s z i)" for z i
    using moves_new by (auto simp: owns_def move_construct_def SqlStatement_default_def Let_def)
  moreover have "\<not> owns s x i" for i using moves_new by (simp add: owns_def)
  ultimately show ?thesis using assms(2) moves_new(1) unfolding owned_once_def by auto metis+
next
  case (moves x this y other this' other')
  define swap where "swap z = (if z = x then y else if z = y then x else z)" for z
  have twice: "swap (swap z) = z" for z by (simp add: swap_def)
  have own: "owns s' z i \<longleftrightarrow> owns s (swap z) i" for z i
    using moves by (auto simp: owns_def move_assign_def swap_def)
  have some: "(\<exists>z. owns s' z i) \<longleftrightarrow> (\<exists>z. owns s z i)" for i by (metis own twice)
  have one: "a = b" if "owns s' a i" "owns s' b i" for a b i
  proof -
    have "swap a = swap b" using that assms(2) unfolding own owned_once_def by blast
    then show ?thesis by (metis twice)
  qed
  have "st_open s' = st_open s" "st_prepared s' = st_prepared s" "st_misused s' = st_misused s"
    using moves(1) by simp_all
  then have rest: "\<not> st_misused s'" "\<forall>i \<in> st_open s'. i < st_prepared s'" "\<forall>i. i \<in> st_open s' \<longleftrightarrow> (\<exists>z. owns s' z i)"
    using some assms(2) by (simp_all add: owned_once_def)
  have "\<forall>i a b. owns s' a i \<longrightarrow> owns s' b i \<longrightarrow> a = b" by (intro allI impI) (rule one)
  with rest show ?thesis by (simp add: owned_once_def)
next
  case (destroys x ob)
  have s': "owns s' z i \<longleftrightarrow> z \<noteq> x \<and> owns s z i" for z i
    using destroys by (auto simp: owns_def destroy_object_def finalize_def split: option.splits)
  show ?thesis
  proof (cases "so_stmt ob")
    case None
    then have "\<not> owns s x i" for i using destroys by (simp add: owns_def)
    with s' assms(2) None destroys show ?thesis unfolding owned_once_def
      by (auto simp: destroy_object_def finalize_def) metis
  next
    case (Some j)
    then have "owns s x i \<longleftrightarrow> i = j" for i using destroys by (auto simp: owns_def)
    with s' assms(2) Some destroys show ?thesis unfolding owned_once_def
      by (auto simp: destroy_object_def finalize_def) metis+
  qed
qed simp

text \<open>
  Claim C31. However a program makes, moves and destroys its \<open>SqlStatement\<close> objects, no statement is
  finalised twice, every open one has exactly one owner, and when no object is left none is
  open.
\<close>

theorem statements_owned_once:
  assumes "object_step\<^sup>*\<^sup>* no_statements s"
  shows "\<not> st_misused s \<and> (\<forall>i \<in> st_open s. \<exists>!x. owns s x i) \<and> (st_objects s = Map.empty \<longrightarrow> st_open s = {})"
proof -
  have "owned_once s"
    using assms
  proof (induction rule: rtranclp_induct)
    case base
    show ?case by (simp add: owned_once_def no_statements_def owns_def)
  next
    case (step s s')
    then show ?case using object_step_owned by blast
  qed
  then show ?thesis unfolding owned_once_def by (auto simp: owns_def)
qed

text \<open>
  The statements of \<open>IndexSeries\<close> when the second text is refused: the one before it is destroyed
  as the exception leaves the function.
\<close>

theorem statements_owned_once_witness:
  "\<exists>s. object_step\<^sup>*\<^sup>* no_statements s \<and> st_prepared s = 1 \<and> st_open s = {} \<and> \<not> st_misused s"
proof -
  let ?s1 = "no_statements\<lparr>st_objects := (st_objects no_statements)(0 \<mapsto> SqlStatement 0 (st_prepared no_statements)),
      st_open := insert (st_prepared no_statements) (st_open no_statements), st_prepared := st_prepared no_statements + 1\<rparr>"
  let ?s2 = "destroy_object 0 ?s1"
  have "object_step no_statements ?s1" by (rule prepares) (simp add: no_statements_def)
  moreover have "object_step ?s1 ?s2" by (rule destroys [where ob = "SqlStatement 0 (st_prepared no_statements)"]) simp
  ultimately have run: "object_step\<^sup>*\<^sup>* no_statements ?s2" by (meson converse_rtranclp_into_rtranclp r_into_rtranclp)
  have "st_objects ?s2 = Map.empty" "st_prepared ?s2 = 1"
    by (auto simp: destroy_object_def finalize_def no_statements_def SqlStatement_def)
  with statements_owned_once [OF run] run show ?thesis by blast
qed

end
