(* ===== verification/Iterators.thy ===== *)
theory Iterators
  imports Buffers "HOL-Library.Word"
begin

text \<open>
  The iterator of \<open>datapoint_buffer.h\<close> as the standard algorithms use it: an implementation it
  owns, cloned when it is copied and handed over when it is moved, and a position of 64 bits that
  wraps.  \<open>Buffers\<close> walks over positions as natural numbers; here are the operations themselves
  and the laws a random access iterator owes to \<open>std::stable_sort\<close>.
\<close>

section \<open>Operations\<close>

text \<open>\<open>None\<close> is an implementation that has been moved away.\<close>

record iterator =
  it_impl :: "dbuffer option"
  it_pos :: "64 word"

text \<open>The new object and what is left of the other.\<close>

definition iterator_copy :: "iterator \<Rightarrow> iterator \<times> iterator" where
  "iterator_copy other = (\<lparr>it_impl = it_impl other, it_pos = it_pos other\<rparr>, other)"

definition iterator_move :: "iterator \<Rightarrow> iterator \<times> iterator" where
  "iterator_move other = (\<lparr>it_impl = it_impl other, it_pos = it_pos other\<rparr>, other\<lparr>it_impl := None\<rparr>)"

definition iterator_copy_assign :: "iterator \<Rightarrow> iterator \<Rightarrow> iterator \<times> iterator" where
  "iterator_copy_assign this other = (this\<lparr>it_impl := it_impl other, it_pos := it_pos other\<rparr>, other)"

definition iterator_move_assign :: "iterator \<Rightarrow> iterator \<Rightarrow> iterator \<times> iterator" where
  "iterator_move_assign this other =
     (this\<lparr>it_impl := it_impl other, it_pos := it_pos other\<rparr>, other\<lparr>it_impl := it_impl this\<rparr>)"

definition iterator_advance :: "iterator \<Rightarrow> int \<Rightarrow> iterator" where
  "iterator_advance this inc = this\<lparr>it_pos := it_pos this + word_of_int inc\<rparr>"

text \<open>What \<open>--it\<close> and \<open>it--\<close> return, and the iterator after it: each does what the other should.\<close>

definition iterator_pre_decrement :: "iterator \<Rightarrow> iterator \<times> iterator" where
  "iterator_pre_decrement this = (this, this\<lparr>it_pos := it_pos this - 1\<rparr>)"

definition iterator_post_decrement :: "iterator \<Rightarrow> iterator \<times> iterator" where
  "iterator_post_decrement this = (let this' = this\<lparr>it_pos := it_pos this - 1\<rparr> in (this', this'))"

definition iterator_plus :: "iterator \<Rightarrow> int \<Rightarrow> iterator" where
  "iterator_plus this inc = (let i = fst (iterator_copy this) in i\<lparr>it_pos := it_pos i + word_of_int inc\<rparr>)"

definition iterator_minus :: "iterator \<Rightarrow> int \<Rightarrow> iterator" where
  "iterator_minus this inc = (let i = fst (iterator_copy this) in i\<lparr>it_pos := it_pos i - word_of_int inc\<rparr>)"

definition iterator_difference :: "iterator \<Rightarrow> iterator \<Rightarrow> int" where
  "iterator_difference this rhs = sint (it_pos this - it_pos rhs)"

definition iterator_equal :: "iterator \<Rightarrow> iterator \<Rightarrow> bool" where
  "iterator_equal this rhs \<longleftrightarrow> it_pos this = it_pos rhs"

definition iterator_less :: "iterator \<Rightarrow> iterator \<Rightarrow> bool" where
  "iterator_less this rhs \<longleftrightarrow> it_pos this < it_pos rhs"

definition iterator_less_eq :: "iterator \<Rightarrow> iterator \<Rightarrow> bool" where
  "iterator_less_eq this rhs \<longleftrightarrow> it_pos this \<le> it_pos rhs"

text \<open>\<open>*it\<close>, and \<open>it[i]\<close>, which hands \<open>i\<close> to the buffer as a position of its own.\<close>

definition iterator_deref :: "iterator \<Rightarrow> datapoint res" where
  "iterator_deref this = (case it_impl this of None \<Rightarrow> Inl OutOfBounds | Some b \<Rightarrow> db_value_at b (unat (it_pos this)))"

definition iterator_index :: "iterator \<Rightarrow> int \<Rightarrow> datapoint res" where
  "iterator_index this i = (case it_impl this of None \<Rightarrow> Inl OutOfBounds | Some b \<Rightarrow> db_value_at b (unat (word_of_int i :: 64 word)))"

section \<open>The laws of a random access iterator\<close>

text \<open>
  The algorithms rely on no more than this: positions are reached by addition, the difference
  leads from one to another, and the order is that of the differences.
\<close>

locale random_access =
  fixes plus_by :: "'i \<Rightarrow> int \<Rightarrow> 'i" and difference :: "'i \<Rightarrow> 'i \<Rightarrow> int" and precedes :: "'i \<Rightarrow> 'i \<Rightarrow> bool"
    and valid :: "'i \<Rightarrow> 'i \<Rightarrow> bool"
  assumes plus_difference: "valid a b \<Longrightarrow> plus_by a (difference b a) = b"
    and difference_trans: "valid a b \<Longrightarrow> valid b c \<Longrightarrow> difference c a = difference c b + difference b a"
    and precedes_difference: "valid a b \<Longrightarrow> precedes a b \<longleftrightarrow> 0 < difference b a"
    and valid_sym: "valid a b \<Longrightarrow> valid b a"
    and valid_trans: "valid a b \<Longrightarrow> valid b c \<Longrightarrow> valid a c"
begin

lemma difference_self: "valid a b \<Longrightarrow> difference a a = 0"
proof -
  assume "valid a b"
  then have "valid a a" using valid_sym valid_trans by blast
  from difference_trans [OF this this] show ?thesis by simp
qed

lemma difference_neg: "valid a b \<Longrightarrow> difference a b = - difference b a"
  using difference_trans [of a b a] difference_self valid_sym by fastforce

lemma precedes_trans: "valid a b \<Longrightarrow> valid b c \<Longrightarrow> precedes a b \<Longrightarrow> precedes b c \<Longrightarrow> precedes a c"
  using precedes_difference valid_trans difference_trans by fastforce

lemma precedes_asym: "valid a b \<Longrightarrow> precedes a b \<Longrightarrow> \<not> precedes b a"
  using precedes_difference valid_sym difference_neg [of a b] by fastforce

lemma precedes_total: "valid a b \<Longrightarrow> precedes a b \<or> precedes b a \<or> difference b a = 0"
  using precedes_difference valid_sym difference_neg [of a b] by fastforce

lemma difference_zero: "valid a b \<Longrightarrow> difference b a = 0 \<Longrightarrow> plus_by a 0 = b"
  using plus_difference by metis

end

text \<open>Two iterators of one buffer whose positions fit a signed integer.\<close>

definition same_buffer :: "iterator \<Rightarrow> iterator \<Rightarrow> bool" where
  "same_buffer a b \<longleftrightarrow> it_impl a = it_impl b \<and> uint (it_pos a) < 2 ^ 63 \<and> uint (it_pos b) < 2 ^ 63"

lemma same_buffer_difference:
  assumes "uint (it_pos a) < 2 ^ 63" and "uint (it_pos b) < 2 ^ 63"
  shows "iterator_difference b a = uint (it_pos b) - uint (it_pos a)"
proof -
  have "0 \<le> uint (it_pos a)" "0 \<le> uint (it_pos b)" by simp_all
  with assms have "- (2 ^ 63) \<le> uint (it_pos b) - uint (it_pos a)" "uint (it_pos b) - uint (it_pos a) < 2 ^ 63"
    by linarith+
  then have "signed_take_bit 63 (uint (it_pos b) - uint (it_pos a)) = uint (it_pos b) - uint (it_pos a)"
    by (intro signed_take_bit_int_eq_self) simp_all
  moreover have "it_pos b - it_pos a = word_of_int (uint (it_pos b) - uint (it_pos a))" by simp
  ultimately show ?thesis by (simp add: iterator_difference_def sint_sbintrunc' del: of_int_diff)
qed

interpretation it: random_access iterator_plus iterator_difference iterator_less same_buffer
proof
  fix a b c :: iterator
  show "iterator_plus a (iterator_difference b a) = b" if "same_buffer a b"
    using that by (simp add: same_buffer_def iterator_plus_def iterator_difference_def iterator_copy_def Let_def)
  show "iterator_difference c a = iterator_difference c b + iterator_difference b a" if "same_buffer a b" "same_buffer b c"
    using that by (simp add: same_buffer_def same_buffer_difference)
  show "iterator_less a b \<longleftrightarrow> 0 < iterator_difference b a" if "same_buffer a b"
    using that by (simp add: same_buffer_def same_buffer_difference iterator_less_def word_less_def)
  show "same_buffer b a" if "same_buffer a b" using that by (simp add: same_buffer_def)
  show "same_buffer a c" if "same_buffer a b" "same_buffer b c" using that by (simp add: same_buffer_def)
qed

text \<open>Addition wraps, so it can always be undone.\<close>

lemma iterator_minus_plus: "iterator_minus (iterator_plus this n) n = this"
  by (simp add: iterator_minus_def iterator_plus_def iterator_copy_def Let_def)

lemma iterator_advance_plus: "iterator_advance this n = iterator_plus this n"
  by (simp add: iterator_advance_def iterator_plus_def iterator_copy_def Let_def)

text \<open>Moving leaves the other without a buffer, move assignment exchanges the buffers but not the positions.\<close>

lemma iterator_moves:
  "it_impl (snd (iterator_move other)) = None" "fst (iterator_move other) = fst (iterator_copy other)"
  "it_impl (snd (iterator_move_assign this other)) = it_impl this" "it_pos (snd (iterator_move_assign this other)) = it_pos other"
  "fst (iterator_move_assign this other) = fst (iterator_copy_assign this other)"
  by (simp_all add: iterator_move_def iterator_copy_def iterator_move_assign_def iterator_copy_assign_def)

text \<open>
  A random access iterator has \<open>it[i]\<close> for \<open>*(it + i)\<close>; this one counts \<open>i\<close> from the start of the
  buffer, so the two agree where the iterator is at the start.
\<close>

lemma iterator_index_at_start: "it_pos this = 0 \<Longrightarrow> iterator_index this i = iterator_deref (iterator_plus this i)"
  by (simp add: iterator_index_def iterator_deref_def iterator_plus_def iterator_copy_def Let_def split: option.split)

theorem iterator_index_ignores_position:
  "iterator_index this i = iterator_deref (this\<lparr>it_pos := word_of_int i\<rparr>)"
  by (simp add: iterator_index_def iterator_deref_def split: option.split)

end
