(* ===== verification/ReadClient.thy ===== *)
theory ReadClient
  imports Services
begin

text \<open>
  \<open>vqro_read.cc\<close>: the reading client.  Errors the code throws as a \<open>string\<close> are the left of
  the sum; an exit code is the result of a whole command.

  The C library's calendar (\<open>strptime\<close> into a broken-down time, \<open>mktime\<close>) and the JSON parser
  are parameters.  What the two regular expressions of the source match is written out.
\<close>

section \<open>Units of time\<close>

datatype tick_unit = Unit_none | Unit_ns | Unit_us | Unit_ms | Unit_s | Unit_m | Unit_h | Unit_d

text \<open>The order of an \<open>enum class\<close>, by which \<open>StringByTickUnit\<close> is kept.\<close>

primrec unit_rank :: "tick_unit \<Rightarrow> nat" where
  "unit_rank Unit_none = 0" | "unit_rank Unit_ns = 1" | "unit_rank Unit_us = 2" | "unit_rank Unit_ms = 3"
| "unit_rank Unit_s = 4" | "unit_rank Unit_m = 5" | "unit_rank Unit_h = 6" | "unit_rank Unit_d = 7"

lemma unit_rank_inject: "unit_rank a = unit_rank b \<longleftrightarrow> a = b"
  by (cases a; cases b) simp_all

instantiation tick_unit :: linorder
begin

definition less_eq_tick_unit :: "tick_unit \<Rightarrow> tick_unit \<Rightarrow> bool" where
  "less_eq_tick_unit a b \<longleftrightarrow> unit_rank a \<le> unit_rank b"

definition less_tick_unit :: "tick_unit \<Rightarrow> tick_unit \<Rightarrow> bool" where
  "less_tick_unit a b \<longleftrightarrow> unit_rank a < unit_rank b"

instance
  by standard (auto simp: less_eq_tick_unit_def less_tick_unit_def unit_rank_inject [symmetric])

end

definition tick_unit_by_string :: "(string \<times> tick_unit) list" where
  "tick_unit_by_string = [('''', Unit_none), (''ns'', Unit_ns), (''us'', Unit_us), (''ms'', Unit_ms), (''s'', Unit_s),
     (''m'', Unit_m), (''h'', Unit_h), (''d'', Unit_d)]"

definition string_by_tick_unit :: "(tick_unit \<times> string) list" where
  "string_by_tick_unit = [(Unit_none, ''''), (Unit_ns, ''ns''), (Unit_us, ''us''), (Unit_ms, ''ms''), (Unit_s, ''s''),
     (Unit_m, ''m''), (Unit_h, ''h''), (Unit_d, ''d'')]"

definition ONE_BILLION :: int where "ONE_BILLION = 1000000000"

definition nanoseconds_per_tick :: "tick_unit \<Rightarrow> int" where
  "nanoseconds_per_tick t = (case t of
       Unit_none \<Rightarrow> 0 | Unit_ns \<Rightarrow> 1 | Unit_us \<Rightarrow> 1000 | Unit_ms \<Rightarrow> 1000000 | Unit_s \<Rightarrow> ONE_BILLION
     | Unit_m \<Rightarrow> ONE_BILLION * 60 | Unit_h \<Rightarrow> ONE_BILLION * 3600 | Unit_d \<Rightarrow> ONE_BILLION * 86400)"

section \<open>Times on the command line\<close>

type_synonym 'a or_message = "string + 'a"

text \<open>\<open>now_ns\<close> is the clock in nanoseconds.\<close>

definition now_in_ticks :: "tick_unit \<Rightarrow> int \<Rightarrow> int" where
  "now_in_ticks tick now_ns =
     (let ns_per_tick = nanoseconds_per_tick tick in
      if ns_per_tick \<noteq> 0 then wrap64 now_ns sdiv ns_per_tick else 0)"

definition is_letter :: "char \<Rightarrow> bool" where
  "is_letter c \<longleftrightarrow> (let n = of_char c :: nat in 65 \<le> n \<and> n \<le> 90 \<or> 97 \<le> n \<and> n \<le> 122)"

text \<open>A full match of \<open>(-?\d+)([a-zA-Z]+)?\<close>: the digits with their sign, and the suffix.\<close>

definition match_relative :: "string \<Rightarrow> (string \<times> string) option" where
  "match_relative s =
     (let sign = (case s of c # _ \<Rightarrow> if c = CHR ''-'' then [c] else [] | [] \<Rightarrow> []);
          rest = drop (length sign) s;
          digits = takeWhile is_digit rest; suffix = dropWhile is_digit rest
      in if digits \<noteq> [] \<and> list_all is_letter suffix then Some (sign @ digits, suffix) else None)"

text \<open>\<open>strtoll\<close> with a check of \<open>errno\<close>, on a string the regular expression has matched.\<close>

definition signed_digits_value :: "string \<Rightarrow> int" where
  "signed_digits_value s = (case s of
       c # ds \<Rightarrow> if c = CHR ''-'' then - int (digits_value ds) else int (digits_value s) | [] \<Rightarrow> 0)"

definition relative_ticks :: "tick_unit \<Rightarrow> string \<Rightarrow> int or_message" where
  "relative_ticks tick time_str =
     (case match_relative time_str of
       None \<Rightarrow> Inl (''Failed to parse '' @ DQ @ time_str @ DQ)
     | Some (digits, unit_suffix) \<Rightarrow>
         let number = signed_digits_value digits in
         if \<not> i64_ok number then Inl (''Error parsing digits of time string '' @ DQ @ time_str @ DQ @ '': Numerical result out of range'')
         else (case map_of tick_unit_by_string unit_suffix of
             None \<Rightarrow> Inl (''Error: invalid time unit suffix: '' @ time_str)
           | Some relative_unit \<Rightarrow>
               let ns_per_tick = nanoseconds_per_tick tick in
               if ns_per_tick = 0
               then Inl ''Error: Cannot specify relative time unit when no tick_unit is specified.''
               else Inr (wrap64 (nanoseconds_per_tick relative_unit sdiv ns_per_tick * number))))"

record 'tm calendar =
  cal_zero :: 'tm
  cal_strptime :: "string \<Rightarrow> string \<Rightarrow> 'tm \<Rightarrow> 'tm \<times> bool"
  cal_mktime :: "'tm \<Rightarrow> int"

definition absolute_ticks :: "'tm calendar \<Rightarrow> tick_unit \<Rightarrow> string \<Rightarrow> int or_message" where
  "absolute_ticks cal tick time_str =
     (if tick = Unit_none then Inl ''Error: Cannot specify a date time without specifying a tick_unit''
      else
        let try1 = cal_strptime cal time_str ''%Y-%m-%d_%H:%M:%S'' (cal_zero cal);
            try2 = (if snd try1 then try1 else cal_strptime cal time_str ''%Y-%m-%d_%H:%M'' (fst try1));
            try3 = (if snd try2 then try2 else cal_strptime cal time_str ''%Y-%m-%d'' (fst try2));
            t = cal_mktime cal (fst try3)
        in if \<not> snd try3 then Inl (''Unrecognized date time: '' @ time_str)
           else if t = - 1 then Inl ''mktime() error: cannot represent as epoch time''
           else Inr (wrap64 (t * nanoseconds_per_tick Unit_s) sdiv nanoseconds_per_tick tick))"

text \<open>The time and whether it is relative; \<open>now\<close>, \<open>min\<close> and \<open>max\<close> leave the flag as it was.\<close>

definition get_time_in_ticks ::
  "'tm calendar \<Rightarrow> tick_unit \<Rightarrow> int \<Rightarrow> string \<Rightarrow> bool \<Rightarrow> (int \<times> bool) or_message" where
  "get_time_in_ticks cal tick now_ns time_str relative =
     (if time_str = '''' \<or> time_str = ''now'' then Inr (now_in_ticks tick now_ns, relative)
      else if time_str = ''min'' then Inr (INT64_MIN, relative)
      else if time_str = ''max'' then Inr (INT64_MAX, relative)
      else if hd time_str = CHR ''-'' \<or> hd time_str = CHR ''+'' then
        (case relative_ticks tick (if hd time_str = CHR ''+'' then tl time_str else time_str) of
          Inl e \<Rightarrow> Inl e | Inr t \<Rightarrow> Inr (t, True))
      else (case absolute_ticks cal tick time_str of Inl e \<Rightarrow> Inl e | Inr t \<Rightarrow> Inr (t, False)))"

section \<open>Queries on the command line\<close>

record read_flags =
  fl_start :: string
  fl_end :: string
  fl_tick_unit :: string
  fl_search_limit :: int
  fl_search_offset :: int
  fl_datapoint_limit :: int
  fl_prefer_latest :: bool
  fl_server_ip :: string
  fl_server_port :: int
  fl_h :: bool
  fl_search_labels :: bool
  fl_search_series :: bool
  fl_series_list_from_stdin :: bool

text \<open>
  A full match of \<open>([^=]+)=~(.+)\<close> or else of \<open>([^=]+)=(.+)\<close>: the name ends at the first
  equals sign, and the dot matches no newline.
\<close>

definition one_line :: "string \<Rightarrow> bool" where
  "one_line s \<longleftrightarrow> s \<noteq> [] \<and> list_all (\<lambda>c. [c] \<noteq> NL) s"

definition parse_constraint :: "string \<Rightarrow> label_constraint or_message" where
  "parse_constraint arg =
     (let name = takeWhile (\<lambda>c. c \<noteq> CHR ''='') arg; rest = drop (Suc (length name)) arg;
          found = name \<noteq> [] \<and> length name < length arg
      in if found \<and> rest \<noteq> [] \<and> hd rest = CHR ''~'' \<and> one_line (tl rest)
         then Inr \<lparr>lc_label_name = name, lc_predicate = Regex (tl rest)\<rparr>
         else if found \<and> one_line rest then Inr \<lparr>lc_label_name = name, lc_predicate = ExactValue rest\<rparr>
         else Inl (''Failed to parse label constraint '' @ DQ @ arg @ DQ))"

primrec parse_constraints :: "string list \<Rightarrow> label_constraint list or_message" where
  "parse_constraints [] = Inr []"
| "parse_constraints (arg # args) =
     (case parse_constraint arg of
       Inl e \<Rightarrow> Inl e
     | Inr c \<Rightarrow> (case parse_constraints args of Inl e \<Rightarrow> Inl e | Inr cs \<Rightarrow> Inr (c # cs)))"

text \<open>\<open>args\<close> are the arguments after the name of the program.\<close>

definition build_series_query :: "read_flags \<Rightarrow> string list \<Rightarrow> series_query or_message" where
  "build_series_query fl args =
     (case parse_constraints args of
       Inl e \<Rightarrow> Inl e
     | Inr cs \<Rightarrow> Inr \<lparr>q_constraints = cs,
         q_result_offset = (if fl_search_limit fl \<noteq> 0 \<and> fl_search_offset fl \<noteq> 0 then fl_search_offset fl else 0),
         q_result_limit = fl_search_limit fl\<rparr>)"

definition get_server_address :: "read_flags \<Rightarrow> string" where
  "get_server_address fl = fl_server_ip fl @ '':'' @ to_string (fl_server_port fl)"

text \<open>\<open>FormatLabels\<close>: a comma after every label but the last.\<close>

primrec format_label_list :: "labels \<Rightarrow> string" where
  "format_label_list [] = []"
| "format_label_list (l # ls) =
     fst l @ ''='' @ snd l @ (if length ls \<noteq> 0 then '', '' else []) @ format_label_list ls"

definition format_labels :: "labels \<Rightarrow> string" where
  "format_labels labels = ''{'' @ format_label_list labels @ ''}''"

section \<open>Output\<close>

text \<open>
  The human-readable forms; \<open>show_double\<close> is the stream's formatting of a double.  The status
  of a result is its text and its error flag.
\<close>

definition print_status :: "(string \<times> bool) option \<Rightarrow> string" where
  "print_status status = (case status of None \<Rightarrow> []
     | Some (txt, err) \<Rightarrow> ''StatusMessage: '' @ txt @ '' error='' @ (if err then ''1'' else ''0'') @ NL)"

definition print_read_result :: "(double \<Rightarrow> string) \<Rightarrow> read_result \<Rightarrow> (string \<times> bool) option \<Rightarrow> string" where
  "print_read_result show_double result status =
     ''ReadResult: labels='' @ format_labels (fst result) @ NL @
     concat (map (\<lambda>p. ''    timestamp='' @ to_string (dp_timestamp p) @ ''  duration='' @ to_string (dp_duration p) @
       ''  value='' @ show_double (dp_value p) @ NL) (snd result)) @ print_status status @ NL"

definition print_search_labels_results :: "string list \<Rightarrow> (string \<times> bool) option \<Rightarrow> string" where
  "print_search_labels_results found status = concat (map (\<lambda>l. l @ NL) found) @ print_status status"

definition print_search_series_results :: "labels list \<Rightarrow> (string \<times> bool) option \<Rightarrow> string" where
  "print_search_series_results matches status = concat (map (\<lambda>s. format_labels s @ NL) matches) @ print_status status"

section \<open>Commands\<close>

text \<open>What a command does: it prints its usage or an error and exits, aborts on an exception no one
  catches, or sends a request.\<close>

datatype command =
    ExitCode int
  | Abort
  | SendLabelsQuery string labels_query
  | SendSeriesQuery string series_query
  | SendRead string read_request

definition do_search_labels :: "read_flags \<Rightarrow> string list \<Rightarrow> command" where
  "do_search_labels fl args = (case args of
       [] \<Rightarrow> ExitCode 1
     | regex # _ \<Rightarrow> SendLabelsQuery (get_server_address fl)
         \<lparr>lq_regex = regex,
          lq_result_offset = (if fl_search_limit fl \<noteq> 0 \<and> fl_search_offset fl \<noteq> 0 then fl_search_offset fl else 0),
          lq_result_limit = fl_search_limit fl\<rparr>)"

definition do_search_series :: "read_flags \<Rightarrow> string list \<Rightarrow> command" where
  "do_search_series fl args =
     (if args = [] then ExitCode 1
      else (case build_series_query fl args of
          Inl _ \<Rightarrow> ExitCode 1
        | Inr query \<Rightarrow> SendSeriesQuery (get_server_address fl) query))"

text \<open>The unit named by the environment, overridden by the flag; the default is the second.\<close>

definition choose_tick_unit :: "string \<Rightarrow> read_flags \<Rightarrow> tick_unit option" where
  "choose_tick_unit env_tick_unit fl =
     (case (if env_tick_unit \<noteq> '''' then map_of tick_unit_by_string env_tick_unit else Some Unit_s) of
       None \<Rightarrow> None
     | Some tick \<Rightarrow> if fl_tick_unit fl \<noteq> '''' then map_of tick_unit_by_string (fl_tick_unit fl) else Some tick)"

text \<open>The absolute range, where at most one of its ends may be relative to the other.\<close>

definition read_range :: "'tm calendar \<Rightarrow> tick_unit \<Rightarrow> int \<Rightarrow> int \<Rightarrow> read_flags \<Rightarrow> (int \<times> int) option" where
  "read_range cal tick now_ns1 now_ns2 fl =
     (case get_time_in_ticks cal tick now_ns1 (fl_start fl) False of
       Inl _ \<Rightarrow> None
     | Inr (start_time, start_is_relative) \<Rightarrow>
         (case get_time_in_ticks cal tick now_ns2 (fl_end fl) False of
           Inl _ \<Rightarrow> None
         | Inr (end_time, end_is_relative) \<Rightarrow>
             if start_is_relative \<and> end_is_relative then None
             else
               let start_time' = (if start_is_relative then wrap64 (start_time + end_time) else start_time);
                   end_time' = (if \<not> start_is_relative \<and> end_is_relative then wrap64 (end_time + start_time) else end_time)
               in if end_time' \<le> start_time' then None else Some (start_time', end_time')))"

definition do_read_datapoints ::
  "'tm calendar \<Rightarrow> string \<Rightarrow> int \<Rightarrow> int \<Rightarrow> read_flags \<Rightarrow> read_selector \<Rightarrow> command" where
  "do_read_datapoints cal env_tick_unit now_ns1 now_ns2 fl selector =
     (case choose_tick_unit env_tick_unit fl of
       None \<Rightarrow> ExitCode 1
     | Some tick \<Rightarrow>
         (case read_range cal tick now_ns1 now_ns2 fl of
           None \<Rightarrow> ExitCode 1
         | Some (start_time, end_time) \<Rightarrow> SendRead (get_server_address fl)
             \<lparr>rq_selector = selector, rq_start_time = start_time, rq_end_time = end_time,
              rq_datapoint_limit = fl_datapoint_limit fl, rq_prefer_latest = fl_prefer_latest fl\<rparr>))"

text \<open>
  \<open>getline\<close> up to the end of the input: a last line that no newline ends is read together
  with the end of the file, and the loops leave before they look at it.
\<close>

fun complete_lines :: "string \<Rightarrow> string \<Rightarrow> string list" where
  "complete_lines line [] = []"
| "complete_lines line (c # cs) =
     (if [c] = NL then line # complete_lines [] cs else complete_lines (line @ [c]) cs)"

text \<open>The JSON library may fail to parse a line, and it throws when a member is no string.\<close>

datatype json_series = NotJson | NotStrings | JsonSeries labels

datatype stdin_series = ParseFailed | Threw | SeriesRead "labels list"

fun series_of_lines :: "(string \<Rightarrow> json_series) \<Rightarrow> string list \<Rightarrow> labels list \<Rightarrow> stdin_series" where
  "series_of_lines parse_json [] found = SeriesRead found"
| "series_of_lines parse_json (line # ls) found =
     (if line = [] then series_of_lines parse_json ls found
      else (case parse_json line of
          NotJson \<Rightarrow> ParseFailed
        | NotStrings \<Rightarrow> Threw
        | JsonSeries series \<Rightarrow> series_of_lines parse_json ls (found @ [series])))"

definition do_read_datapoints_with_list ::
  "'tm calendar \<Rightarrow> (string \<Rightarrow> json_series) \<Rightarrow> string \<Rightarrow> int \<Rightarrow> int \<Rightarrow> read_flags \<Rightarrow> string \<Rightarrow> command" where
  "do_read_datapoints_with_list cal parse_json env_tick_unit now_ns1 now_ns2 fl stdin =
     (case series_of_lines parse_json (complete_lines [] stdin) [] of
       ParseFailed \<Rightarrow> ExitCode 1
     | Threw \<Rightarrow> Abort
     | SeriesRead series \<Rightarrow> do_read_datapoints cal env_tick_unit now_ns1 now_ns2 fl (ListSelector series))"

definition do_read_datapoints_with_query ::
  "'tm calendar \<Rightarrow> string \<Rightarrow> int \<Rightarrow> int \<Rightarrow> read_flags \<Rightarrow> string list \<Rightarrow> command" where
  "do_read_datapoints_with_query cal env_tick_unit now_ns1 now_ns2 fl args =
     (if args = [] then ExitCode 1
      else (case build_series_query fl args of
          Inl _ \<Rightarrow> ExitCode 1
        | Inr query \<Rightarrow> do_read_datapoints cal env_tick_unit now_ns1 now_ns2 fl (QuerySelector query)))"

definition vqro_read_main ::
  "'tm calendar \<Rightarrow> (string \<Rightarrow> json_series) \<Rightarrow> string \<Rightarrow> int \<Rightarrow> int \<Rightarrow> read_flags \<Rightarrow> string list \<Rightarrow> string \<Rightarrow> command" where
  "vqro_read_main cal parse_json env_tick_unit now_ns1 now_ns2 fl args stdin =
     (if fl_h fl then ExitCode 0
      else if fl_search_labels fl then do_search_labels fl args
      else if fl_search_series fl then do_search_series fl args
      else if fl_series_list_from_stdin fl
      then do_read_datapoints_with_list cal parse_json env_tick_unit now_ns1 now_ns2 fl stdin
      else do_read_datapoints_with_query cal env_tick_unit now_ns1 now_ns2 fl args)"

section \<open>Relative times\<close>

lemma match_relative_print:
  assumes "suf \<in> set (map fst tick_unit_by_string)"
  shows "match_relative (to_string n @ suf) = Some (to_string n, suf)"
proof -
  have sufx: "list_all is_letter suf" "takeWhile is_digit suf = []" "dropWhile is_digit suf = suf"
    using assms by (auto simp: tick_unit_by_string_def is_letter_def is_digit_def)
  have digits: "\<forall>c \<in> set (string_of_nat m). is_digit c" for m by (rule string_of_nat_digits)
  have scan: "takeWhile is_digit (string_of_nat m @ suf) = string_of_nat m"
    "dropWhile is_digit (string_of_nat m @ suf) = suf" for m
    using digits [of m] sufx by (simp_all add: takeWhile_append2 dropWhile_append2)
  have first: "\<exists>c cs. string_of_nat m = c # cs \<and> c \<noteq> CHR ''-''" for m
  proof (cases "string_of_nat m")
    case (Cons c cs)
    with digits [of m] digit_not_special [of c] show ?thesis by simp
  qed simp
  show ?thesis
  proof (cases "n < 0")
    case True
    then show ?thesis using scan [of "nat (- n)"] sufx(1) by (simp add: match_relative_def to_string_def Let_def)
  next
    case False
    obtain c cs where "string_of_nat (nat n) = c # cs" "c \<noteq> CHR ''-''" using first [of "nat n"] by blast
    with False show ?thesis using scan [of "nat n"] sufx(1)
      by (simp add: match_relative_def to_string_def Let_def)
  qed
qed

lemma signed_digits_value_print: "signed_digits_value (to_string n) = n"
proof (cases "n < 0")
  case False
  have "\<forall>c \<in> set (string_of_nat (nat n)). is_digit c" by (rule string_of_nat_digits)
  with False digit_not_special show ?thesis
    by (cases "string_of_nat (nat n)") 
      (force simp: signed_digits_value_def to_string_def dest: arg_cong [where f = digits_value])+
qed (simp add: signed_digits_value_def to_string_def)

text \<open>
  Claim C35. A relative time printed with a unit is read back as that many units in ticks: an
  exact multiple when the unit is at least a tick, and zero when it is finer or left out.
\<close>

theorem relative_time_in_ticks:
  assumes "i64_ok n" and "tick \<noteq> Unit_none" and "map_of string_by_tick_unit u = Some suf"
    and "i64_ok (nanoseconds_per_tick u div nanoseconds_per_tick tick * n)"
  shows "relative_ticks tick (to_string n @ suf) =
    Inr (if tick \<le> u then nanoseconds_per_tick u div nanoseconds_per_tick tick * n else 0)"
proof -
  have unit: "map_of tick_unit_by_string suf = Some u" "suf \<in> set (map fst tick_unit_by_string)"
    using assms(3) by (cases u; auto simp: string_by_tick_unit_def tick_unit_by_string_def)+
  have pos: "0 < nanoseconds_per_tick tick" "0 \<le> nanoseconds_per_tick u"
    using assms(2) by (cases tick; simp add: nanoseconds_per_tick_def ONE_BILLION_def)
      (cases u; simp add: nanoseconds_per_tick_def ONE_BILLION_def)
  have finer: "nanoseconds_per_tick u div nanoseconds_per_tick tick = 0" if "\<not> tick \<le> u"
    using that assms(2) by (cases tick; cases u) (simp_all add: less_eq_tick_unit_def nanoseconds_per_tick_def ONE_BILLION_def)
  show ?thesis
    using assms(1,4) unit pos finer
    by (simp add: relative_ticks_def match_relative_print signed_digits_value_print Let_def sdiv_nonneg wrap64_id)
qed

theorem relative_time_in_ticks_witness:
  "relative_ticks Unit_s (to_string (- 5) @ ''m'') = Inr (- 300) \<and>
    relative_ticks Unit_s (to_string (- 500) @ ''ms'') = Inr 0"
  using relative_time_in_ticks [of "- 5" Unit_s Unit_m "''m''"] relative_time_in_ticks [of "- 500" Unit_s Unit_ms "''ms''"]
  by (simp add: string_by_tick_unit_def i64_ok_def INT64_MIN_def INT64_MAX_def less_eq_tick_unit_def
      nanoseconds_per_tick_def ONE_BILLION_def)

section \<open>Requests\<close>

lemma div_by_pos_le: "0 \<le> x \<Longrightarrow> 0 < d \<Longrightarrow> x div d \<le> (x :: int)"
  using zdiv_mono2 [of x 1 d] by simp

lemma sdiv_i64_ok:
  assumes "i64_ok x" and "0 < d"
  shows "i64_ok (x sdiv d)"
proof (cases "0 \<le> x")
  case True
  moreover from this assms(2) have "0 \<le> x div d" by (simp add: pos_imp_zdiv_nonneg_iff)
  ultimately show ?thesis using assms div_by_pos_le [of x d]
    by (auto simp: sdiv_nonneg i64_ok_def INT64_MIN_def INT64_MAX_def)
next
  case False
  then have "x sdiv d = - ((- x) div d)" using assms(2) by (simp add: signed_divide_int_def)
  moreover have "(- x) div d \<le> - x" "0 \<le> (- x) div d"
    using assms(2) False div_by_pos_le [of "- x" d] by (simp_all add: pos_imp_zdiv_nonneg_iff)
  ultimately show ?thesis using False assms(1) by (auto simp: i64_ok_def INT64_MIN_def INT64_MAX_def)
qed

lemma ns_per_tick_nonneg: "0 \<le> nanoseconds_per_tick t"
  by (cases t) (simp_all add: nanoseconds_per_tick_def ONE_BILLION_def)

lemma ns_per_tick_pos: "t \<noteq> Unit_none \<Longrightarrow> 0 < nanoseconds_per_tick t"
  by (cases t) (simp_all add: nanoseconds_per_tick_def ONE_BILLION_def)

lemma int64_limits: "i64_ok INT64_MIN" "i64_ok INT64_MAX" "i64_ok 0"
  by (simp_all add: i64_ok_def INT64_MIN_def INT64_MAX_def)

lemma now_in_ticks_ok: "i64_ok (now_in_ticks tick now_ns)"
proof (cases "nanoseconds_per_tick tick = 0")
  case False
  then have "0 < nanoseconds_per_tick tick" using ns_per_tick_nonneg [of tick] by simp
  then show ?thesis by (simp add: now_in_ticks_def Let_def sdiv_i64_ok wrap64_ok)
qed (simp add: now_in_ticks_def int64_limits)

lemma relative_ticks_ok: "relative_ticks tick s = Inr t \<Longrightarrow> i64_ok t"
  by (auto simp: relative_ticks_def Let_def wrap64_ok split: option.splits prod.splits if_splits)

lemma absolute_ticks_ok: "absolute_ticks cal tick s = Inr t \<Longrightarrow> i64_ok t"
  using sdiv_i64_ok [OF wrap64_ok ns_per_tick_pos [of tick]]
  by (auto simp: absolute_ticks_def Let_def split: if_splits)

lemma time_in_ticks_ok: "get_time_in_ticks cal tick now_ns s r = Inr (t, r') \<Longrightarrow> i64_ok t"
  by (auto simp: get_time_in_ticks_def now_in_ticks_ok int64_limits relative_ticks_ok absolute_ticks_ok
      split: if_splits sum.splits)

lemma read_range_ok:
  "read_range cal tick now1 now2 fl = Some (a, b) \<Longrightarrow> a < b \<and> i64_ok a \<and> i64_ok b"
  by (auto simp: read_range_def Let_def wrap64_ok time_in_ticks_ok split: sum.splits prod.splits if_splits)

lemma read_range_one_relative:
  assumes "read_range cal tick now1 now2 fl = Some (a, b)"
  obtains t u p q where "get_time_in_ticks cal tick now1 (fl_start fl) False = Inr (t, p)"
    "get_time_in_ticks cal tick now2 (fl_end fl) False = Inr (u, q)" "\<not> (p \<and> q)"
  using assms by (auto simp: read_range_def split: sum.splits prod.splits if_splits)

lemma do_read_datapoints_range:
  "do_read_datapoints cal env now1 now2 fl sel = SendRead addr r \<Longrightarrow>
    rq_start_time r < rq_end_time r \<and> i64_ok (rq_start_time r) \<and> i64_ok (rq_end_time r)"
  by (auto simp: do_read_datapoints_def dest: read_range_ok split: option.splits prod.splits)

text \<open>
  Claim C34. Whatever the flags, the arguments, the clock, the calendar and the standard
  input, a read request the client sends is for a range of 64-bit times that is not empty.
\<close>

theorem read_request_has_a_range:
  assumes "vqro_read_main cal parse_json env now1 now2 fl args stdin = SendRead addr r"
  shows "rq_start_time r < rq_end_time r \<and> i64_ok (rq_start_time r) \<and> i64_ok (rq_end_time r)"
  using assms by (auto simp: vqro_read_main_def do_search_labels_def do_search_series_def
      do_read_datapoints_with_list_def do_read_datapoints_with_query_def
      dest: do_read_datapoints_range split: if_splits list.splits sum.splits stdin_series.splits)

definition default_read_flags :: read_flags where
  "default_read_flags = \<lparr>fl_start = ''-5m'', fl_end = ''now'', fl_tick_unit = [], fl_search_limit = 0,
     fl_search_offset = 0, fl_datapoint_limit = 0, fl_prefer_latest = False, fl_server_ip = ''127.0.0.1'',
     fl_server_port = 7950, fl_h = False, fl_search_labels = False, fl_search_series = False,
     fl_series_list_from_stdin = False\<rparr>"

definition no_calendar :: "unit calendar" where
  "no_calendar = \<lparr>cal_zero = (), cal_strptime = (\<lambda>s form tm. (tm, False)), cal_mktime = (\<lambda>tm. - 1)\<rparr>"

definition five_minutes_request :: read_request where
  "five_minutes_request = \<lparr>rq_selector = QuerySelector \<lparr>q_constraints =
       [\<lparr>lc_label_name = ''host'', lc_predicate = ExactValue ''db1''\<rparr>], q_result_offset = 0, q_result_limit = 0\<rparr>,
     rq_start_time = 6900, rq_end_time = 7200, rq_datapoint_limit = 0, rq_prefer_latest = False\<rparr>"

lemma last_five_minutes:
  "vqro_read_main no_calendar (\<lambda>s. NotJson) [] 7200000000000 7200000000000 default_read_flags [''host=db1''] [] =
    SendRead (get_server_address default_read_flags) five_minutes_request"
proof -
  have now: "now_in_ticks Unit_s 7200000000000 = 7200"
    by (simp add: now_in_ticks_def nanoseconds_per_tick_def ONE_BILLION_def wrap64_id i64_ok_def
        INT64_MIN_def INT64_MAX_def sdiv_nonneg)
  have matched: "match_relative ''-5m'' = Some (''-5'', ''m'')" "signed_digits_value ''-5'' = - 5"
    "map_of tick_unit_by_string ''m'' = Some Unit_m" by code_simp+
  then have five: "relative_ticks Unit_s ''-5m'' = Inr (- 300)"
    by (simp add: relative_ticks_def wrap64_id i64_ok_def INT64_MIN_def INT64_MAX_def nanoseconds_per_tick_def
        ONE_BILLION_def sdiv_nonneg)
  have nl: "NL = [CHR 0x0A]" by code_simp
  have "parse_constraint ''host=db1'' = Inr \<lparr>lc_label_name = ''host'', lc_predicate = ExactValue ''db1''\<rparr>"
    by (simp add: parse_constraint_def one_line_def nl)
  then have query: "build_series_query default_read_flags [''host=db1''] = Inr \<lparr>q_constraints =
       [\<lparr>lc_label_name = ''host'', lc_predicate = ExactValue ''db1''\<rparr>], q_result_offset = 0, q_result_limit = 0\<rparr>"
    by (simp add: build_series_query_def default_read_flags_def)
  have range: "read_range no_calendar Unit_s 7200000000000 7200000000000 default_read_flags = Some (6900, 7200)"
    using now five by (simp add: read_range_def get_time_in_ticks_def default_read_flags_def Let_def wrap64_id
        i64_ok_def INT64_MIN_def INT64_MAX_def)
  have "choose_tick_unit [] default_read_flags = Some Unit_s" by code_simp
  then show ?thesis using query range
    by (simp add: vqro_read_main_def do_read_datapoints_with_query_def do_read_datapoints_def
        five_minutes_request_def) (simp add: default_read_flags_def)
qed

theorem read_request_has_a_range_witness:
  "rq_start_time five_minutes_request < rq_end_time five_minutes_request \<and>
    i64_ok (rq_start_time five_minutes_request) \<and> i64_ok (rq_end_time five_minutes_request)"
  by (rule read_request_has_a_range [OF last_five_minutes])

end
