(* ===== verification/WriteClient.thy ===== *)
theory WriteClient
  imports ReadClient
begin

text \<open>
  \<open>vqro_write.cc\<close>: the writing client.  The JSON library is a parameter: what the code reads
  of a parsed line is its two members, each of which may be missing, and the library throws when
  a value has not the type the code asks for.  No one catches that, so the program ends.

  An interrupt closes the standard input, so it shows here as a shorter input.
\<close>

section \<open>The client\<close>

datatype json_labels = NullLabels | BadLabels | GoodLabels labels

datatype json_point = WrongSize | BadPoint | GoodPoint int int double

record json_record =
  jr_labels :: json_labels
  jr_datapoints :: "json_point list option"

record write_flags =
  wf_server_ip :: string
  wf_server_port :: int
  wf_h :: bool

text \<open>How the program ends, and why a loop is left.\<close>

datatype client_exit = Returned int | Terminated

datatype copied = Copied "datapoint list" | SizeError | CopyThrew

text \<open>The inner loop: what it has added to the operation before an invalid element is dropped with it.\<close>

fun copy_datapoints :: "json_point list \<Rightarrow> datapoint list \<Rightarrow> copied" where
  "copy_datapoints [] points = Copied points"
| "copy_datapoints (WrongSize # vals) points = SizeError"
| "copy_datapoints (BadPoint # vals) points = CopyThrew"
| "copy_datapoints (GoodPoint t d v # vals) points = copy_datapoints vals (points @ [\<lparr>dp_timestamp = t, dp_value = v, dp_duration = d\<rparr>])"

text \<open>One line: the operation it makes, or the end of the program.\<close>

definition line_operation :: "(string \<Rightarrow> json_record option) \<Rightarrow> string \<Rightarrow> client_exit + labels \<times> datapoint list" where
  "line_operation parse_json line =
     (case parse_json line of
       None \<Rightarrow> Inl (Returned 1)
     | Some record \<Rightarrow>
         (case (jr_labels record, jr_datapoints record) of
           (NullLabels, _) \<Rightarrow> Inl (Returned 1)
         | (_, None) \<Rightarrow> Inl (Returned 1)
         | (BadLabels, Some _) \<Rightarrow> Inl Terminated
         | (GoodLabels ls, Some vals) \<Rightarrow>
             (case copy_datapoints vals [] of
               CopyThrew \<Rightarrow> Inl Terminated
             | SizeError \<Rightarrow> Inl (Returned 0)
             | Copied points \<Rightarrow> Inr (ls, points))))"

text \<open>The loop over the lines: the operations sent, in order, and the end of the program.\<close>

primrec write_lines ::
  "(string \<Rightarrow> json_record option) \<Rightarrow> string list \<Rightarrow> (labels \<times> datapoint list) list \<times> client_exit" where
  "write_lines parse_json [] = ([], Returned 0)"
| "write_lines parse_json (line # ls) =
     (if line = '''' then write_lines parse_json ls
      else (case line_operation parse_json line of
          Inl e \<Rightarrow> ([], e)
        | Inr write_op \<Rightarrow>
            (case write_lines parse_json ls of (sent, e) \<Rightarrow>
              (if snd write_op \<noteq> [] then write_op # sent else sent, e))))"

definition vqro_write_main ::
  "(string \<Rightarrow> json_record option) \<Rightarrow> write_flags \<Rightarrow> string \<Rightarrow> string \<times> (labels \<times> datapoint list) list \<times> client_exit" where
  "vqro_write_main parse_json fl stdin =
     (if wf_h fl then ('''', [], Returned 0)
      else (wf_server_ip fl @ '':'' @ to_string (wf_server_port fl), write_lines parse_json (complete_lines [] stdin)))"

text \<open>
  \<open>VaqueroClient\<close>: the stream is opened by the first write, and closed only if it has been opened.
\<close>

datatype stream_call = OpenStream | SendOperation "labels \<times> datapoint list" | SendWritesDone | FinishCall

record write_client =
  wc_stream :: bool
  wc_calls :: "stream_call list"

definition VaqueroWriteClient :: write_client where
  "VaqueroWriteClient = \<lparr>wc_stream = False, wc_calls = []\<rparr>"

definition client_write :: "labels \<times> datapoint list \<Rightarrow> write_client \<Rightarrow> write_client" where
  "client_write write_op c =
     (let c1 = (if \<not> wc_stream c then c\<lparr>wc_stream := True, wc_calls := wc_calls c @ [OpenStream]\<rparr> else c)
      in c1\<lparr>wc_calls := wc_calls c1 @ [SendOperation write_op]\<rparr>)"

definition client_shutdown :: "write_client \<Rightarrow> write_client" where
  "client_shutdown c = (if wc_stream c then c\<lparr>wc_calls := wc_calls c @ [SendWritesDone, FinishCall]\<rparr> else c)"

lemma client_write_all:
  "wc_stream c \<Longrightarrow> foldl (\<lambda>c op. client_write op c) c ops = c\<lparr>wc_calls := wc_calls c @ map SendOperation ops\<rparr>"
  by (induction ops arbitrary: c) (simp_all add: client_write_def)

text \<open>The calls of a whole run: one stream with all operations, or none at all.\<close>

theorem write_client_one_stream:
  "wc_calls (client_shutdown (foldl (\<lambda>c op. client_write op c) VaqueroWriteClient ops)) =
    (if ops = [] then [] else OpenStream # map SendOperation ops @ [SendWritesDone, FinishCall])"
proof (cases ops)
  case (Cons op ops')
  then have "foldl (\<lambda>c op. client_write op c) VaqueroWriteClient ops =
      \<lparr>wc_stream = True, wc_calls = OpenStream # map SendOperation ops\<rparr>"
    using client_write_all [of "client_write op VaqueroWriteClient" ops'] by (simp add: client_write_def VaqueroWriteClient_def)
  with Cons show ?thesis by (simp add: client_shutdown_def)
qed (simp add: client_shutdown_def VaqueroWriteClient_def)

text \<open>
  \<open>ReadStatusMessages\<close>, which no thread runs at present (its start is commented out): \<open>n\<close> rounds of
  its loop.  The result of \<open>Read\<close> is not looked at, so once the stream has ended every round prints
  the cleared message; and each message to go away closes the stream again.
\<close>

record status_message =
  ms_text :: string
  ms_error :: bool
  ms_go_away :: bool

definition cleared_message :: status_message where
  "cleared_message = \<lparr>ms_text = [], ms_error = False, ms_go_away = False\<rparr>"

primrec read_status_messages :: "nat \<Rightarrow> status_message list \<Rightarrow> write_client \<Rightarrow> status_message list \<times> write_client" where
  "read_status_messages 0 messages c = ([], c)"
| "read_status_messages (Suc n) messages c =
     (let status_msg = (case messages of [] \<Rightarrow> cleared_message | msg # _ \<Rightarrow> msg);
          c' = (if ms_go_away status_msg then client_shutdown c else c)
      in case read_status_messages n (tl messages) c' of (printed, c'') \<Rightarrow> (status_msg # printed, c''))"

lemma read_status_messages_after_end:
  "read_status_messages n [] c = (replicate n cleared_message, c)"
  by (induction n) (simp_all add: cleared_message_def Let_def)

theorem status_reader_spins:
  "wc_stream c \<Longrightarrow> read_status_messages (length messages + n) messages c =
    (messages @ replicate n cleared_message,
     c\<lparr>wc_calls := wc_calls c @ concat (map (\<lambda>_. [SendWritesDone, FinishCall]) (filter ms_go_away messages))\<rparr>)"
  by (induction messages arbitrary: c) (simp_all add: read_status_messages_after_end client_shutdown_def Let_def)

section \<open>What is sent\<close>

text \<open>Lines as a producer prints them.\<close>

definition print_lines :: "string list \<Rightarrow> string" where
  "print_lines ls = concat (map (\<lambda>l. l @ NL) ls)"

lemma print_lines_simps [simp]:
  "print_lines [] = []" "print_lines (l # ls) = l @ NL @ print_lines ls"
  "print_lines (ls @ ls') = print_lines ls @ print_lines ls'"
  by (simp_all add: print_lines_def)

lemma scan_unfinished: "one_line s \<or> s = [] \<Longrightarrow> complete_lines line s = []"
  by (induction s arbitrary: line) (auto simp: one_line_def list_all_iff)

lemma scan_line:
  assumes "one_line l \<or> l = []" shows "complete_lines line (l @ NL @ s) = (line @ l) # complete_lines [] s"
  using assms by (induction l arbitrary: line) (auto simp: one_line_def list_all_iff NL_def)

lemma scan_lines:
  assumes "list_all (\<lambda>l. one_line l \<or> l = []) ls" and "one_line tail \<or> tail = []"
  shows "complete_lines [] (print_lines ls @ tail) = ls"
  using assms(1) by (induction ls) (simp_all add: scan_line scan_unfinished [OF assms(2)])

lemma write_lines_append:
  assumes "list_all (\<lambda>l. l = [] \<or> (\<exists>op. line_operation parse l = Inr op)) ls"
  shows "write_lines parse (ls @ ls') =
    (fst (write_lines parse ls) @ fst (write_lines parse ls'), snd (write_lines parse ls'))"
  using assms by (induction ls) (auto split: prod.splits)

text \<open>
  What a line says, independently of the loops: the operation it is, or how it ends the program.
  A blank line is no operation.
\<close>

definition point_of :: "json_point \<Rightarrow> datapoint option" where
  "point_of v = (case v of GoodPoint t d x \<Rightarrow> Some \<lparr>dp_timestamp = t, dp_value = x, dp_duration = d\<rparr> | _ \<Rightarrow> None)"

inductive line_says :: "(string \<Rightarrow> json_record option) \<Rightarrow> string \<Rightarrow> labels \<times> datapoint list \<Rightarrow> bool" for parse where
  blank_line: "line_says parse '''' (ls, [])"
| usable_line: "one_line line \<Longrightarrow> parse line = Some r \<Longrightarrow> jr_labels r = GoodLabels ls \<Longrightarrow> jr_datapoints r = Some vals \<Longrightarrow>
    map point_of vals = map Some points \<Longrightarrow> line_says parse line (ls, points)"

inductive line_fault :: "(string \<Rightarrow> json_record option) \<Rightarrow> string \<Rightarrow> client_exit \<Rightarrow> bool" for parse where
  no_json: "parse line = None \<Longrightarrow> line_fault parse line (Returned 1)"
| no_labels: "parse line = Some r \<Longrightarrow> jr_labels r = NullLabels \<Longrightarrow> line_fault parse line (Returned 1)"
| no_datapoints: "parse line = Some r \<Longrightarrow> jr_datapoints r = None \<Longrightarrow> line_fault parse line (Returned 1)"
| labels_throw: "parse line = Some r \<Longrightarrow> jr_labels r = BadLabels \<Longrightarrow> jr_datapoints r = Some vals \<Longrightarrow>
    line_fault parse line Terminated"
| wrong_size: "parse line = Some r \<Longrightarrow> jr_labels r = GoodLabels ls \<Longrightarrow> jr_datapoints r = Some (before @ WrongSize # after) \<Longrightarrow>
    list_all (\<lambda>v. point_of v \<noteq> None) before \<Longrightarrow> line_fault parse line (Returned 0)"
| point_throws: "parse line = Some r \<Longrightarrow> jr_labels r = GoodLabels ls \<Longrightarrow> jr_datapoints r = Some (before @ BadPoint # after) \<Longrightarrow>
    list_all (\<lambda>v. point_of v \<noteq> None) before \<Longrightarrow> line_fault parse line Terminated"

lemma copy_good_points:
  "list_all (\<lambda>v. point_of v \<noteq> None) vals \<Longrightarrow>
     copy_datapoints (vals @ rest) points = copy_datapoints rest (points @ map (the \<circ> point_of) vals)"
  by (induction vals arbitrary: points) (auto simp: point_of_def split: json_point.splits)

lemma points_of_good: "map point_of vals = map Some points \<Longrightarrow> list_all (\<lambda>v. point_of v \<noteq> None) vals \<and> map (the \<circ> point_of) vals = points"
  by (induction vals arbitrary: points) (auto simp: Cons_eq_map_conv)

lemma line_says_operation:
  assumes "line_says parse line op" and "line \<noteq> []"
  shows "line_operation parse line = Inr op"
  using assms(1)
proof cases
  case (usable_line r ls vals points)
  from points_of_good [OF usable_line(6)] usable_line show ?thesis
    using copy_good_points [of vals "[]" "[]"] by (simp add: line_operation_def)
qed (use assms(2) in simp)

lemma line_fault_operation: "line_fault parse line e \<Longrightarrow> line_operation parse line = Inl e"
  by (induction rule: line_fault.induct)
    (auto simp: line_operation_def copy_good_points split: json_labels.split option.split)

text \<open>Every line says something.\<close>

lemma points_split:
  obtains points where "map point_of vals = map Some points"
  | before after where "vals = before @ WrongSize # after" and "list_all (\<lambda>v. point_of v \<noteq> None) before"
  | before after where "vals = before @ BadPoint # after" and "list_all (\<lambda>v. point_of v \<noteq> None) before"
proof (cases "dropWhile (\<lambda>v. point_of v \<noteq> None) vals")
  case Nil
  then have "map point_of vals = map Some (map (the \<circ> point_of) vals)" by (simp add: dropWhile_eq_Nil_conv)
  then show ?thesis by (rule that(1))
next
  case (Cons v after)
  let ?before = "takeWhile (\<lambda>v. point_of v \<noteq> None) vals"
  have "vals = ?before @ v # after" using Cons by (metis takeWhile_dropWhile_id)
  moreover have "list_all (\<lambda>v. point_of v \<noteq> None) ?before" by (auto simp: list_all_iff dest: set_takeWhileD)
  moreover have "point_of v = None" using Cons hd_dropWhile [of "\<lambda>v. point_of v \<noteq> None" vals] by simp
  ultimately show ?thesis using that(2,3) by (cases v) (auto simp: point_of_def)
qed

lemma line_says_or_fault: "one_line line \<Longrightarrow> (\<exists>op. line_says parse line op) \<or> (\<exists>e. line_fault parse line e)"
proof (cases "parse line")
  case (Some r)
  assume one: "one_line line"
  show ?thesis
  proof (cases "jr_datapoints r")
    case vals: (Some vals)
    show ?thesis
    proof (cases "jr_labels r")
      case (GoodLabels ls)
      show ?thesis
        by (rule points_split [of vals])
          (use one Some vals GoodLabels in \<open>blast intro: usable_line wrong_size point_throws\<close>)+
    qed (use Some vals in \<open>auto intro: no_labels labels_throw\<close>)
  qed (use Some in \<open>auto intro: no_datapoints\<close>)
qed (auto intro: no_json)

lemma write_lines_good:
  "list_all2 (line_says parse) ls ops \<Longrightarrow> write_lines parse ls = (filter (\<lambda>op. snd op \<noteq> []) ops, Returned 0)"
proof (induction rule: list_all2_induct)
  case (Cons l ls op ops)
  show ?case
  proof (cases "l = []")
    case True
    with Cons.hyps(1) have "snd op = []" by cases (simp_all add: one_line_def)
    with True Cons show ?thesis by simp
  next
    case False
    with Cons line_says_operation [OF Cons.hyps(1)] show ?thesis by simp
  qed
qed simp

lemma line_says_lines: "list_all2 (line_says parse) ls ops \<Longrightarrow> list_all (\<lambda>l. one_line l \<or> l = []) ls"
  by (induction rule: list_all2_induct) (auto elim: line_says.cases)

text \<open>
  Claim C36. Of an input of lines, the client sends one operation with every line that has
  datapoints, with its labels and its datapoints, in the order of the lines, until the first line it cannot use.  That line ends the
  program and what follows is not read: the exit code is 1 if it is no JSON or one of the two members
  is missing, but 0 where an element has not three values, as at the end of the input; and a value
  of the wrong type terminates the program by an exception.  Without such
  a line the exit code is zero, and what follows the last newline is dropped.  There are no other lines.
\<close>

theorem client_sends_lines_in_order:
  assumes "list_all2 (line_says parse) ls ops" and "one_line tail \<or> tail = []" and "\<not> wf_h fl"
    and "sent = filter (\<lambda>op. snd op \<noteq> []) ops"
  shows "snd (vqro_write_main parse fl (print_lines ls @ tail)) = (sent, Returned 0) \<and>
    (\<forall>bad rest e. one_line bad \<longrightarrow> line_fault parse bad e \<longrightarrow>
      snd (vqro_write_main parse fl (print_lines ls @ bad @ NL @ rest)) = (sent, e)) \<and>
    (\<forall>line. one_line line \<longrightarrow> (\<exists>op. line_says parse line op) \<or> (\<exists>e. line_fault parse line e))"
proof (intro conjI allI impI)
  note lines = line_says_lines [OF assms(1)]
  show "snd (vqro_write_main parse fl (print_lines ls @ tail)) = (sent, Returned 0)"
    using assms(2-4) by (simp add: vqro_write_main_def scan_lines [OF lines] write_lines_good [OF assms(1)])
  fix bad rest e
  assume bad: "one_line bad" "line_fault parse bad e"
  have scan: "complete_lines [] (print_lines ls @ bad @ NL @ rest) = ls @ bad # complete_lines [] rest"
    using lines bad(1) by (induction ls) (simp_all add: scan_line)
  have good: "list_all (\<lambda>l. l = [] \<or> (\<exists>op. line_operation parse l = Inr op)) ls"
    using assms(1) by (induction rule: list_all2_induct) (auto dest: line_says_operation)
  have "bad \<noteq> []" using bad(1) by (simp add: one_line_def)
  then show "snd (vqro_write_main parse fl (print_lines ls @ bad @ NL @ rest)) = (sent, e)"
    using assms(3,4) line_fault_operation [OF bad(2)]
    by (simp add: vqro_write_main_def scan write_lines_append [OF good] write_lines_good [OF assms(1)])
qed (rule line_says_or_fault)

definition two_points :: "datapoint list" where
  "two_points = [\<lparr>dp_timestamp = 0, dp_value = 0, dp_duration = 10\<rparr>, \<lparr>dp_timestamp = 10, dp_value = 0, dp_duration = 10\<rparr>]"

text \<open>A toy parser for the witness: it knows three texts.\<close>

definition demo_parser :: "string \<Rightarrow> json_record option" where
  "demo_parser line =
     (if line = ''point'' then Some \<lparr>jr_labels = GoodLabels [(''foo'', ''bar'')], jr_datapoints = Some [GoodPoint 0 10 0, GoodPoint 10 10 0]\<rparr>
      else if line = ''pair'' then Some \<lparr>jr_labels = GoodLabels [(''foo'', ''bar'')], jr_datapoints = Some [GoodPoint 0 10 0, WrongSize]\<rparr>
      else None)"

definition demo_write_flags :: write_flags where
  "demo_write_flags = \<lparr>wf_server_ip = ''127.0.0.1'', wf_server_port = 7950, wf_h = False\<rparr>"

theorem client_sends_lines_in_order_witness:
  "snd (vqro_write_main demo_parser demo_write_flags (print_lines [''point'', []] @ ''point'')) =
      ([([(''foo'', ''bar'')], two_points)], Returned 0) \<and>
    snd (vqro_write_main demo_parser demo_write_flags (print_lines [''point'', []] @ ''pair'' @ NL @ ''anything'')) =
      ([([(''foo'', ''bar'')], two_points)], Returned 0) \<and>
    snd (vqro_write_main demo_parser demo_write_flags (print_lines [''point'', []] @ ''junk'' @ NL @ ''anything'')) =
      ([([(''foo'', ''bar'')], two_points)], Returned 1)"
proof -
  let ?op = "([(''foo'', ''bar'')], two_points)"
  have nl: "NL = [CHR 0x0A]" by code_simp
  have one: "one_line ''point''" "one_line ''pair''" "one_line ''junk''" by (simp_all add: one_line_def nl)
  have "line_says demo_parser ''point'' ?op"
    by (rule usable_line [OF one(1), where r = "the (demo_parser ''point'')" and vals = "[GoodPoint 0 10 0, GoodPoint 10 10 0]"])
      (simp_all add: demo_parser_def point_of_def two_points_def)
  moreover have "line_says demo_parser [] ([], [])" by (rule blank_line)
  ultimately have says: "list_all2 (line_says demo_parser) [''point'', []] [?op, ([], [])]" by simp
  have pair: "line_fault demo_parser ''pair'' (Returned 0)"
    by (rule wrong_size [where r = "the (demo_parser ''pair'')" and before = "[GoodPoint 0 10 0]" and after = "[]"]) (simp_all add: demo_parser_def point_of_def)
  have junk: "line_fault demo_parser ''junk'' (Returned 1)" by (rule no_json) (simp add: demo_parser_def)
  have sent: "[?op] = filter (\<lambda>op. snd op \<noteq> []) [?op, ([], [])]" by (simp add: two_points_def)
  have flags: "\<not> wf_h demo_write_flags" by (simp add: demo_write_flags_def)
  from client_sends_lines_in_order [OF says disjI1 [OF one(1)] flags sent] one pair junk show ?thesis by blast
qed

end
