(* ===== verification/JsonClients.thy ===== *)
theory JsonClients
  imports WriteClient "HOL-Library.Finite_Map" "HOL-Library.Multiset"
begin

text \<open>
  The JSON of both clients: what \<open>vqro_read.cc\<close> prints and what \<open>vqro_write.cc\<close> reads of a line.

  The JSON library is a parameter, a record of the calls the two programs make.  \<open>json\<close> is the
  data its documentation says a value holds, and \<open>json_lib_ok\<close> what it says of the calls.
\<close>

section \<open>The library, as the code uses it\<close>

record 'j json_lib =
  js_null :: 'j
  js_array :: 'j
  js_int :: "int \<Rightarrow> 'j"
  js_real :: "double \<Rightarrow> 'j"
  js_string :: "string \<Rightarrow> 'j"
  js_bool :: "bool \<Rightarrow> 'j"
  js_set :: "'j \<Rightarrow> string \<Rightarrow> 'j \<Rightarrow> 'j"
  js_append :: "'j \<Rightarrow> 'j \<Rightarrow> 'j"
  js_write :: "'j \<Rightarrow> string"
  js_show :: "'j \<Rightarrow> string"
  js_parse :: "string \<Rightarrow> 'j option"
  js_get :: "'j \<Rightarrow> string \<Rightarrow> 'j option"
  js_is_null :: "'j \<Rightarrow> bool"
  js_member_names :: "'j \<Rightarrow> string list option"
  js_as_string :: "'j \<Rightarrow> string option"
  js_items :: "'j \<Rightarrow> 'j list"
  js_size :: "'j \<Rightarrow> nat"
  js_at :: "'j \<Rightarrow> nat \<Rightarrow> 'j"
  js_as_int64 :: "'j \<Rightarrow> int option"
  js_as_double :: "'j \<Rightarrow> double option"

section \<open>What the read client prints\<close>

definition json_of_labels :: "'j json_lib \<Rightarrow> labels \<Rightarrow> 'j" where
  "json_of_labels js labels = foldl (\<lambda>obj l. js_set js obj (fst l) (js_string js (snd l))) (js_null js) labels"

definition json_of_point :: "'j json_lib \<Rightarrow> datapoint \<Rightarrow> 'j" where
  "json_of_point js p =
     js_append js (js_append js (js_append js (js_null js) (js_int js (dp_timestamp p))) (js_int js (dp_duration p)))
       (js_real js (dp_value p))"

text \<open>A status is its text, its error flag and whether the client is to go away.\<close>

definition json_of_status :: "'j json_lib \<Rightarrow> string \<times> bool \<times> bool \<Rightarrow> 'j" where
  "json_of_status js status =
     js_set js (js_set js (js_set js (js_null js) ''text'' (js_string js (fst status))) ''error'' (js_bool js (fst (snd status))))
       ''go_away'' (js_bool js (snd (snd status)))"

definition json_of_result :: "'j json_lib \<Rightarrow> read_result \<Rightarrow> (string \<times> bool \<times> bool) option \<Rightarrow> 'j" where
  "json_of_result js result status =
     (let obj = js_set js (js_null js) ''labels'' (json_of_labels js (fst result));
          datapoints = foldl (js_append js) (js_array js) (map (json_of_point js) (snd result));
          obj = js_set js obj ''datapoints'' datapoints
      in case status of None \<Rightarrow> obj | Some st \<Rightarrow> js_set js obj ''status'' (json_of_status js st))"

definition print_read_result_json :: "'j json_lib \<Rightarrow> read_result \<Rightarrow> (string \<times> bool \<times> bool) option \<Rightarrow> string" where
  "print_read_result_json js result status = js_write js (json_of_result js result status)"

definition print_search_labels_json :: "'j json_lib \<Rightarrow> string list \<Rightarrow> string" where
  "print_search_labels_json js found = js_show js (foldl (js_append js) (js_null js) (map (js_string js) found)) @ NL"

definition print_search_series_json :: "'j json_lib \<Rightarrow> labels list \<Rightarrow> string" where
  "print_search_series_json js matches = js_write js (foldl (js_append js) (js_null js) (map (json_of_labels js) matches))"

section \<open>The calls of the read client\<close>

text \<open>
  \<open>VaqueroClient\<close>: every message of the stream goes to the callback, here the text it prints, until
  the stream ends; then \<open>Finish\<close> tells whether the call succeeded.
\<close>

type_synonym 'm stream = "'m list \<times> bool"

definition client_call :: "('m \<Rightarrow> string) \<Rightarrow> 'm stream \<Rightarrow> string \<times> bool" where
  "client_call callback stream = (concat (map callback (fst stream)), snd stream)"

record vaquero_server =
  srv_read_datapoints :: "read_request \<Rightarrow> (read_result \<times> (string \<times> bool \<times> bool) option) stream"
  srv_search_labels :: "labels_query \<Rightarrow> (string list \<times> (string \<times> bool \<times> bool) option) stream"
  srv_search_series :: "series_query \<Rightarrow> (labels list \<times> (string \<times> bool \<times> bool) option) stream"

definition plain_status :: "(string \<times> bool \<times> bool) option \<Rightarrow> (string \<times> bool) option" where
  "plain_status = map_option (\<lambda>(txt, err, go_away). (txt, err))"

text \<open>The end of a command: its exit code and, of the calls, what they print.  The value of the call
  is not used.\<close>

definition run_command ::
  "'j json_lib \<Rightarrow> (double \<Rightarrow> string) \<Rightarrow> bool \<Rightarrow> vaquero_server \<Rightarrow> command \<Rightarrow> int option \<times> string" where
  "run_command js show_double json srv cmd =
     (case cmd of
       ExitCode n \<Rightarrow> (Some n, '''')
     | Abort \<Rightarrow> (None, '''')
     | SendLabelsQuery addr query \<Rightarrow> (Some 0, fst (client_call
         (\<lambda>m. if json then print_search_labels_json js (fst m) else print_search_labels_results (fst m) (plain_status (snd m)))
         (srv_search_labels srv query)))
     | SendSeriesQuery addr query \<Rightarrow> (Some 0, fst (client_call
         (\<lambda>m. if json then print_search_series_json js (fst m) else print_search_series_results (fst m) (plain_status (snd m)))
         (srv_search_series srv query)))
     | SendRead addr request \<Rightarrow> (Some 0, fst (client_call
         (\<lambda>m. if json then print_read_result_json js (fst m) (snd m) else print_read_result show_double (fst m) (plain_status (snd m)))
         (srv_read_datapoints srv request))))"

section \<open>What the write client reads\<close>

text \<open>A member of a value that is no object, and a string of a value that is none, are exceptions.\<close>

definition labels_of_json :: "'j json_lib \<Rightarrow> 'j \<Rightarrow> json_labels" where
  "labels_of_json js labels_val =
     (case js_member_names js labels_val of
       None \<Rightarrow> BadLabels
     | Some members \<Rightarrow>
         (case those (map (\<lambda>member. Option.bind (js_get js labels_val member) (js_as_string js)) members) of
           None \<Rightarrow> BadLabels
         | Some vals \<Rightarrow> GoodLabels (zip members vals)))"

definition point_of_json :: "'j json_lib \<Rightarrow> 'j \<Rightarrow> json_point" where
  "point_of_json js val =
     (if js_size js val \<noteq> 3 then WrongSize
      else (case (js_as_int64 js (js_at js val 0), js_as_int64 js (js_at js val 1), js_as_double js (js_at js val 2)) of
          (Some timestamp, Some dur, Some v) \<Rightarrow> GoodPoint timestamp dur v
        | _ \<Rightarrow> BadPoint))"

definition record_of_line :: "'j json_lib \<Rightarrow> string \<Rightarrow> json_record option" where
  "record_of_line js line =
     (case js_parse js line of
       None \<Rightarrow> None
     | Some record \<Rightarrow>
         (case (js_get js record ''labels'', js_get js record ''datapoints'') of
           (Some labels_val, Some datapoints_val) \<Rightarrow> Some
             \<lparr>jr_labels = (if js_is_null js labels_val then NullLabels else labels_of_json js labels_val),
              jr_datapoints = (if js_is_null js datapoints_val then None
                               else Some (map (point_of_json js) (js_items js datapoints_val)))\<rparr>
         | _ \<Rightarrow> Some \<lparr>jr_labels = BadLabels, jr_datapoints = Some []\<rparr>))"

section \<open>What the library promises\<close>

datatype json =
    JNull
  | JBool bool
  | JInt int
  | JReal double
  | JString string
  | JArray "json list"
  | JObject "(string, json) fmap"

definition json_builds :: "'j json_lib \<Rightarrow> ('j \<Rightarrow> json) \<Rightarrow> bool" where
  "json_builds js view \<longleftrightarrow>
     view (js_null js) = JNull \<and> view (js_array js) = JArray [] \<and>
     (\<forall>i. view (js_int js i) = JInt i) \<and> (\<forall>d. view (js_real js d) = JReal d) \<and> (\<forall>s. view (js_string js s) = JString s) \<and>
     (\<forall>j n v. view j = JNull \<longrightarrow> view (js_set js j n v) = JObject (fmupd n (view v) fmempty)) \<and>
     (\<forall>j m n v. view j = JObject m \<longrightarrow> view (js_set js j n v) = JObject (fmupd n (view v) m)) \<and>
     (\<forall>j v. view j = JNull \<longrightarrow> view (js_append js j v) = JArray [view v]) \<and>
     (\<forall>j xs v. view j = JArray xs \<longrightarrow> view (js_append js j v) = JArray (xs @ [view v]))"

text \<open>\<open>as_real\<close> is the conversion of an integer to a \<open>double\<close>.\<close>

definition json_reads :: "'j json_lib \<Rightarrow> ('j \<Rightarrow> json) \<Rightarrow> (int \<Rightarrow> double) \<Rightarrow> bool" where
  "json_reads js view as_real \<longleftrightarrow>
     (\<forall>j. js_is_null js j \<longleftrightarrow> view j = JNull) \<and>
     (\<forall>j m. view j = JObject m \<longrightarrow>
        (\<exists>names. js_member_names js j = Some names \<and> distinct names \<and> set names = fmdom' m) \<and>
        (\<forall>n. \<exists>v. js_get js j n = Some v \<and> view v = (case fmlookup m n of None \<Rightarrow> JNull | Some x \<Rightarrow> x))) \<and>
     (\<forall>j s. view j = JString s \<longrightarrow> js_as_string js j = Some s) \<and>
     (\<forall>j xs. view j = JArray xs \<longrightarrow> map view (js_items js j) = xs \<and> js_size js j = length xs \<and>
        (\<forall>i < length xs. view (js_at js j i) = xs ! i)) \<and>
     (\<forall>j i. view j = JInt i \<longrightarrow> i64_ok i \<longrightarrow> js_as_int64 js j = Some i \<and> js_as_double js j = Some (as_real i)) \<and>
     (\<forall>j d. view j = JReal d \<longrightarrow> js_as_double js j = Some d)"

text \<open>
  Writing a value and parsing it again: the same data, except that a number without a fraction may
  come back as an integer.
\<close>

inductive same_json :: "(int \<Rightarrow> double) \<Rightarrow> json \<Rightarrow> json \<Rightarrow> bool" for as_real :: "int \<Rightarrow> double" where
  same_value: "same_json as_real j j"
| same_number: "as_real i = d \<Longrightarrow> i64_ok i \<Longrightarrow> same_json as_real (JReal d) (JInt i)"
| same_array: "list_all2 (same_json as_real) xs ys \<Longrightarrow> same_json as_real (JArray xs) (JArray ys)"
| same_object: "(\<forall>n. rel_option (same_json as_real) (fmlookup m n) (fmlookup m' n)) \<Longrightarrow> same_json as_real (JObject m) (JObject m')"
monos list.rel_mono option.rel_mono

lemma same_json_object:
  assumes "same_json as_real (JObject m) y"
  shows "\<exists>m'. y = JObject m' \<and> (\<forall>n. rel_option (same_json as_real) (fmlookup m n) (fmlookup m' n))"
  using assms by (cases rule: same_json.cases) (auto intro: option.rel_refl same_value)

lemma same_json_array:
  assumes "same_json as_real (JArray xs) y"
  shows "\<exists>ys. y = JArray ys \<and> list_all2 (same_json as_real) xs ys"
  using assms by (cases rule: same_json.cases) (auto intro: list.rel_refl same_value)

inductive_simps same_json_simps:
  "same_json as_real JNull y" "same_json as_real (JString s) y" "same_json as_real (JInt i) y" "same_json as_real (JReal d) y"

text \<open>A line of the output, read back.\<close>

definition written_reads_back :: "'j json_lib \<Rightarrow> ('j \<Rightarrow> json) \<Rightarrow> (int \<Rightarrow> double) \<Rightarrow> 'j \<Rightarrow> bool" where
  "written_reads_back js view as_real j \<longleftrightarrow>
     (\<exists>line j'. js_write js j = line @ NL \<and> one_line line \<and> js_parse js line = Some j' \<and> same_json as_real (view j) (view j'))"

section \<open>From one client to the other\<close>

lemma view_labels:
  assumes "json_builds js view" and "distinct (map fst labels)" and "labels \<noteq> []"
  shows "\<exists>m. view (json_of_labels js labels) = JObject m \<and> (\<forall>n. fmlookup m n = map_option JString (map_of labels n))"
  using assms(2,3)
proof (induction labels rule: rev_induct)
  case (snoc l labels)
  let ?o = "json_of_labels js labels"
  have step: "json_of_labels js (labels @ [l]) = js_set js ?o (fst l) (js_string js (snd l))"
    by (simp add: json_of_labels_def)
  have str: "view (js_string js s) = JString s" for s using assms(1) by (simp add: json_builds_def)
  have new: "map_of (labels @ [l]) = (map_of labels)(fst l \<mapsto> snd l)"
  proof
    fix n
    have "fst l \<notin> fst ` set labels" using snoc.prems(1) by simp
    then have "map_of labels (fst l) = None" by (simp add: map_of_eq_None_iff)
    then show "map_of (labels @ [l]) n = ((map_of labels)(fst l \<mapsto> snd l)) n"
      by (cases l) (auto simp: map_add_def split: option.splits)
  qed
  show ?case
  proof (cases "labels = []")
    case True
    then have "view ?o = JNull" using assms(1) by (simp add: json_of_labels_def json_builds_def)
    then have "view (json_of_labels js (labels @ [l])) = JObject (fmupd (fst l) (JString (snd l)) fmempty)"
      using assms(1) by (simp add: step str json_builds_def)
    with True show ?thesis by (cases l) auto
  next
    case False
    with snoc obtain m where m: "view ?o = JObject m" "\<forall>n. fmlookup m n = map_option JString (map_of labels n)" by auto
    then have "view (json_of_labels js (labels @ [l])) = JObject (fmupd (fst l) (JString (snd l)) m)"
      using assms(1) by (simp add: step str json_builds_def)
    with m(2) new show ?thesis by auto
  qed
qed simp

definition json_point :: "datapoint \<Rightarrow> json" where
  "json_point p = JArray [JInt (dp_timestamp p), JInt (dp_duration p), JReal (dp_value p)]"

lemma view_point: "json_builds js view \<Longrightarrow> view (json_of_point js p) = json_point p"
  by (simp add: json_builds_def json_of_point_def json_point_def)

lemma view_points: "json_builds js view \<Longrightarrow> view (foldl (js_append js) (js_array js) (map (json_of_point js) pts)) = JArray (map json_point pts)"
  by (induction pts rule: rev_induct) (simp_all add: json_builds_def view_point)

lemma view_result:
  assumes "json_builds js view" and "distinct (map fst labels)" and "labels \<noteq> []"
  shows "\<exists>m l. view (json_of_result js (labels, pts) status) = JObject m \<and> fmlookup m ''labels'' = Some (JObject l) \<and>
    (\<forall>n. fmlookup l n = map_option JString (map_of labels n)) \<and> fmlookup m ''datapoints'' = Some (JArray (map json_point pts))"
proof -
  obtain l where l: "view (json_of_labels js labels) = JObject l" "\<forall>n. fmlookup l n = map_option JString (map_of labels n)"
    using view_labels [OF assms] by blast
  let ?o = "js_set js (js_set js (js_null js) ''labels'' (json_of_labels js labels)) ''datapoints''
      (foldl (js_append js) (js_array js) (map (json_of_point js) pts))"
  have o: "view ?o = JObject (fmupd ''datapoints'' (JArray (map json_point pts)) (fmupd ''labels'' (JObject l) fmempty))"
    using assms(1) l(1) view_points [OF assms(1), of pts] by (simp add: json_builds_def)
  have "view (js_set js ?o n v) = JObject (fmupd n (view v) (fmupd ''datapoints'' (JArray (map json_point pts)) (fmupd ''labels'' (JObject l) fmempty)))"
    for n v using assms(1) o by (simp add: json_builds_def)
  with o l(2) show ?thesis by (cases status) (auto simp: json_of_result_def Let_def)
qed

lemma point_of_json_same:
  assumes "json_reads js view as_real" and "same_json as_real (json_point p) (view v)" and "dp_ok p"
  shows "point_of_json js v = GoodPoint (dp_timestamp p) (dp_duration p) (dp_value p)"
proof -
  from same_json_array [OF assms(2) [unfolded json_point_def]] obtain ys where ys: "view v = JArray ys"
    "list_all2 (same_json as_real) [JInt (dp_timestamp p), JInt (dp_duration p), JReal (dp_value p)] ys" by blast
  then obtain x where x: "ys = [JInt (dp_timestamp p), JInt (dp_duration p), x]"
    "x = JReal (dp_value p) \<or> (\<exists>i. x = JInt i \<and> i64_ok i \<and> as_real i = dp_value p)"
    by (auto simp: list_all2_Cons1 same_json_simps)
  have ok: "i64_ok (dp_timestamp p)" "i64_ok (dp_duration p)" using assms(3) by (simp_all add: dp_ok_def)
  have at: "view (js_at js v 0) = JInt (dp_timestamp p)" "view (js_at js v 1) = JInt (dp_duration p)" "view (js_at js v 2) = x"
    "js_size js v = 3"
    using assms(1) ys(1) x(1) unfolding json_reads_def by (fastforce simp: numeral_2_eq_2)+
  then have "js_as_int64 js (js_at js v 0) = Some (dp_timestamp p)" "js_as_int64 js (js_at js v 1) = Some (dp_duration p)"
    "js_as_double js (js_at js v 2) = Some (dp_value p)"
    using assms(1) ok x(2) unfolding json_reads_def by auto
  with at(4) show ?thesis by (simp add: point_of_json_def)
qed

lemma labels_of_json_same:
  assumes "json_reads js view as_real" and "view v = JObject m" and "\<forall>n. fmlookup m n = map_option JString (map_of labels n)"
    and "distinct (map fst labels)"
  shows "\<exists>ls. labels_of_json js v = GoodLabels ls \<and> mset ls = mset labels"
proof -
  from assms(1,2) obtain names where names: "js_member_names js v = Some names" "distinct names" "set names = fmdom' m"
    unfolding json_reads_def by blast
  have dom: "set names = fst ` set labels"
    using assms(3) names(3) by (auto simp: fmdom'I fmlookup_dom'_iff dom_map_of_conv_image_fst [symmetric] dom_def)
  let ?f = "\<lambda>n. the (map_of labels n)"
  have get: "Option.bind (js_get js v n) (js_as_string js) = Some (?f n)" if "n \<in> set names" for n
  proof -
    from that dom obtain x where x: "map_of labels n = Some x" by (metis domD dom_map_of_conv_image_fst)
    from assms(1,2) obtain w where w: "js_get js v n = Some w" "view w = (case fmlookup m n of None \<Rightarrow> JNull | Some x \<Rightarrow> x)"
      unfolding json_reads_def by blast
    with x assms(3) have "view w = JString x" by simp
    with assms(1) have "js_as_string js w = Some x" unfolding json_reads_def by blast
    with w(1) x show ?thesis by simp
  qed
  have "those (map (\<lambda>n. Option.bind (js_get js v n) (js_as_string js)) ns) = Some (map ?f ns)" if "set ns \<subseteq> set names" for ns
    using that get by (induction ns) auto
  then have "labels_of_json js v = GoodLabels (map (\<lambda>n. (n, ?f n)) names)"
    using names(1) by (simp add: labels_of_json_def zip_map2 zip_same_conv_map o_def)
  moreover have "(n, x) \<in> set (map (\<lambda>n. (n, ?f n)) names) \<longleftrightarrow> (n, x) \<in> set labels" for n x
  proof -
    have "(n, x) \<in> set labels \<longleftrightarrow> map_of labels n = Some x" using assms(4) by (simp add: map_of_eq_Some_iff)
    moreover have "n \<in> set names \<longleftrightarrow> map_of labels n \<noteq> None" using dom by (simp add: map_of_eq_None_iff)
    ultimately show ?thesis by auto
  qed
  then have "set (map (\<lambda>n. (n, ?f n)) names) = set labels" by (intro equalityI subrelI) blast+
  then have "mset (map (\<lambda>n. (n, ?f n)) names) = mset labels"
    using names(2) assms(4) by (intro set_eq_iff_mset_eq_distinct [THEN iffD1])
      (auto simp: distinct_map intro: inj_onI)
  ultimately show ?thesis by blast
qed

text \<open>A result that the read client can print and the write client can read.\<close>

definition printable_result :: "read_result \<Rightarrow> bool" where
  "printable_result r \<longleftrightarrow> fst r \<noteq> [] \<and> distinct (map fst (fst r)) \<and> snd r \<noteq> [] \<and> list_all dp_ok (snd r)"

lemma line_of_result:
  assumes "json_builds js view" and "json_reads js view as_real" and "printable_result r"
    and "written_reads_back js view as_real (json_of_result js r status)"
  obtains line ls where "print_read_result_json js r status = line @ NL" and "one_line line" and "mset ls = mset (fst r)"
    and "line_operation (record_of_line js) line = Inr (ls, snd r)"
proof -
  obtain labels pts where r: "r = (labels, pts)" by (rule prod.exhaust)
  with assms(3) have lab: "labels \<noteq> []" "distinct (map fst labels)" and pts: "list_all dp_ok pts"
    by (simp_all add: printable_result_def)
  from view_result [OF assms(1) lab(2,1), of pts status] obtain m l where
    v: "view (json_of_result js r status) = JObject m" "fmlookup m ''labels'' = Some (JObject l)"
      "\<forall>n. fmlookup l n = map_option JString (map_of labels n)" "fmlookup m ''datapoints'' = Some (JArray (map json_point pts))"
    unfolding r by blast
  from assms(4) obtain line j where line: "js_write js (json_of_result js r status) = line @ NL" "one_line line"
    "js_parse js line = Some j" "same_json as_real (JObject m) (view j)"
    unfolding written_reads_back_def v(1) by blast
  from same_json_object [OF line(4)] obtain m' where m': "view j = JObject m'"
    "\<forall>n. rel_option (same_json as_real) (fmlookup m n) (fmlookup m' n)" by blast
  obtain x where x: "fmlookup m' ''labels'' = Some x" "same_json as_real (JObject l) x"
    using m'(2) [rule_format, of "''labels''"] v(2) by (auto simp: option_rel_Some1)
  obtain y where y: "fmlookup m' ''datapoints'' = Some y" "same_json as_real (JArray (map json_point pts)) y"
    using m'(2) [rule_format, of "''datapoints''"] v(4) by (auto simp: option_rel_Some1)
  obtain l' where l': "x = JObject l'" "\<forall>n. rel_option (same_json as_real) (fmlookup l n) (fmlookup l' n)"
    using same_json_object [OF x(2)] by blast
  obtain ys where ys: "y = JArray ys" "list_all2 (same_json as_real) (map json_point pts) ys"
    using same_json_array [OF y(2)] by blast
  have look: "fmlookup l' n = map_option JString (map_of labels n)" for n
    using l'(2) [rule_format, of n] v(3) by (cases "map_of labels n") (auto simp: option_rel_Some1 same_json_simps)
  from assms(2) m'(1) have "\<And>n. \<exists>v. js_get js j n = Some v \<and> view v = (case fmlookup m' n of None \<Rightarrow> JNull | Some x \<Rightarrow> x)"
    unfolding json_reads_def by blast
  then obtain lv dv where lv: "js_get js j ''labels'' = Some lv" "view lv = JObject l'"
    and dv: "js_get js j ''datapoints'' = Some dv" "view dv = JArray ys"
    using x(1) y(1) l'(1) ys(1) by (metis option.simps(5))
  have "\<not> js_is_null js lv" "\<not> js_is_null js dv" "map view (js_items js dv) = ys"
    using assms(2) lv(2) dv(2) unfolding json_reads_def by auto
  moreover obtain ls where ls: "labels_of_json js lv = GoodLabels ls" "mset ls = mset labels"
    using labels_of_json_same [OF assms(2) lv(2) _ lab(2)] look by blast
  moreover have "map (point_of_json js) (js_items js dv) = map (\<lambda>p. GoodPoint (dp_timestamp p) (dp_duration p) (dp_value p)) pts"
  proof -
    have "list_all2 (\<lambda>p v. same_json as_real (json_point p) (view v)) pts (js_items js dv)"
      using ys(2) \<open>map view (js_items js dv) = ys\<close> by (auto simp: list_all2_map1 list_all2_map2)
    then show ?thesis using pts
      by (induction rule: list_all2_induct) (simp_all add: point_of_json_same [OF assms(2)])
  qed
  ultimately have rec: "record_of_line js line = Some \<lparr>jr_labels = GoodLabels ls,
      jr_datapoints = Some (map (\<lambda>p. GoodPoint (dp_timestamp p) (dp_duration p) (dp_value p)) pts)\<rparr>"
    using line(3) lv(1) dv(1) by (simp add: record_of_line_def)
  have "copy_datapoints (map (\<lambda>p. GoodPoint (dp_timestamp p) (dp_duration p) (dp_value p)) qs) acc = Copied (acc @ qs)" for qs acc
    by (induction qs arbitrary: acc) simp_all
  with rec have "line_operation (record_of_line js) line = Inr (ls, pts)" by (simp add: line_operation_def)
  with that [of line ls] line(1,2) ls(2) show ?thesis by (simp add: r print_read_result_json_def)
qed

lemma series_key_mset: "mset ls = mset labels \<Longrightarrow> distinct (map fst labels) \<Longrightarrow> series_key ls = series_key labels"
proof -
  assume m: "mset ls = mset labels" and d: "distinct (map fst labels)"
  then have "inj_on fst (set labels)" by (simp add: distinct_map)
  moreover have "set ls = set labels" using m by (metis set_mset_mset)
  ultimately have "sort_key fst ls = sort_key fst labels" using m by (intro sort_key_inj_key_eq) simp_all
  then show ?thesis by (simp add: series_key_def)
qed

text \<open>
  Claim C22. What the read client prints in JSON is what the write client takes: piped from one to
  the other, every result is sent as one operation with the same datapoints, for the same series,
  in the order of the results, and the write client exits with zero.  It takes a JSON library that
  does what it documents and reads the lines it has written; a result of a stored series has labels
  and datapoints, and no datapoint that is NaN, which the library cannot write.
\<close>

theorem json_output_is_write_input:
  assumes "json_builds js view" and "json_reads js view as_real"
    and "list_all (\<lambda>m. printable_result (fst m) \<and> written_reads_back js view as_real (json_of_result js (fst m) (snd m))) msgs"
    and "srv_read_datapoints srv request = (msgs, ok)" and "\<not> wf_h fl"
  shows "\<exists>ops. snd (vqro_write_main (record_of_line js) fl
      (snd (run_command js show_double True srv (SendRead addr request)))) = (ops, Returned 0) \<and>
    list_all2 (\<lambda>op m. series_key (fst op) = series_key (fst (fst m)) \<and> snd op = snd (fst m)) ops msgs"
proof -
  have "\<exists>lines ops. concat (map (\<lambda>m. print_read_result_json js (fst m) (snd m)) msgs) = print_lines lines \<and>
      list_all one_line lines \<and> write_lines (record_of_line js) lines = (ops, Returned 0) \<and>
      list_all2 (\<lambda>op m. series_key (fst op) = series_key (fst (fst m)) \<and> snd op = snd (fst m)) ops msgs"
    using assms(3)
  proof (induction msgs)
    case Nil
    show ?case by (intro exI [of _ "[]"]) simp
  next
    case (Cons m msgs)
    then obtain lines ops where rest: "concat (map (\<lambda>m. print_read_result_json js (fst m) (snd m)) msgs) = print_lines lines"
      "list_all one_line lines" "write_lines (record_of_line js) lines = (ops, Returned 0)"
      "list_all2 (\<lambda>op m. series_key (fst op) = series_key (fst (fst m)) \<and> snd op = snd (fst m)) ops msgs" by auto
    have m: "printable_result (fst m)" "written_reads_back js view as_real (json_of_result js (fst m) (snd m))"
      using Cons.prems by simp_all
    obtain line ls where l: "print_read_result_json js (fst m) (snd m) = line @ NL" "one_line line" "mset ls = mset (fst (fst m))"
      "line_operation (record_of_line js) line = Inr (ls, snd (fst m))"
      by (rule line_of_result [OF assms(1,2) m])
    have "series_key ls = series_key (fst (fst m))"
      using series_key_mset [OF l(3)] m(1) by (simp add: printable_result_def)
    moreover have "line \<noteq> ''''" "snd (fst m) \<noteq> []" using l(2) m(1) by (auto simp: one_line_def printable_result_def)
    ultimately show ?case using rest l
      by (intro exI [of _ "line # lines"] exI [of _ "(ls, snd (fst m)) # ops"]) simp
  qed
  then obtain lines ops where r: "concat (map (\<lambda>m. print_read_result_json js (fst m) (snd m)) msgs) = print_lines lines"
    "list_all one_line lines" "write_lines (record_of_line js) lines = (ops, Returned 0)"
    "list_all2 (\<lambda>op m. series_key (fst op) = series_key (fst (fst m)) \<and> snd op = snd (fst m)) ops msgs" by blast
  have out: "snd (run_command js show_double True srv (SendRead addr request)) = print_lines lines"
    using r(1) assms(4) by (simp add: run_command_def client_call_def)
  have "list_all (\<lambda>l. one_line l \<or> l = []) lines" using r(2) by (simp add: list_all_iff)
  with scan_lines [of lines "[]"] have "complete_lines [] (print_lines lines) = lines" by simp
  with r(3,4) assms(5) show ?thesis unfolding out by (intro exI [of _ ops]) (simp add: vqro_write_main_def)
qed

text \<open>A library whose values are the data itself, and whose writer and parser know one document.\<close>

definition tree_lib :: "json \<Rightarrow> json json_lib" where
  "tree_lib document = \<lparr>js_null = JNull, js_array = JArray [], js_int = JInt, js_real = JReal, js_string = JString, js_bool = JBool,
     js_set = (\<lambda>j n v. case j of JObject m \<Rightarrow> JObject (fmupd n v m) | _ \<Rightarrow> JObject (fmupd n v fmempty)),
     js_append = (\<lambda>j v. case j of JArray xs \<Rightarrow> JArray (xs @ [v]) | _ \<Rightarrow> JArray [v]),
     js_write = (\<lambda>j. (if j = document then ''document'' else ''other'') @ NL), js_show = (\<lambda>j. ''document''),
     js_parse = (\<lambda>s. if s = ''document'' then Some document else None),
     js_get = (\<lambda>j n. case j of JObject m \<Rightarrow> Some (case fmlookup m n of None \<Rightarrow> JNull | Some x \<Rightarrow> x) | _ \<Rightarrow> None),
     js_is_null = (\<lambda>j. j = JNull),
     js_member_names = (\<lambda>j. case j of JObject m \<Rightarrow> Some (sorted_list_of_fset (fmdom m)) | _ \<Rightarrow> None),
     js_as_string = (\<lambda>j. case j of JString s \<Rightarrow> Some s | _ \<Rightarrow> None),
     js_items = (\<lambda>j. case j of JArray xs \<Rightarrow> xs | _ \<Rightarrow> []), js_size = (\<lambda>j. case j of JArray xs \<Rightarrow> length xs | _ \<Rightarrow> 0),
     js_at = (\<lambda>j i. case j of JArray xs \<Rightarrow> xs ! i | _ \<Rightarrow> JNull),
     js_as_int64 = (\<lambda>j. case j of JInt i \<Rightarrow> Some i | _ \<Rightarrow> None),
     js_as_double = (\<lambda>j. case j of JReal d \<Rightarrow> Some d | JInt i \<Rightarrow> Some 0 | _ \<Rightarrow> None)\<rparr>"

lemma tree_lib_ok: "json_builds (tree_lib document) (\<lambda>j. j)" "json_reads (tree_lib document) (\<lambda>j. j) (\<lambda>i. 0)"
  by (auto simp: json_builds_def json_reads_def tree_lib_def fmdom'_alt_def sorted_list_of_fset.rep_eq)

definition piped_result :: read_result where
  "piped_result = ([(''host'', ''a'')], two_points)"

definition piped_document :: json where
  "piped_document = json_of_result (tree_lib JNull) piped_result None"

definition piped_server :: vaquero_server where
  "piped_server = \<lparr>srv_read_datapoints = (\<lambda>rq. ([(piped_result, None)], True)), srv_search_labels = (\<lambda>q. ([], True)),
     srv_search_series = (\<lambda>q. ([], True))\<rparr>"

theorem json_output_is_write_input_witness:
  "\<exists>labels. snd (vqro_write_main (record_of_line (tree_lib piped_document)) demo_write_flags
      (snd (run_command (tree_lib piped_document) (\<lambda>d. ''0'') True piped_server (SendRead ''127.0.0.1:7950'' demo_request)))) =
        ([(labels, two_points)], Returned 0) \<and> series_key labels = series_key [(''host'', ''a'')]"
proof -
  have document: "json_of_result (tree_lib piped_document) piped_result None = piped_document"
    by (simp add: piped_document_def json_of_result_def json_of_labels_def json_of_point_def [abs_def] tree_lib_def)
  have nl: "NL = [CHR 0x0A]" by code_simp
  have "printable_result piped_result"
    by (simp add: printable_result_def piped_result_def two_points_def dp_ok_def i64_ok_def INT64_MIN_def INT64_MAX_def)
  moreover have "written_reads_back (tree_lib piped_document) (\<lambda>j. j) (\<lambda>i. 0) piped_document"
    unfolding written_reads_back_def
    by (intro exI [of _ "''document''"] exI [of _ piped_document]) (simp add: tree_lib_def one_line_def nl same_value)
  ultimately have msgs: "list_all (\<lambda>m. printable_result (fst m) \<and> written_reads_back (tree_lib piped_document) (\<lambda>j. j) (\<lambda>i. 0)
      (json_of_result (tree_lib piped_document) (fst m) (snd m))) [(piped_result, None)]"
    by (simp add: document)
  have srv: "srv_read_datapoints piped_server demo_request = ([(piped_result, None)], True)" "\<not> wf_h demo_write_flags"
    by (simp_all add: piped_server_def demo_write_flags_def)
  from json_output_is_write_input [OF tree_lib_ok msgs srv, of "\<lambda>d. ''0''" "''127.0.0.1:7950''"]
  obtain ops where ops: "snd (vqro_write_main (record_of_line (tree_lib piped_document)) demo_write_flags
      (snd (run_command (tree_lib piped_document) (\<lambda>d. ''0'') True piped_server (SendRead ''127.0.0.1:7950'' demo_request)))) = (ops, Returned 0)"
    "list_all2 (\<lambda>op m. series_key (fst op) = series_key (fst (fst m)) \<and> snd op = snd (fst m)) ops
      [(piped_result, None :: (string \<times> bool \<times> bool) option)]"
    by blast
  from ops(2) obtain op where "ops = [op]" "series_key (fst op) = series_key (fst piped_result)" "snd op = snd piped_result"
    unfolding list_all2_Cons2 by auto
  then have "ops = [op]" "series_key (fst op) = series_key [(''host'', ''a'')]" "snd op = two_points"
    by (simp_all only: piped_result_def fst_conv snd_conv)
  with ops(1) show ?thesis by (intro exI [of _ "fst op"]) (simp add: prod_eq_iff)
qed

text \<open>
  The value of the call is dropped, so the read client exits with zero whether the server
  answered or not; and a search in JSON that finds nothing prints the null of a value nothing was
  appended to, not an empty list.
\<close>

theorem failed_call_exits_zero:
  "run_command js show_double json (srv\<lparr>srv_read_datapoints := (\<lambda>rq. ([], False))\<rparr>) (SendRead addr request) = (Some 0, '''')"
  by (simp add: run_command_def client_call_def)

theorem empty_search_prints_null: "print_search_series_json js [] = js_write js (js_null js)"
  by (simp add: print_search_series_json_def)

end
