(* ===== verification/Spec2Isabelle.thy ===== *)
theory Spec2Isabelle
  imports Durability Flusher WorkerStop ServerMain ProcUsage Handles Statements Iterators JsonClients
begin

text \<open>
  Vaquero (\<open>vqro\<close>) is a time series store: a server keeps, for every set of labels (a series), the
  datapoints written to it, first in a buffer in memory and then in files of three formats, and
  answers reads of a time range and searches by label.  This library models it from the bytes of a
  datapoint up to the command-line clients, and proves what holds of it and what does not.

  \<^bold>\<open>How the parts interact.\<close>  A write arrives at the storage service, which hands it to the
  database; the database finds the series by its labels, lets the worker of the series append to the
  write buffer, and indexes a new series in SQLite.  A flusher thread moves the buffer to disk: the
  directory of the series distributes it over its datapoint files, and a sparse file grown too big
  is queued for the storage optimiser on the same worker.  A read goes the same way down, through
  the directory to the files and then over the buffer, into a read operation's buffer whose chunks
  the service streams to the client.

  \<^bold>\<open>Theories\<close>, each on the ones before it:

  \<^item> \<open>Prelude\<close>: 64-bit arithmetic written out over \<open>int\<close> (\<open>wrap64\<close>, \<open>div64\<close>), the exceptions of
    \<open>base.h\<close> as the datatype \<open>error\<close>, results \<open>error + 'a\<close>, programs
    \<open>'s \<Rightarrow> 'a res \<times> 's\<close>, and the collections \<open>arith64\<close> and \<open>run\<close>.
  \<^item> \<open>Floats\<close> (\<open>floatutil.h\<close>): doubles as \<open>64 word\<close>, \<open>AlmostEquals\<close>.
  \<^item> \<open>Datapoint\<close> (\<open>datapoint.h\<close>): the record and its 24 bytes in a file.
  \<^item> \<open>FileIO\<close> (\<open>fileutil.h/.cc\<close>): a POSIX file system as a record, with lists of answers that decide
    how far each \<open>read\<close> and \<open>write\<close> gets; the loops over partial transfers.
  \<^item> \<open>FileNames\<close>: C strings with the memory behind them, \<open>strtoll\<close>, and the names of the three
    kinds of file.  \<open>World\<close> adds the flags (\<open>config\<close>) and the worker's queue to the file system.
  \<^item> \<open>ReadOp\<close> (\<open>read_op.h\<close>) and \<open>Buffers\<close> (\<open>write_buffer.h/.cc\<close>, \<open>raw_buffer.h\<close>,
    \<open>datapoint_buffer.h\<close>, \<open>write_op.h\<close>): the buffers, their iterators and I/O vectors.  The locale
    \<open>datapoint_buffer\<close> is the iterator interface, interpreted by both buffers.
  \<^item> \<open>SparseStore\<close>, \<open>DenseStore\<close>, \<open>ConstantStore\<close> (\<open>sparse_file\<close>, \<open>dense_file\<close>,
    \<open>constant_file\<close>): reading and writing one file.
  \<^item> \<open>Directory\<close> and \<open>DirectoryWrite\<close> (\<open>datapoint_directory.cc\<close>): the scan for files, the binary
    search, the read across files and the distribution of a write.
  \<^item> \<open>Optimizer\<close> (\<open>storage_optimizer.cc\<close>), \<open>SeriesStore\<close> (\<open>series.cc\<close>);
    \<open>SeriesFlush\<close>: what a flush leaves on disk and a read finds there.
  \<^item> \<open>Search\<close> (\<open>search_engine.cc\<close>, \<open>sql_statement.h\<close>): the SQL the code builds and how it handles
    what SQLite, a parameter, answers.
  \<^item> \<open>Database\<close>, \<open>ChunkedRead\<close> (\<open>db.cc\<close>): the operations and the read in chunks (the locale
    \<open>chunk_reader\<close>, interpreted by a series in memory and one on disk).  \<open>ManyFiles\<close>: the read
    across the files of a directory, also after a restart.
  \<^item> \<open>Services\<close> (\<open>storage_service.h\<close>, \<open>search_service.h\<close>, \<open>controller_service.h\<close>).
  \<^item> \<open>DatabaseState\<close>, \<open>DatabaseSteps\<close>, \<open>EndToEnd\<close>, \<open>Flusher\<close> (\<open>db.cc\<close>): the invariant of the
    database, its operations as a step relation that refines bags of datapoints by key, the way of a
    datapoint from the write service over any number of flushes to the read service, and the flusher
    thread.  \<open>Durability\<close>: the same over any number of server processes on one data directory.
  \<^item> \<open>Worker\<close>, \<open>WorkerStop\<close> (\<open>worker.h\<close>) and \<open>Server\<close> (\<open>vqro_server.cc\<close>): the threads as step
    relations; \<open>WorkerStop\<close> has \<open>Stop\<close> and the destructor of the database, which stops one worker
    after the other.  \<open>ServerMain\<close>: the daemon's main program and what its set-up throws, and that
    each way it ends is one the steps of \<open>Server\<close> allow.
  \<^item> \<open>ReadClient\<close>, \<open>WriteClient\<close> (\<open>vqro_read.cc\<close>, \<open>vqro_write.cc\<close>): from the arguments and the
    standard input to the requests sent.  \<open>JsonClients\<close>: what the one prints in JSON and the other
    reads of a line.
  \<^item> \<open>ControllerMain\<close> (\<open>vqro_controller.cc\<close>, \<open>controller.h\<close>), \<open>ProcUsage\<close> (\<open>base.h/.cc\<close>: the
    environment, the clock, the sampling of \<open>/proc\<close>), \<open>Handles\<close> (\<open>fileutil.h\<close>: who closes a
    descriptor), \<open>Statements\<close> (\<open>sql_statement.h\<close>: who finalises a prepared statement),
    \<open>Exceptions\<close> (the exception classes, their messages and which handler catches them) and
    \<open>Iterators\<close> (\<open>datapoint_buffer.h\<close>: the iterator's operations at their width; the locale
    \<open>random_access\<close> states what the standard algorithms ask of it).

  \<^bold>\<open>State and operations.\<close>  An object is a record with the fields of its class, a method a function
  that returns the changed record; what the methods of several objects share (the file system, the
  worker's queue, SQLite) is threaded through as the state of a \<open>prog\<close>.  A definition has the name
  of the function it models in lower case, prefixed by its class where that is ambiguous
  (\<open>wb_append\<close>, \<open>ro_advance\<close>, \<open>dir_write\<close>); a constructor keeps its own.  Reads and writes outside
  an allocation are the error \<open>OutOfBounds\<close>, a division by zero is \<open>DivTrap\<close>.

  \<^bold>\<open>What the lemmas show.\<close>  From the buffer to the wire, what is written is what is read: \<open>Append\<close>
  refines appending to a list, the I/O vectors of a whole buffer are its bytes in order, a sparse
  write appends them, a sparse read returns the newest datapoint of each timestamp, a flush followed
  by a read composes these for a series, a database read delivers them in chunks and the service
  streams them; one theorem goes all the way, from the requests of a writing client over rounds of
  writes and flushes to the results of a reading one, another from process to process over the files alone.  The passes of the flusher thread empty the
  memory.  Invariants cover the order of a directory's files, the database, the worker's queue, the
  server's pointer and the owners of prepared statements; equivalences the optimiser's judgement and
  the keys of series.  The destructor of the database ends unless a worker has missed its wake-up.  Where the
  code does not do this, a theorem states the conditions and what it does instead.

  \<^bold>\<open>Loops and fuel.\<close>  \<open>create_directory\<close> recurses with fuel, the length of the path and two:
  every call for a parent shortens the path, and the retry once it exists recurses no further.  The binary search (\<open>find_loop\<close>), the directory's write loop
  (\<open>dir_write_loop\<close>) and the database's read loop (\<open>db_read_loop\<close>) are partial functions where \<open>None\<close>
  is a loop that does not end; that the first can hang and that the others return is proved.

  \<^bold>\<open>Not modelled.\<close>  Code generated by \<open>protoc\<close> and gRPC itself (a stream is a list of messages);
  SQLite, RE2, jsoncpp, \<open>strtod\<close>, the calendar, the texts of \<open>strerror\<close> and the quotient of doubles
  (parameters); logging and \<open>PrintBacktrace\<close> (output only); the usage texts of the clients; the unit
  tests.  The database runs a task where it is handed over: the races of the flusher thread with the
  workers are outside it, the queue and its threads are modelled in \<open>Worker\<close> and \<open>WorkerStop\<close>
  alone, where memory is sequentially consistent.  The round trips over several flushes are for series
  that stay in one sparse file: once there are three files or more the binary search of a directory can
  hang (\<open>search_hangs_past_the_middle\<close>), and a file that crosses the optimiser's threshold is
  handed over to conversions that fail (\<open>optimizer_converts_nothing\<close>).
\<close>

end
